(* ===== verification/Prelude.thy ===== *)
theory Prelude
  imports Complex_Main "HOL-Library.Sublist" "HOL-Library.Word" "HOL-Library.Code_Target_Nat"
begin

text \<open>
  Shared ground of the development: Rust strings as lists of Unicode scalar values, the
  \<^verbatim>\<open>str\<close> methods the sources call, \<^verbatim>\<open>Result\<close> values with the \<^verbatim>\<open>?\<close> operator, and the
  insertion-ordered \<^verbatim>\<open>IndexMap\<close>.  Everything a component proof uses more than once lives
  here, either as a simplification rule or in one of the collections declared below.
\<close>

named_theorems str_eval \<open>equations that evaluate string literals and string methods\<close>

named_theorems wf_intros \<open>introduction rules of well-formedness predicates\<close>

section \<open>Strings\<close>

text \<open>
  A Rust \<^verbatim>\<open>char\<close> is a Unicode scalar value and a \<^verbatim>\<open>String\<close> a sequence of them.  The
  sources index strings by byte offsets into UTF-8; the model indexes the same sequence by
  position, and the two numberings are in an order-preserving bijection, so slices and
  comparisons of offsets agree.  A literal is \<open>lit ''abc''\<close>, a character \<open>ch (CHR ''a'')\<close>.
\<close>

type_synonym uchar = nat

type_synonym str = "uchar list"

definition lit :: "string \<Rightarrow> str" where
  "lit s = map of_char s"

abbreviation ch :: "char \<Rightarrow> uchar" where
  "ch c \<equiv> of_char c"

lemma lit_inject [simp]: "lit s = lit t \<longleftrightarrow> s = t"
  by (simp add: lit_def inj_map_eq_map [OF inj_of_char])

lemma length_lit [simp]: "length (lit s) = length s"
  by (simp add: lit_def)

lemma lit_Nil [simp]: "lit [] = []"
  by (simp add: lit_def)

lemma lit_eq_Nil_iff [simp]: "lit s = [] \<longleftrightarrow> s = []"
  by (simp add: lit_def)

lemma lit_append: "lit (s @ t) = lit s @ lit t"
  by (simp add: lit_def)

lemma lit_Cons: "lit (c # s) = ch c # lit s"
  by (simp add: lit_def)

declare lit_def [str_eval]

subsection \<open>The string methods of the standard library\<close>

definition strip_prefix :: "'a list \<Rightarrow> 'a list \<Rightarrow> 'a list option" where
  "strip_prefix p s = (if prefix p s then Some (drop (length p) s) else None)"

definition strip_suffix :: "'a list \<Rightarrow> 'a list \<Rightarrow> 'a list option" where
  "strip_suffix p s = (if suffix p s then Some (take (length s - length p) s) else None)"

text \<open>\<^verbatim>\<open>str::find\<close> with a predicate: the position of the first character that satisfies it.\<close>

fun find_pos :: "('a \<Rightarrow> bool) \<Rightarrow> 'a list \<Rightarrow> nat option" where
  "find_pos P [] = None"
| "find_pos P (x # xs) = (if P x then Some 0 else map_option Suc (find_pos P xs))"

text \<open>\<^verbatim>\<open>str::find\<close> with a string: where its first occurrence starts.\<close>

fun find_str :: "'a list \<Rightarrow> 'a list \<Rightarrow> nat option" where
  "find_str p [] = (if p = [] then Some 0 else None)"
| "find_str p (x # xs) =
     (if prefix p (x # xs) then Some 0 else map_option Suc (find_str p xs))"

definition split_once :: "'a \<Rightarrow> 'a list \<Rightarrow> ('a list \<times> 'a list) option" where
  "split_once c s =
     map_option (\<lambda>i. (take i s, drop (Suc i) s)) (find_pos (\<lambda>x. x = c) s)"

definition rsplit_once :: "'a \<Rightarrow> 'a list \<Rightarrow> ('a list \<times> 'a list) option" where
  "rsplit_once c s =
     map_option (\<lambda>(b, a). (rev a, rev b)) (split_once c (rev s))"

text \<open>\<^verbatim>\<open>str::split_once\<close> and \<^verbatim>\<open>str::split\<close> with a string, and \<^verbatim>\<open>str::split\<close> with a predicate.\<close>

definition split_once_str :: "'a list \<Rightarrow> 'a list \<Rightarrow> ('a list \<times> 'a list) option" where
  "split_once_str p s =
     map_option (\<lambda>i. (take i s, drop (i + length p) s)) (find_str p s)"

fun split_pred :: "('a \<Rightarrow> bool) \<Rightarrow> 'a list \<Rightarrow> 'a list list" where
  "split_pred P [] = [[]]"
| "split_pred P (x # xs) =
     (if P x then [] # split_pred P xs
      else (case split_pred P xs of [] \<Rightarrow> [[x]] | w # ws \<Rightarrow> (x # w) # ws))"

definition trim_end :: "('a \<Rightarrow> bool) \<Rightarrow> 'a list \<Rightarrow> 'a list" where
  "trim_end P s = rev (dropWhile P (rev s))"

definition trim_both :: "('a \<Rightarrow> bool) \<Rightarrow> 'a list \<Rightarrow> 'a list" where
  "trim_both P s = trim_end P (dropWhile P s)"

text \<open>\<^verbatim>\<open>slice::join\<close>.\<close>

fun join :: "'a list \<Rightarrow> 'a list list \<Rightarrow> 'a list" where
  "join sep [] = []"
| "join sep [x] = x"
| "join sep (x # y # zs) = x @ sep @ join sep (y # zs)"

text \<open>\<^verbatim>\<open>str::replace\<close>, for a pattern that is not empty.\<close>

function replace_all :: "'a list \<Rightarrow> 'a list \<Rightarrow> 'a list \<Rightarrow> 'a list" where
  "replace_all p r s =
     (if p = [] then s
      else (case s of
              [] \<Rightarrow> []
            | x # xs \<Rightarrow>
                if prefix p s then r @ replace_all p r (drop (length p) s) else x # replace_all p r xs))"
  by pat_completeness auto

termination replace_all
proof (relation "measure (\<lambda>(_, _, s). length s)", goal_cases)
  case (2 p r s x xs)
  then show ?case by (cases p) auto
qed simp_all

declare replace_all.simps [simp del]

definition count_char :: "'a \<Rightarrow> 'a list \<Rightarrow> nat" where
  "count_char c s = length (filter (\<lambda>x. x = c) s)"

text \<open>ASCII classes and \<^verbatim>\<open>to_ascii_lowercase\<close>.\<close>

definition is_digit :: "uchar \<Rightarrow> bool" where
  "is_digit c \<longleftrightarrow> 48 \<le> c \<and> c \<le> 57"

definition is_upper :: "uchar \<Rightarrow> bool" where
  "is_upper c \<longleftrightarrow> 65 \<le> c \<and> c \<le> 90"

definition is_lower :: "uchar \<Rightarrow> bool" where
  "is_lower c \<longleftrightarrow> 97 \<le> c \<and> c \<le> 122"

definition is_alpha :: "uchar \<Rightarrow> bool" where
  "is_alpha c \<longleftrightarrow> is_upper c \<or> is_lower c"

definition is_alnum :: "uchar \<Rightarrow> bool" where
  "is_alnum c \<longleftrightarrow> is_alpha c \<or> is_digit c"

lemmas ascii_defs = is_digit_def is_upper_def is_lower_def is_alpha_def is_alnum_def

definition ascii_lower :: "str \<Rightarrow> str" where
  "ascii_lower s = map (\<lambda>c. if is_upper c then c + 32 else c) s"

text \<open>\<^verbatim>\<open>Display\<close> of an unsigned integer, and \<^verbatim>\<open>{:0w}\<close>, its zero-padded form.\<close>

fun dec :: "nat \<Rightarrow> str" where
  "dec n = (if n < 10 then [48 + n] else dec (n div 10) @ [48 + n mod 10])"

declare dec.simps [simp del]

definition dec_pad :: "nat \<Rightarrow> nat \<Rightarrow> str" where
  "dec_pad w n = replicate (w - length (dec n)) 48 @ dec n"

definition dec_int :: "int \<Rightarrow> str" where
  "dec_int i = (if i < 0 then lit ''-'' @ dec (nat (- i)) else dec (nat i))"

subsection \<open>Facts about the methods\<close>

lemma strip_prefix_Some [simp]:
  "strip_prefix p s = Some r \<longleftrightarrow> s = p @ r"
  by (auto simp: strip_prefix_def prefix_def)

lemma strip_suffix_Some [simp]:
  "strip_suffix p s = Some r \<longleftrightarrow> s = r @ p"
  by (auto simp: strip_suffix_def suffix_def)

lemma find_pos_Some:
  "find_pos P xs = Some i \<Longrightarrow> i < length xs \<and> P (xs ! i) \<and> (\<forall>j<i. \<not> P (xs ! j))"
proof (induction xs arbitrary: i)
  case (Cons x xs)
  then show ?case
    by (cases i) (auto simp: nth_Cons less_Suc_eq_0_disj split: if_splits)
qed simp

lemma find_pos_None: "find_pos P xs = None \<longleftrightarrow> (\<forall>x\<in>set xs. \<not> P x)"
  by (induction xs) auto

lemma find_str_Some:
  "find_str p s = Some i \<Longrightarrow> i \<le> length s \<and> prefix p (drop i s) \<and> (\<forall>j<i. \<not> prefix p (drop j s))"
proof (induction s arbitrary: i)
  case Nil
  then show ?case by (auto split: if_splits)
next
  case (Cons x xs)
  show ?case
  proof (cases "prefix p (x # xs)")
    case True
    with Cons.prems show ?thesis by simp
  next
    case False
    with Cons.prems obtain k where k: "find_str p xs = Some k" "i = Suc k" by auto
    have "\<not> prefix p (drop j (x # xs))" if "j < i" for j
      using that Cons.IH [OF k(1)] False k(2) by (cases j) auto
    with Cons.IH [OF k(1)] k(2) show ?thesis by auto
  qed
qed

lemma find_str_None: "find_str p s = None \<longleftrightarrow> (\<forall>i\<le>length s. \<not> prefix p (drop i s))"
proof (induction s)
  case Nil
  then show ?case by simp
next
  case (Cons x xs)
  have "(\<forall>i\<le>length (x # xs). \<not> prefix p (drop i (x # xs))) \<longleftrightarrow>
      \<not> prefix p (x # xs) \<and> (\<forall>i\<le>length xs. \<not> prefix p (drop i xs))"
    by (auto simp: less_Suc_eq_0_disj) (metis Suc_le_mono drop_Suc_Cons not0_implies_Suc drop_0)
  with Cons show ?case by auto
qed

lemma split_once_Some:
  "split_once c s = Some (a, b) \<longleftrightarrow> s = a @ c # b \<and> c \<notin> set a"
proof
  assume "split_once c s = Some (a, b)"
  then obtain i where i: "find_pos (\<lambda>x. x = c) s = Some i" "a = take i s" "b = drop (Suc i) s"
    by (auto simp: split_once_def)
  from find_pos_Some [OF i(1)] have "i < length s" "s ! i = c" "\<forall>j<i. s ! j \<noteq> c" by auto
  with i show "s = a @ c # b \<and> c \<notin> set a"
    by (auto simp: id_take_nth_drop [symmetric] in_set_conv_nth)
next
  assume s: "s = a @ c # b \<and> c \<notin> set a"
  then have "find_pos (\<lambda>x. x = c) s = Some (length a)"
  proof (induction a arbitrary: s)
    case (Cons y ys)
    from Cons.IH [of "ys @ c # b"] Cons.prems show ?case by auto
  qed simp
  with s show "split_once c s = Some (a, b)" by (simp add: split_once_def)
qed

lemma split_once_None: "split_once c s = None \<longleftrightarrow> c \<notin> set s"
  by (auto simp: split_once_def find_pos_None)

lemma split_pred_nonempty [simp]: "split_pred P s \<noteq> []"
  by (induction s) (auto split: list.splits)

lemma join_split_pred: "join [c] (split_pred (\<lambda>x. x = c) s) = s"
proof (induction s)
  case (Cons x s)
  show ?case
  proof (cases "split_pred (\<lambda>x. x = c) s")
    case (Cons w ws)
    with Cons.IH show ?thesis by (cases ws) auto
  qed simp
qed simp

lemma split_pred_no_sep: "w \<in> set (split_pred P s) \<Longrightarrow> x \<in> set w \<Longrightarrow> \<not> P x"
  by (induction s arbitrary: w) (auto split: list.splits if_splits, fastforce+)

lemma split_pred_append: "P c \<Longrightarrow> split_pred P (xs @ c # ys) = split_pred P xs @ split_pred P ys"
  by (induction xs) (auto split: list.splits)

lemma join_append: "xs \<noteq> [] \<Longrightarrow> ys \<noteq> [] \<Longrightarrow> join sep (xs @ ys) = join sep xs @ sep @ join sep ys"
proof (induction xs rule: induct_list012)
  case (2 x)
  then show ?case by (cases ys) auto
qed auto

text \<open>Whole labels: ending in the pieces of a string is ending in it after a separator.\<close>

lemma set_join: "c \<in> set (join sep xs) \<Longrightarrow> c \<in> set sep \<or> (\<exists>x\<in>set xs. c \<in> set x)"
  by (induction sep xs rule: join.induct) auto

lemma split_pred_suffix:
  "suffix (split_pred (\<lambda>x. x = c) t) (split_pred (\<lambda>x. x = c) s) \<longleftrightarrow> s = t \<or> suffix (c # t) s"
proof
  assume "suffix (split_pred (\<lambda>x. x = c) t) (split_pred (\<lambda>x. x = c) s)"
  then obtain zs where zs: "split_pred (\<lambda>x. x = c) s = zs @ split_pred (\<lambda>x. x = c) t" by (auto simp: suffix_def)
  then have "s = join [c] (zs @ split_pred (\<lambda>x. x = c) t)" by (metis join_split_pred)
  then show "s = t \<or> suffix (c # t) s"
    by (cases "zs = []") (auto simp: join_split_pred join_append suffix_def)
next
  assume "s = t \<or> suffix (c # t) s"
  then show "suffix (split_pred (\<lambda>x. x = c) t) (split_pred (\<lambda>x. x = c) s)"
    by (auto simp: suffix_def split_pred_append)
qed

lemma prefix_trim_end: "prefix (trim_end P s) s"
  unfolding trim_end_def by (metis suffix_dropWhile suffix_to_prefix rev_rev_ident)

lemma length_trim_end [simp]: "length (trim_end P s) \<le> length s"
  using prefix_length_le [OF prefix_trim_end] .

lemma trim_end_last: "trim_end P s \<noteq> [] \<Longrightarrow> \<not> P (last (trim_end P s))"
  unfolding trim_end_def by (metis hd_dropWhile last_rev rev_is_Nil_conv)

lemma length_ascii_lower [simp]: "length (ascii_lower s) = length s"
  by (simp add: ascii_lower_def)

subsection \<open>Decimal digits\<close>

lemma dec_nonempty [simp]: "dec n \<noteq> []"
  by (subst dec.simps) simp

lemma dec_digits: "c \<in> set (dec n) \<Longrightarrow> is_digit c"
proof (induction n rule: dec.induct)
  case (1 n)
  then show ?case
    by (cases "n < 10") (auto simp: dec.simps [of n] is_digit_def)
qed

lemma length_dec_Suc: "length (dec n) \<le> length (dec (Suc n)) \<and> length (dec (Suc n)) \<le> Suc (length (dec n))"
proof (induction n rule: dec.induct)
  case (1 n)
  show ?case
  proof (cases "n < 10")
    case True
    then show ?thesis by (auto simp: dec.simps [of n] dec.simps [of "Suc n"] dec.simps [of "Suc n div 10"])
  next
    case False
    have "Suc n div 10 = n div 10 \<or> Suc n div 10 = Suc (n div 10)" by arith
    with False 1 show ?thesis by (auto simp: dec.simps [of n] dec.simps [of "Suc n"])
  qed
qed

lemma length_dec_mono: "m \<le> n \<Longrightarrow> length (dec m) \<le> length (dec n)"
  by (induction rule: dec_induct) (auto intro: le_trans length_dec_Suc [THEN conjunct1])

lemma length_dec_pad: "length (dec_pad w n) = max w (length (dec n))"
  by (simp add: dec_pad_def)

lemma length_dec_bound: "0 < w \<Longrightarrow> n < 10 ^ w \<Longrightarrow> length (dec n) \<le> w"
proof (induction w arbitrary: n)
  case (Suc w)
  show ?case
  proof (cases "n < 10")
    case True
    then show ?thesis by (simp add: dec.simps [of n])
  next
    case False
    then have "0 < w" using Suc.prems by (cases w) auto
    moreover from Suc.prems have "n div 10 < 10 ^ w" by (simp add: div_less_iff_less_mult mult.commute)
    ultimately show ?thesis using Suc.IH [of "n div 10"] False by (simp add: dec.simps [of n])
  qed
qed simp

lemma find_key:
  "distinct (map f xs) \<Longrightarrow> x \<in> set xs \<Longrightarrow> find (\<lambda>y. f y = f x) xs = Some x"
  by (induction xs) (auto simp: image_iff)

section \<open>Results\<close>

text \<open>\<^verbatim>\<open>Result<T, E>\<close> is \<open>'e + 'a\<close>, \<open>Inl\<close> the error; \<open>and_then\<close> is the \<^verbatim>\<open>?\<close> operator.\<close>

definition and_then :: "'e + 'a \<Rightarrow> ('a \<Rightarrow> 'e + 'b) \<Rightarrow> 'e + 'b" where
  "and_then r f = (case r of Inl e \<Rightarrow> Inl e | Inr x \<Rightarrow> f x)"

lemma and_then_simps [simp]:
  "and_then (Inl e) f = Inl e"
  "and_then (Inr x) f = f x"
  by (simp_all add: and_then_def)

lemma and_then_Inr: "and_then r f = Inr y \<longleftrightarrow> (\<exists>x. r = Inr x \<and> f x = Inr y)"
  by (cases r) auto

text \<open>\<^verbatim>\<open>Option::is_some_and\<close>.\<close>

fun is_some_and :: "'a option \<Rightarrow> ('a \<Rightarrow> bool) \<Rightarrow> bool" where
  "is_some_and None P = False"
| "is_some_and (Some x) P = P x"

lemma is_some_and_iff: "is_some_and x P \<longleftrightarrow> (\<exists>y. x = Some y \<and> P y)"
  by (cases x) simp_all

definition ok_or :: "'e \<Rightarrow> 'a option \<Rightarrow> 'e + 'a" where
  "ok_or e x = (case x of None \<Rightarrow> Inl e | Some y \<Rightarrow> Inr y)"

lemma ok_or_simps [simp]: "ok_or e None = Inl e" "ok_or e (Some y) = Inr y"
  by (simp_all add: ok_or_def)

section \<open>Insertion-ordered maps\<close>

text \<open>
  \<^verbatim>\<open>IndexMap\<close> iterates in insertion order; inserting a key it holds keeps the key's place.
  The representation is an association list with distinct keys.
\<close>

type_synonym ('k, 'v) index_map = "('k \<times> 'v) list"

fun im_insert :: "'k \<Rightarrow> 'v \<Rightarrow> ('k, 'v) index_map \<Rightarrow> ('k, 'v) index_map" where
  "im_insert k v [] = [(k, v)]"
| "im_insert k v ((k', v') # m) =
     (if k' = k then (k, v) # m else (k', v') # im_insert k v m)"

definition im_remove :: "'k \<Rightarrow> ('k, 'v) index_map \<Rightarrow> ('k, 'v) index_map" where
  "im_remove k m = filter (\<lambda>kv. fst kv \<noteq> k) m"

abbreviation im_get :: "('k, 'v) index_map \<Rightarrow> 'k \<Rightarrow> 'v option" where
  "im_get m \<equiv> map_of m"

abbreviation im_keys :: "('k, 'v) index_map \<Rightarrow> 'k list" where
  "im_keys m \<equiv> map fst m"

definition im_wf :: "('k, 'v) index_map \<Rightarrow> bool" where
  "im_wf m \<longleftrightarrow> distinct (map fst m)"

definition im_collect :: "('k \<times> 'v) list \<Rightarrow> ('k, 'v) index_map" where
  "im_collect kvs = foldl (\<lambda>m (k, v). im_insert k v m) [] kvs"

text \<open>The contract of a map as its clients use it; \<^verbatim>\<open>IndexMap\<close> is interpreted below.\<close>

locale finite_map =
  fixes empty :: 'm
    and insert :: "'k \<Rightarrow> 'v \<Rightarrow> 'm \<Rightarrow> 'm"
    and remove :: "'k \<Rightarrow> 'm \<Rightarrow> 'm"
    and get :: "'m \<Rightarrow> 'k \<Rightarrow> 'v option"
    and keys :: "'m \<Rightarrow> 'k list"
    and wf :: "'m \<Rightarrow> bool"
  assumes wf_empty: "wf empty"
    and wf_insert: "wf m \<Longrightarrow> wf (insert k v m)"
    and wf_remove: "wf m \<Longrightarrow> wf (remove k m)"
    and get_empty: "get empty = (\<lambda>_. None)"
    and get_insert: "get (insert k v m) = (get m)(k := Some v)"
    and get_remove: "get (remove k m) = (get m)(k := None)"
    and keys_get: "set (keys m) = dom (get m)"
    and keys_distinct: "wf m \<Longrightarrow> distinct (keys m)"
begin

lemma keys_insert: "set (keys (insert k v m)) = {k} \<union> set (keys m)"
  by (auto simp: keys_get get_insert)

lemma keys_remove: "set (keys (remove k m)) = set (keys m) - {k}"
  by (auto simp: keys_get get_remove)

lemma count_keys: "wf m \<Longrightarrow> length (keys m) = card (dom (get m))"
  using keys_distinct [of m] keys_get [of m] by (metis distinct_card)

end

lemma im_insert_keys: "fst ` set (im_insert k v m) = insert k (fst ` set m)"
  by (induction k v m rule: im_insert.induct) auto

lemma im_insert_get: "im_get (im_insert k v m) = (im_get m)(k \<mapsto> v)"
  by (induction k v m rule: im_insert.induct) (auto simp: fun_eq_iff)

lemma im_insert_distinct: "distinct (im_keys m) \<Longrightarrow> distinct (im_keys (im_insert k v m))"
  by (induction k v m rule: im_insert.induct) (simp_all add: im_insert_keys, blast)

lemma im_remove_get: "im_get (im_remove k m) = (im_get m)(k := None)"
  by (induction m) (auto simp: im_remove_def fun_eq_iff)

interpretation index_map: finite_map "[]" im_insert im_remove im_get im_keys im_wf
proof
  show "im_wf m \<Longrightarrow> im_wf (im_remove k m)" for k and m :: "('k, 'v) index_map"
    by (simp add: im_wf_def im_remove_def distinct_map_filter)
qed (auto simp: im_wf_def im_insert_distinct im_insert_get im_remove_get dom_map_of_conv_image_fst)

lemma im_collect_wf: "im_wf (im_collect kvs)"
proof -
  have "im_wf (foldl (\<lambda>m (k, v). im_insert k v m) m0 kvs)" if "im_wf m0" for m0
    using that by (induction kvs arbitrary: m0) (auto simp: index_map.wf_insert split: prod.splits)
  from this [OF index_map.wf_empty] show ?thesis by (simp add: im_collect_def)
qed

lemma im_collect_subset: "set (im_collect kvs) \<subseteq> set kvs"
proof -
  have insert: "set (im_insert k v m) \<subseteq> insert (k, v) (set m)" for k v and m :: "('a, 'b) index_map"
    by (induction k v m rule: im_insert.induct) auto
  have "set (foldl (\<lambda>m (k, v). im_insert k v m) m0 kvs) \<subseteq> set m0 \<union> set kvs" for m0
    using insert by (induction kvs arbitrary: m0) (fastforce split: prod.splits)+
  from this [of "[]"] show ?thesis by (simp add: im_collect_def)
qed

lemma im_collect_keys: "set (im_keys (im_collect kvs)) = fst ` set kvs"
proof -
  have "set (im_keys (foldl (\<lambda>m (k, v). im_insert k v m) m0 kvs)) = set (im_keys m0) \<union> fst ` set kvs" for m0
    by (induction kvs arbitrary: m0) (simp_all add: im_insert_keys case_prod_beta)
  from this [of "[]"] show ?thesis by (simp add: im_collect_def)
qed

lemma im_get_member: "im_wf m \<Longrightarrow> im_get m k = Some v \<longleftrightarrow> (k, v) \<in> set m"
  by (simp add: im_wf_def)

lemma im_insert_new: "k \<notin> set (im_keys m) \<Longrightarrow> im_insert k v m = m @ [(k, v)]"
  by (induction k v m rule: im_insert.induct) auto

lemma im_insert_order: "k \<in> set (im_keys m) \<Longrightarrow> im_keys (im_insert k v m) = im_keys m"
  by (induction k v m rule: im_insert.induct) auto

text \<open>Keeping the first of equal elements, as an \<^verbatim>\<open>IndexSet\<close> collects them.\<close>

fun unique :: "'a list \<Rightarrow> 'a list" where
  "unique [] = []"
| "unique (x # xs) = x # filter (\<lambda>y. y \<noteq> x) (unique xs)"

lemma set_unique [simp]: "set (unique xs) = set xs"
  by (induction xs) auto

lemma distinct_unique [simp]: "distinct (unique xs)"
  by (induction xs) auto

lemma unique_id: "distinct xs \<Longrightarrow> unique xs = xs"
proof (induction xs)
  case (Cons x xs)
  then have "filter (\<lambda>y. y \<noteq> x) xs = xs" by (auto simp: filter_id_conv)
  with Cons show ?case by simp
qed simp

lemma unique_remove:
  "filter (\<lambda>z. z \<noteq> y) (unique (xs @ y # zs)) = filter (\<lambda>z. z \<noteq> y) (unique (xs @ zs))"
proof (induction xs)
  case (Cons x xs)
  have swap: "filter (\<lambda>z. z \<noteq> y) (filter (\<lambda>z. z \<noteq> x) us) = filter (\<lambda>z. z \<noteq> x) (filter (\<lambda>z. z \<noteq> y) us)" for us
    by (simp add: conj_commute)
  show ?case unfolding append_Cons unique.simps filter.simps swap Cons ..
qed simp

lemma unique_append_repeat: "y \<in> set xs \<Longrightarrow> unique (xs @ y # zs) = unique (xs @ zs)"
  by (induction xs) (auto simp: unique_remove)

section \<open>Step relations\<close>

text \<open>
  A predicate that every step keeps holds in every state reached from one where it holds.
  The components with a state machine interpret this for each of their invariants.
\<close>

locale stable_predicate =
  fixes step :: "'s \<Rightarrow> 's \<Rightarrow> bool"
    and holds :: "'s \<Rightarrow> bool"
  assumes stable: "step s s' \<Longrightarrow> holds s \<Longrightarrow> holds s'"
begin

lemma stable_star: "step\<^sup>*\<^sup>* s s' \<Longrightarrow> holds s \<Longrightarrow> holds s'"
  by (induction rule: rtranclp_induct) (auto intro: stable)

end

end
