(* ===== verification/PyText.thy ===== *)
theory PyText
  imports Prelude
begin

text \<open>
  \<^verbatim>\<open>crates/fastbrowse-core/src/py/text.rs\<close>: Python's \<^verbatim>\<open>str\<close> methods as the ported modules use
  them.  Case mapping and the alphanumeric class come from the Unicode character database;
  the model takes them as the tables of a record, so every statement holds for any version
  of the database.
\<close>

record unicode_tables =
  lower_of :: "uchar \<Rightarrow> str"
  alnum_of :: "uchar \<Rightarrow> bool"
  cased_of :: "uchar \<Rightarrow> bool"
  case_ignorable_of :: "uchar \<Rightarrow> bool"

text \<open>The tables restricted to ASCII, for evaluating concrete inputs.\<close>

definition ascii_tables :: unicode_tables where
  "ascii_tables = \<lparr>lower_of = (\<lambda>c. if is_upper c then [c + 32] else [c]), alnum_of = is_alnum,
     cased_of = is_alpha, case_ignorable_of = (\<lambda>c. c \<in> set (lit ''.:^`'') \<or> c = 39)\<rparr>"

text \<open>\<^verbatim>\<open>str::to_lowercase\<close>: character by character, but a capital sigma that ends a word becomes the
  final form.\<close>

definition ignorable_then_cased :: "unicode_tables \<Rightarrow> str \<Rightarrow> bool" where
  "ignorable_then_cased u s =
     (case dropWhile (case_ignorable_of u) s of [] \<Rightarrow> False | c # _ \<Rightarrow> cased_of u c)"

fun lower_from :: "unicode_tables \<Rightarrow> str \<Rightarrow> str \<Rightarrow> str" where
  "lower_from u before [] = []"
| "lower_from u before (c # s) =
     (if c = 0x3A3
      then [if ignorable_then_cased u before \<and> \<not> ignorable_then_cased u s then 0x3C2 else 0x3C3]
      else lower_of u c)
     @ lower_from u (c # before) s"

definition to_lowercase :: "unicode_tables \<Rightarrow> str \<Rightarrow> str" where
  "to_lowercase u s = lower_from u [] s"

section \<open>Splitting and trimming\<close>

text \<open>\<^verbatim>\<open>char::is_whitespace\<close>: Unicode's White\_Space property.\<close>

definition is_whitespace :: "uchar \<Rightarrow> bool" where
  "is_whitespace c \<longleftrightarrow>
     9 \<le> c \<and> c \<le> 13 \<or> c = 32 \<or> c = 0x85 \<or> c = 0xA0 \<or> c = 0x1680 \<or> 0x2000 \<le> c \<and> c \<le> 0x200A
     \<or> c = 0x2028 \<or> c = 0x2029 \<or> c = 0x202F \<or> c = 0x205F \<or> c = 0x3000"

definition text_len :: "str \<Rightarrow> nat" where
  "text_len s = length s"

definition text_prefix :: "str \<Rightarrow> nat \<Rightarrow> str" where
  "text_prefix s n = take n s"

definition is_space :: "uchar \<Rightarrow> bool" where
  "is_space c \<longleftrightarrow> is_whitespace c \<or> 0x1C \<le> c \<and> c \<le> 0x1F"

definition text_split :: "str \<Rightarrow> str list" where
  "text_split s = filter (\<lambda>w. w \<noteq> []) (split_pred is_space s)"

definition squash :: "str \<Rightarrow> str" where
  "squash s = join (lit '' '') (text_split s)"

definition strip :: "str \<Rightarrow> str" where
  "strip s = trim_both is_space s"

definition is_word :: "unicode_tables \<Rightarrow> uchar \<Rightarrow> bool" where
  "is_word u c \<longleftrightarrow> alnum_of u c \<or> c = ch (CHR ''_'')"

section \<open>Case\<close>

definition casefold_char :: "unicode_tables \<Rightarrow> uchar \<Rightarrow> str" where
  "casefold_char u c =
     (if c = 0xDF \<or> c = 0x1E9E then lit ''ss''
      else if c = 0x3C2 then [0x3C3]
      else if c = 0xFB00 then lit ''ff''
      else if c = 0xFB01 then lit ''fi''
      else if c = 0xFB02 then lit ''fl''
      else if c = 0xFB03 then lit ''ffi''
      else if c = 0xFB04 then lit ''ffl''
      else if c = 0xFB05 \<or> c = 0xFB06 then lit ''st''
      else if c = 0x130 then [105, 0x307]
      else lower_of u c)"

definition casefold :: "unicode_tables \<Rightarrow> str \<Rightarrow> str" where
  "casefold u s = concat (map (casefold_char u) s)"

definition same_letter :: "unicode_tables \<Rightarrow> uchar \<Rightarrow> uchar \<Rightarrow> bool" where
  "same_letter u a b \<longleftrightarrow> a = b \<or> lower_of u a = lower_of u b"

text \<open>The length matched, when the text starts with the word up to case.\<close>

fun starts_with_ignore_case :: "unicode_tables \<Rightarrow> str \<Rightarrow> str \<Rightarrow> nat option" where
  "starts_with_ignore_case u s [] = Some 0"
| "starts_with_ignore_case u [] (w # ws) = None"
| "starts_with_ignore_case u (c # s) (w # ws) =
     (if same_letter u c w then map_option Suc (starts_with_ignore_case u s ws) else None)"

section \<open>Writing values into messages\<close>

definition or_list :: "str list \<Rightarrow> str" where
  "or_list items =
     (case rev items of
        [] \<Rightarrow> []
      | [l] \<Rightarrow> l
      | l # rest \<Rightarrow> join (lit '', '') (rev rest) @ lit '' or '' @ l)"

definition hex_digit :: "nat \<Rightarrow> uchar" where
  "hex_digit d = (if d < 10 then 48 + d else 87 + d)"

text \<open>\<^verbatim>\<open>{n:0wx}\<close>: lowercase hexadecimal, zero-padded to \<open>w\<close> digits.\<close>

fun hex :: "nat \<Rightarrow> str" where
  "hex n = (if n < 16 then [hex_digit n] else hex (n div 16) @ [hex_digit (n mod 16)])"

declare hex.simps [simp del]

definition hex_pad :: "nat \<Rightarrow> nat \<Rightarrow> str" where
  "hex_pad w n = replicate (w - length (hex n)) 48 @ hex n"

definition is_control :: "uchar \<Rightarrow> bool" where
  "is_control c \<longleftrightarrow> c < 0x20 \<or> 0x7F \<le> c \<and> c \<le> 0x9F"

definition unprintable_ranges :: "(nat \<times> nat) list" where
  "unprintable_ranges =
     [(0xAD, 0xAD), (0x600, 0x605), (0x61C, 0x61C), (0x6DD, 0x6DD), (0x70F, 0x70F), (0x890, 0x891),
      (0x8E2, 0x8E2), (0x180E, 0x180E), (0x200B, 0x200F), (0x202A, 0x202E), (0x2060, 0x2064),
      (0x2066, 0x206F), (0xE000, 0xF8FF), (0xFEFF, 0xFEFF), (0xFFF9, 0xFFFB), (0x110BD, 0x110BD),
      (0x110CD, 0x110CD), (0x13430, 0x1343F), (0x1BCA0, 0x1BCA3), (0x1D173, 0x1D17A),
      (0xE0001, 0xE0001), (0xE0020, 0xE007F), (0xF0000, 0xFFFFD), (0x100000, 0x10FFFD)]"

definition unprintable :: "uchar \<Rightarrow> bool" where
  "unprintable c \<longleftrightarrow>
     is_control c \<or> is_space c \<and> c \<noteq> 32 \<or> (\<exists>(lo, hi) \<in> set unprintable_ranges. lo \<le> c \<and> c \<le> hi)"

definition repr_quote :: "str \<Rightarrow> uchar" where
  "repr_quote s = (if 0x27 \<in> set s \<and> 0x22 \<notin> set s then 0x22 else 0x27)"

definition repr_char :: "uchar \<Rightarrow> uchar \<Rightarrow> str" where
  "repr_char q c =
     (if c = 0x5C then [0x5C, 0x5C]
      else if c = 10 then 0x5C # lit ''n''
      else if c = 13 then 0x5C # lit ''r''
      else if c = 9 then 0x5C # lit ''t''
      else if c = q then [0x5C, c]
      else if unprintable c then
        (if c < 0x100 then 0x5C # lit ''x'' @ hex_pad 2 c
         else if c < 0x10000 then 0x5C # lit ''u'' @ hex_pad 4 c
         else 0x5C # lit ''U'' @ hex_pad 8 c)
      else [c])"

definition repr :: "str \<Rightarrow> str" where
  "repr s = repr_quote s # concat (map (repr_char (repr_quote s)) s) @ [repr_quote s]"

section \<open>Percent-encoding\<close>

text \<open>UTF-8, the bytes \<^verbatim>\<open>utf8_percent_encode\<close> walks over.\<close>

definition utf8_char :: "uchar \<Rightarrow> nat list" where
  "utf8_char c =
     (if c < 0x80 then [c]
      else if c < 0x800 then [0xC0 + c div 64, 0x80 + c mod 64]
      else if c < 0x10000 then [0xE0 + c div 4096, 0x80 + c div 64 mod 64, 0x80 + c mod 64]
      else [0xF0 + c div 262144, 0x80 + c div 4096 mod 64, 0x80 + c div 64 mod 64, 0x80 + c mod 64])"

definition utf8 :: "str \<Rightarrow> nat list" where
  "utf8 s = concat (map utf8_char s)"

definition hex_upper :: "nat \<Rightarrow> uchar" where
  "hex_upper d = (if d < 10 then 48 + d else 55 + d)"

text \<open>A byte in the \<^verbatim>\<open>AsciiSet\<close> (or outside ASCII) is written \<^verbatim>\<open>%XX\<close>; every other one is kept.\<close>

definition encode_byte :: "(nat \<Rightarrow> bool) \<Rightarrow> nat \<Rightarrow> str" where
  "encode_byte safe b =
     (if b < 0x80 \<and> safe b then [b] else [37, hex_upper (b div 16), hex_upper (b mod 16)])"

definition percent_encode :: "(nat \<Rightarrow> bool) \<Rightarrow> str \<Rightarrow> str" where
  "percent_encode safe s = concat (map (encode_byte safe) (utf8 s))"

definition always_safe :: "nat \<Rightarrow> bool" where
  "always_safe b \<longleftrightarrow> is_alnum b \<or> b \<in> set (lit ''_.-~'')"

definition quote :: "str \<Rightarrow> str" where
  "quote s = percent_encode always_safe s"

definition quote_path :: "str \<Rightarrow> str" where
  "quote_path s = percent_encode (\<lambda>b. always_safe b \<or> b = ch (CHR ''/'')) s"

definition quote_plus :: "str \<Rightarrow> str" where
  "quote_plus s =
     map (\<lambda>c. if c = 32 then ch (CHR ''+'') else c)
       (percent_encode (\<lambda>b. always_safe b \<or> b = 32) s)"

section \<open>Facts\<close>

lemma text_split_words:
  assumes "w \<in> set (text_split s)"
  shows "w \<noteq> [] \<and> (\<forall>c\<in>set w. \<not> is_space c)"
  using assms split_pred_no_sep by (fastforce simp: text_split_def)

lemma strip_ends:
  assumes "strip s \<noteq> []"
  shows "\<not> is_space (hd (strip s)) \<and> \<not> is_space (last (strip s))"
proof -
  let ?d = "dropWhile is_space s"
  have ne: "trim_end is_space ?d \<noteq> []" using assms by (simp add: strip_def trim_both_def)
  then have "?d \<noteq> []" by (metis trim_end_def dropWhile.simps(1) rev.simps(1))
  moreover obtain r where "?d = trim_end is_space ?d @ r"
    using prefix_trim_end [of is_space ?d] by (auto simp: prefix_def)
  ultimately have "hd (trim_end is_space ?d) = hd ?d" using ne by (metis hd_append2)
  with trim_end_last [OF ne] \<open>?d \<noteq> []\<close> show ?thesis
    by (simp add: strip_def trim_both_def hd_dropWhile)
qed

lemma length_hex_bound: "0 < w \<Longrightarrow> n < 16 ^ w \<Longrightarrow> length (hex n) \<le> w"
proof (induction w arbitrary: n)
  case (Suc w)
  show ?case
  proof (cases "n < 16")
    case True
    then show ?thesis by (simp add: hex.simps [of n])
  next
    case False
    then have "0 < w" using Suc.prems by (cases w) auto
    moreover from Suc.prems have "n div 16 < 16 ^ w" by (simp add: div_less_iff_less_mult mult.commute)
    ultimately show ?thesis using Suc.IH [of "n div 16"] False by (simp add: hex.simps [of n])
  qed
qed simp

lemma length_hex_pad: "0 < w \<Longrightarrow> n < 16 ^ w \<Longrightarrow> length (hex_pad w n) = w"
  using length_hex_bound [of w n] by (simp add: hex_pad_def)

lemma starts_with_ignore_case_le:
  "starts_with_ignore_case u s w = Some n \<Longrightarrow> n = length w \<and> n \<le> length s"
  by (induction u s w arbitrary: n rule: starts_with_ignore_case.induct) (auto split: if_splits)

end
