(* ===== verification/PyJson.thy ===== *)
theory PyJson
  imports PyText "HOL-Library.List_Lexorder"
begin

text \<open>
  \<^verbatim>\<open>crates/fastbrowse-core/src/py/json.rs\<close>: JSON text as Python's writers spell it.  Prompts,
  cache keys and digests are built from this text, so what matters is that a string comes
  back exactly from its literal and that the cheap length used for budgets is the length of
  what is written.
\<close>

section \<open>Values\<close>

text \<open>
  A finite \<^verbatim>\<open>f64\<close> is given by what Rust's \<^verbatim>\<open>{:e}\<close> prints of it: its sign, the digits of the
  shortest mantissa that reads back as the number, and the decimal exponent.
  \<^verbatim>\<open>serde_json\<close> keeps an object's keys in the order they were inserted.
\<close>

datatype f64_form = NotANumber | Infinite (is_neg: bool) | Finite (is_neg: bool) (mantissa: str) (expo: int)

datatype json =
    JNull
  | JBool bool
  | JInt int
  | JFloat f64_form
  | JString str
  | JArray "json list"
  | JObject "(str \<times> json) list"

datatype floats = Floats_Repr | Floats_Pydantic

record json_style =
  item_separator :: str
  key_separator :: str
  ensure_ascii :: bool
  sort_keys :: bool
  style_floats :: floats
  style_indent :: "nat option"

definition DUMPS :: json_style where
  "DUMPS = \<lparr>item_separator = lit '', '', key_separator = lit '': '', ensure_ascii = True,
            sort_keys = False, style_floats = Floats_Repr, style_indent = None\<rparr>"

definition HTTPX :: json_style where
  "HTTPX = \<lparr>item_separator = lit '','', key_separator = lit '':'', ensure_ascii = False,
            sort_keys = False, style_floats = Floats_Repr, style_indent = None\<rparr>"

definition PYDANTIC :: json_style where
  "PYDANTIC = \<lparr>item_separator = lit '','', key_separator = lit '':'', ensure_ascii = False,
               sort_keys = False, style_floats = Floats_Pydantic, style_indent = None\<rparr>"

definition style_sorted :: "json_style \<Rightarrow> json_style" where
  "style_sorted st = st\<lparr>sort_keys := True\<rparr>"

definition style_unicode :: "json_style \<Rightarrow> json_style" where
  "style_unicode st = st\<lparr>ensure_ascii := False\<rparr>"

definition style_indented :: "nat \<Rightarrow> json_style \<Rightarrow> json_style" where
  "style_indented n st =
     st\<lparr>style_indent := Some n, item_separator := lit '','', key_separator := lit '': ''\<rparr>"

section \<open>Strings\<close>

text \<open>\<^verbatim>\<open>char::encode_utf16\<close>.\<close>

definition utf16 :: "uchar \<Rightarrow> nat list" where
  "utf16 c =
     (if c < 0x10000 then [c]
      else [0xD800 + (c - 0x10000) div 0x400, 0xDC00 + (c - 0x10000) mod 0x400])"

definition escape_unit :: "nat \<Rightarrow> str" where
  "escape_unit n = [92, 117] @ hex_pad 4 n"

definition escape_char :: "bool \<Rightarrow> uchar \<Rightarrow> str" where
  "escape_char ascii c =
     (if c = 34 then [92, 34]
      else if c = 92 then [92, 92]
      else if c = 10 then [92, 110]
      else if c = 13 then [92, 114]
      else if c = 9 then [92, 116]
      else if c = 8 then [92, 98]
      else if c = 12 then [92, 102]
      else if c < 0x20 \<or> ascii \<and> \<not> (32 \<le> c \<and> c \<le> 126) then concat (map escape_unit (utf16 c))
      else [c])"

definition write_string :: "str \<Rightarrow> bool \<Rightarrow> str" where
  "write_string s ascii = [34] @ concat (map (escape_char ascii) s) @ [34]"

definition dumped_char_len :: "uchar \<Rightarrow> nat" where
  "dumped_char_len c =
     (if c \<in> {34, 92, 10, 13, 9, 8, 12} then 2
      else if 32 \<le> c \<and> c \<le> 126 then 1
      else if length (utf16 c) = 2 then 12
      else 6)"

definition dumped_len :: "str \<Rightarrow> nat" where
  "dumped_len s = sum_list (map dumped_char_len s)"

section \<open>Numbers\<close>

definition float_positional :: "floats \<Rightarrow> int \<Rightarrow> bool" where
  "float_positional st e =
     (case st of Floats_Repr \<Rightarrow> -4 \<le> e \<and> e < 16 | Floats_Pydantic \<Rightarrow> -5 \<le> e \<and> e < 16)"

definition float_body :: "floats \<Rightarrow> str \<Rightarrow> int \<Rightarrow> str" where
  "float_body st digits e =
     (if float_positional st e then
        (let point = e + 1; count = int (length digits) in
         if point \<le> 0 then lit ''0.'' @ replicate (nat (- point)) 48 @ digits
         else if point \<ge> count then digits @ replicate (nat (point - count)) 48 @ lit ''.0''
         else take (nat point) digits @ lit ''.'' @ drop (nat point) digits)
      else
        (let man = (if length digits = 1 then digits else take 1 digits @ lit ''.'' @ drop 1 digits);
             magnitude = nat \<bar>e\<bar>;
             sign = (if e < 0 then lit ''-'' else lit ''+'')
         in case st of
              Floats_Repr \<Rightarrow> man @ lit ''e'' @ sign @ dec_pad 2 magnitude
            | Floats_Pydantic \<Rightarrow> man @ lit ''e'' @ sign @ dec magnitude))"

fun float_text :: "f64_form \<Rightarrow> floats \<Rightarrow> str" where
  "float_text NotANumber st = lit ''NaN''"
| "float_text (Infinite neg) st = (if neg then lit ''-Infinity'' else lit ''Infinity'')"
| "float_text (Finite neg digits e) st =
     (if neg then lit ''-'' else []) @ float_body st digits e"

fun float_str :: "f64_form \<Rightarrow> str" where
  "float_str NotANumber = lit ''nan''"
| "float_str (Infinite neg) = (if neg then lit ''-inf'' else lit ''inf'')"
| "float_str f = float_text f Floats_Repr"

section \<open>Values written\<close>

definition json_newline :: "json_style \<Rightarrow> nat \<Rightarrow> str" where
  "json_newline st depth =
     (case style_indent st of None \<Rightarrow> [] | Some spaces \<Rightarrow> [10] @ replicate (spaces * depth) 32)"

function write_value :: "json \<Rightarrow> json_style \<Rightarrow> nat \<Rightarrow> str" where
  "write_value JNull st depth = lit ''null''"
| "write_value (JBool b) st depth = (if b then lit ''true'' else lit ''false'')"
| "write_value (JInt i) st depth = dec_int i"
| "write_value (JFloat f) st depth = float_text f (style_floats st)"
| "write_value (JString s) st depth = write_string s (ensure_ascii st)"
| "write_value (JArray items) st depth =
     (if items = [] then lit ''[]''
      else lit ''['' @
        join (item_separator st)
          (map (\<lambda>item. json_newline st (depth + 1) @ write_value item st (depth + 1)) items)
        @ json_newline st depth @ lit '']'')"
| "write_value (JObject m) st depth =
     (if m = [] then lit ''{}''
      else (let entries = (if sort_keys st then sort_key fst m else m) in
        lit ''{'' @
        join (item_separator st)
          (map (\<lambda>kv. json_newline st (depth + 1) @ write_string (fst kv) (ensure_ascii st)
                 @ key_separator st @ write_value (snd kv) st (depth + 1)) entries)
        @ json_newline st depth @ lit ''}''))"
  by pat_completeness auto

lemma size_json_entry: "(k, v) \<in> set m \<Longrightarrow> size v < Suc (size_list (size_prod (\<lambda>_. 0) size) m)"
  by (induction m) auto

termination write_value
proof (relation "measure (\<lambda>(v, _, _). size v)", goal_cases)
  case (2 items st depth x)
  then show ?case by (auto simp: less_Suc_eq_le size_list_estimation')
next
  case (3 m st depth entries kv)
  then have "kv \<in> set m" by (simp split: if_splits)
  then show ?case using size_json_entry [of "fst kv" "snd kv" m] by simp
qed simp

definition json_write :: "json \<Rightarrow> json_style \<Rightarrow> str" where
  "json_write v st = write_value v st 0"

definition dumps :: "json \<Rightarrow> str" where
  "dumps v = json_write v DUMPS"

definition dump_json :: "json \<Rightarrow> str" where
  "dump_json v = json_write v PYDANTIC"


section \<open>Reading a literal back\<close>

text \<open>
  The specification of a string literal is its reader: \<open>read_char\<close> takes one character, an
  escape or a plain one, and \<open>read_string\<close> a whole literal, leaving what follows it.
\<close>

definition unhex_digit :: "uchar \<Rightarrow> nat" where
  "unhex_digit c = (if c < 58 then c - 48 else c - 87)"

fun read_unit :: "str \<Rightarrow> (nat \<times> str) option" where
  "read_unit (b # u # h3 # h2 # h1 # h0 # r) =
     (if b = 92 \<and> u = 117 then
        Some (((unhex_digit h3 * 16 + unhex_digit h2) * 16 + unhex_digit h1) * 16 + unhex_digit h0, r)
      else None)"
| "read_unit _ = None"

definition named_escape :: "uchar \<Rightarrow> uchar option" where
  "named_escape e =
     map_of [(34, 34), (92, 92), (110, 10), (114, 13), (116, 9), (98, 8), (102, 12)] e"

definition read_escape :: "str \<Rightarrow> (uchar \<times> str) option" where
  "read_escape s =
     (case read_unit s of
        None \<Rightarrow> None
      | Some (hi, r) \<Rightarrow>
          if 0xD800 \<le> hi \<and> hi < 0xDC00 then
            map_option (\<lambda>(lo, r'). (0x10000 + (hi - 0xD800) * 0x400 + (lo - 0xDC00), r')) (read_unit r)
          else Some (hi, r))"

definition read_char :: "str \<Rightarrow> (uchar \<times> str) option" where
  "read_char s =
     (case s of
        [] \<Rightarrow> None
      | c # r \<Rightarrow>
          if c \<noteq> 92 then Some (c, r)
          else (case r of
                  [] \<Rightarrow> None
                | e # r' \<Rightarrow>
                    (case named_escape e of Some c' \<Rightarrow> Some (c', r') | None \<Rightarrow> read_escape s)))"

text \<open>A scalar value: no surrogate, at most U+10FFFF.  Every Rust \<^verbatim>\<open>char\<close> is one.\<close>

definition scalar :: "uchar \<Rightarrow> bool" where
  "scalar c \<longleftrightarrow> c < 0xD800 \<or> 0xE000 \<le> c \<and> c < 0x110000"

lemma hex_digit_0 [simp]: "hex_digit 0 = 48"
  by (simp add: hex_digit_def)

lemma hex_pad_4:
  assumes "n < 65536"
  shows "hex_pad 4 n =
    [hex_digit (n div 4096), hex_digit (n div 256 mod 16), hex_digit (n div 16 mod 16), hex_digit (n mod 16)]"
proof -
  have d: "n div 16 div 16 = n div 256" "n div 16 div 16 div 16 = n div 4096"
    by (simp_all add: div_mult2_eq [symmetric])
  have "n div 4096 < 16" using assms by simp
  then show ?thesis
    by (auto simp: hex_pad_def hex.simps [of n] hex.simps [of "n div 16"] hex.simps [of "n div 256"]
        hex.simps [of "n div 4096"] d div_mult2_eq [symmetric] numeral_2_eq_2 numeral_3_eq_3)
qed

lemma unhex_hex_digit [simp]: "d < 16 \<Longrightarrow> unhex_digit (hex_digit d) = d"
  by (auto simp: unhex_digit_def hex_digit_def)

lemma read_unit_escape: "n < 65536 \<Longrightarrow> read_unit (escape_unit n @ r) = Some (n, r)"
proof -
  assume n: "n < 65536"
  have d: "n div 4096 = n div 256 div 16" "n div 256 = n div 16 div 16"
    by (simp_all add: div_mult2_eq [symmetric])
  have "(((n div 4096) * 16 + n div 256 mod 16) * 16 + n div 16 mod 16) * 16 + n mod 16 = n"
    by (simp only: d div_mult_mod_eq)
  with n show ?thesis by (simp add: escape_unit_def hex_pad_4)
qed

lemma read_escape_utf16:
  assumes "scalar c"
  shows "read_escape (concat (map escape_unit (utf16 c)) @ r) = Some (c, r)"
proof (cases "c < 0x10000")
  case True
  with assms show ?thesis by (auto simp: utf16_def read_escape_def read_unit_escape scalar_def)
next
  case False
  define d where "d = c - 0x10000"
  with False assms have d: "c = 0x10000 + d" "d < 0x100000" by (auto simp: scalar_def)
  have "d div 1024 < 1024" using d by simp
  moreover have "d div 1024 * 1024 + d mod 1024 = d" by simp
  ultimately show ?thesis
    by (simp add: utf16_def d(1) read_escape_def read_unit_escape)
qed

lemma read_char_escape:
  assumes "scalar c"
  shows "read_char (escape_char ascii c @ r) = Some (c, r)"
proof (cases "c \<in> {34, 92, 10, 13, 9, 8, 12}")
  case True
  then show ?thesis by (auto simp: read_char_def escape_char_def named_escape_def)
next
  case esc: False
  show ?thesis
  proof (cases "c < 0x20 \<or> ascii \<and> \<not> (32 \<le> c \<and> c \<le> 126)")
    case True
    let ?e = "concat (map escape_unit (utf16 c))"
    have e: "escape_char ascii c = ?e" using True esc by (auto simp: escape_char_def)
    obtain t where "?e = 92 # 117 # t"
      by (cases "c < 0x10000") (simp_all add: utf16_def escape_unit_def)
    moreover have "read_char (92 # 117 # t') = read_escape (92 # 117 # t')" for t'
      by (simp add: read_char_def named_escape_def)
    ultimately show ?thesis using read_escape_utf16 [OF assms, of r] by (simp add: e)
  qed (use esc in \<open>auto simp: read_char_def escape_char_def\<close>)
qed

lemma escape_char_hd: "\<exists>x t. escape_char ascii c = x # t \<and> x \<noteq> 34"
  by (auto simp: escape_char_def utf16_def escape_unit_def)

text \<open>The whole literal: characters up to the closing quote.  Each step consumes input.\<close>

lemma read_unit_shorter: "read_unit s = Some (n, r) \<Longrightarrow> length r < length s"
  by (induction s rule: read_unit.induct) (auto split: if_splits)

lemma read_char_shorter: "read_char s = Some (c, r) \<Longrightarrow> length r < length s"
  by (auto simp: read_char_def read_escape_def split: list.splits if_splits option.splits prod.splits
      dest!: read_unit_shorter)

function read_body :: "str \<Rightarrow> (str \<times> str) option" where
  "read_body s =
     (case s of
        [] \<Rightarrow> None
      | c # r \<Rightarrow>
          if c = 34 then Some ([], r)
          else (case read_char s of
                  None \<Rightarrow> None
                | Some (c', r') \<Rightarrow> map_option (\<lambda>(b, t). (c' # b, t)) (read_body r')))"
  by pat_completeness auto

termination read_body
  by (relation "measure length") (auto dest: read_char_shorter)

declare read_body.simps [simp del]

definition read_string :: "str \<Rightarrow> (str \<times> str) option" where
  "read_string s = (case s of [] \<Rightarrow> None | c # r \<Rightarrow> if c = 34 then read_body r else None)"

lemma read_body_escape:
  "list_all scalar s \<Longrightarrow> read_body (concat (map (escape_char ascii) s) @ 34 # r) = Some (s, r)"
proof (induction s)
  case Nil
  then show ?case by (simp add: read_body.simps)
next
  case (Cons c s)
  obtain x t where e: "escape_char ascii c = x # t" "x \<noteq> 34" using escape_char_hd by blast
  let ?rest = "concat (map (escape_char ascii) s) @ 34 # r"
  have "read_char (escape_char ascii c @ ?rest) = Some (c, ?rest)"
    using Cons.prems by (intro read_char_escape) simp
  with Cons e show ?case by (simp add: read_body.simps [of "x # t @ ?rest"])
qed

lemma read_write_string:
  "list_all scalar s \<Longrightarrow> read_string (write_string s ascii @ r) = Some (s, r)"
  by (simp add: read_string_def write_string_def read_body_escape)

lemma escape_char_dumped: "scalar c \<Longrightarrow> length (escape_char True c) = dumped_char_len c"
proof -
  assume c: "scalar c"
  have u: "length (escape_unit n) = 6" if "n < 65536" for n
    using that by (simp add: escape_unit_def length_hex_pad)
  have "(c - 0x10000) div 0x400 < 0x400" if "c \<ge> 0x10000" using that c by (auto simp: scalar_def)
  with u c show ?thesis
    by (auto simp: escape_char_def dumped_char_len_def utf16_def scalar_def)
qed

lemma hex_pad_4_ascii: "n < 65536 \<Longrightarrow> c \<in> set (hex_pad 4 n) \<Longrightarrow> 32 \<le> c \<and> c \<le> 126"
proof -
  assume n: "n < 65536" and c: "c \<in> set (hex_pad 4 n)"
  have "n div 4096 < 16" using n by simp
  with n c show ?thesis
    by (auto simp: hex_pad_4 hex_digit_def)
qed

lemma escape_char_ascii:
  assumes "scalar c" and "x \<in> set (escape_char True c)"
  shows "32 \<le> x \<and> x \<le> 126"
proof -
  have u: "32 \<le> y \<and> y \<le> 126" if "n < 65536" "y \<in> set (escape_unit n)" for n y
    using that hex_pad_4_ascii [of n y] by (auto simp: escape_unit_def)
  have "(c - 0x10000) div 0x400 < 0x400" if "c \<ge> 0x10000" using that assms(1) by (auto simp: scalar_def)
  then have "\<forall>n\<in>set (utf16 c). n < 65536" using assms(1) by (auto simp: utf16_def)
  with u assms show ?thesis by (auto simp: escape_char_def split: if_splits)
qed

section \<open>Properties\<close>



text \<open>
  \<^verbatim>\<open>dumped_len\<close>, the length the prompt budgets use, is the length of the literal
  \<^verbatim>\<open>json.dumps\<close> writes without its two quotes, and every character of that literal is
  printable ASCII.
\<close>
theorem dumped_len_exact:
  assumes "list_all scalar s"
  shows "length (write_string s True) = dumped_len s + 2 \<and>
    (\<forall>c\<in>set (write_string s True). 32 \<le> c \<and> c \<le> 126)"
proof -
  have "length (concat (map (escape_char True) s)) = dumped_len s"
    using assms by (induction s) (simp_all add: dumped_len_def escape_char_dumped)
  moreover have "\<forall>c\<in>set (concat (map (escape_char True) s)). 32 \<le> c \<and> c \<le> 126"
    using assms escape_char_ascii by (fastforce simp: list_all_iff)
  ultimately show ?thesis by (simp add: write_string_def)
qed

theorem dumped_len_exact_witness: "length (write_string [233, 10] True) = 10"
  using dumped_len_exact [of "[233, 10]"]
  by (simp add: scalar_def dumped_len_def dumped_char_len_def utf16_def)

section \<open>Values written without ambiguity\<close>

text \<open>
  Digest inputs and set keys are arrays of texts, flags and nulls.  On those values the writer is
  injective even when anything may follow, so equal keys come from equal values.
\<close>

fun plain_json :: "json \<Rightarrow> bool" where
  "plain_json JNull = True"
| "plain_json (JBool _) = True"
| "plain_json (JInt _) = False"
| "plain_json (JFloat _) = False"
| "plain_json (JString s) = list_all scalar s"
| "plain_json (JArray items) = list_all plain_json items"
| "plain_json (JObject _) = False"

definition compact_style :: "json_style \<Rightarrow> bool" where
  "compact_style st \<longleftrightarrow> style_indent st = None \<and> item_separator st \<noteq> [] \<and> hd (item_separator st) = ch (CHR '','')"

lemma compact_styles [simp]: "compact_style DUMPS" "compact_style HTTPX" "compact_style PYDANTIC"
  by (simp_all add: compact_style_def DUMPS_def HTTPX_def PYDANTIC_def lit_def)

lemma write_string_inj:
  assumes "write_string a ascii @ x = write_string b ascii @ y" and "list_all scalar a" and "list_all scalar b"
  shows "a = b \<and> x = y"
proof -
  have "Some (a, x) = read_string (write_string a ascii @ x)" using read_write_string [OF assms(2)] by simp
  also have "\<dots> = Some (b, y)" unfolding assms(1) by (rule read_write_string [OF assms(3)])
  finally show ?thesis by simp
qed

lemma json_newline_compact [simp]: "compact_style st \<Longrightarrow> json_newline st d = []"
  by (simp add: json_newline_def compact_style_def)

text \<open>Each kind of plain value begins with a character of its own.\<close>

fun json_lead :: "json \<Rightarrow> uchar" where
  "json_lead JNull = 110"
| "json_lead (JBool b) = (if b then 116 else 102)"
| "json_lead (JString s) = 34"
| "json_lead _ = 91"

lemma write_value_lead:
  "plain_json v \<Longrightarrow> \<exists>t. write_value v st d = json_lead v # t"
  by (cases v) (auto simp: lit_def write_string_def)

lemma json_lead_not_close: "plain_json v \<Longrightarrow> json_lead v \<noteq> 93 \<and> json_lead v \<noteq> 44"
  by (cases v) auto

lemma join_items_inj:
  fixes x y :: str
  assumes "join sep (map f (v # vs)) @ 93 # x = join sep (map f (w # ws)) @ 93 # y"
    and "sep = 44 # sep'"
    and "\<And>a b p q. a \<in> set (v # vs) \<Longrightarrow> b \<in> set (w # ws) \<Longrightarrow> f a @ p = f b @ q \<Longrightarrow> a = b \<and> p = q"
  shows "v # vs = w # ws \<and> x = y"
  using assms
proof (induction vs arbitrary: v w ws)
  case Nil
  note inj = Nil.prems(3)
  show ?case
  proof (cases ws)
    case (Cons w' ws')
    with Nil.prems(1) have "f v @ 93 # x = f w @ sep @ join sep (map f ws) @ 93 # y" by simp
    from inj [OF _ _ this] Nil.prems(2) show ?thesis by simp
  qed (use Nil.prems(1) inj [of v w "93 # x" "93 # y"] in simp)
next
  case (Cons v' vs)
  note inj = Cons.prems(3)
  have eq: "f v @ sep @ join sep (map f (v' # vs)) @ 93 # x = join sep (map f (w # ws)) @ 93 # y"
    using Cons.prems(1) by simp
  show ?case
  proof (cases ws)
    case Nil
    with eq have "f v @ sep @ join sep (map f (v' # vs)) @ 93 # x = f w @ 93 # y" by simp
    from inj [OF _ _ this] Cons.prems(2) show ?thesis by simp
  next
    case ws: (Cons w' ws')
    with eq have "f v @ sep @ join sep (map f (v' # vs)) @ 93 # x = f w @ sep @ join sep (map f ws) @ 93 # y"
      by simp
    from inj [OF _ _ this] have "v = w" "join sep (map f (v' # vs)) @ 93 # x = join sep (map f ws) @ 93 # y"
      by simp_all
    moreover have "v' # vs = w' # ws' \<and> x = y"
      using calculation(2) ws by (intro Cons.IH [OF _ Cons.prems(2) inj]) auto
    ultimately show ?thesis using ws by simp
  qed
qed

lemma write_value_depth: "compact_style st \<Longrightarrow> write_value v st d = write_value v st e"
proof (induction v st d arbitrary: e rule: write_value.induct)
  case (6 items st depth)
  have "map (\<lambda>i. write_value i st (depth + 1)) items = map (\<lambda>i. write_value i st (e + 1)) items"
  proof (rule map_cong [OF refl])
    fix i assume "i \<in> set items"
    moreover from this have "items \<noteq> []" by auto
    ultimately show "write_value i st (depth + 1) = write_value i st (e + 1)" using 6(1) 6(2) by blast
  qed
  then show ?case using 6(2) by (simp del: map_eq_conv)
next
  case (7 m st depth)
  let ?m = "if sort_keys st then sort_key fst m else m"
  show ?case
  proof (cases "m = []")
    case False
    have "map (\<lambda>kv. write_string (fst kv) (ensure_ascii st) @ key_separator st @ write_value (snd kv) st (depth + 1)) ?m
        = map (\<lambda>kv. write_string (fst kv) (ensure_ascii st) @ key_separator st @ write_value (snd kv) st (e + 1)) ?m"
      using 7(1) [OF False refl _ 7(2)] by (intro map_cong [OF refl]) metis
    then show ?thesis using 7(2) by (simp add: Let_def del: map_eq_conv)
  qed simp
qed simp_all

lemma write_array:
  assumes "compact_style st"
  shows "write_value (JArray items) st d
       = 91 # join (item_separator st) (map (\<lambda>v. write_value v st 0) items) @ [93]"
  using assms write_value_depth [OF assms, of _ "Suc d" 0] by (simp add: lit_def)

lemma plain_items_inj:
  assumes sep: "item_separator st = 44 # sep'" and "list_all plain_json vs" "list_all plain_json ws"
    and inj: "\<And>v w p q. v \<in> set vs \<Longrightarrow> w \<in> set ws \<Longrightarrow>
      write_value v st 0 @ p = write_value w st 0 @ q \<Longrightarrow> v = w \<and> p = q"
    and eq: "join (item_separator st) (map (\<lambda>v. write_value v st 0) vs) @ 93 # x
           = join (item_separator st) (map (\<lambda>v. write_value v st 0) ws) @ 93 # y"
  shows "vs = ws \<and> x = y"
proof -
  have lead: "\<exists>c t. join (item_separator st) (map (\<lambda>v. write_value v st 0) us) @ z = c # t \<and> c \<noteq> 93"
    if ne: "us \<noteq> []" and plain: "list_all plain_json us" for us z
  proof -
    obtain u us' where u: "us = u # us'" using ne by (cases us) auto
    then obtain t where "write_value u st 0 = json_lead u # t" using write_value_lead [of u st 0] plain u by auto
    moreover have "json_lead u \<noteq> 93" using json_lead_not_close [of u] plain u by simp
    ultimately show ?thesis using u by (cases us') auto
  qed
  consider "vs = []" "ws = []" | "vs = []" "ws \<noteq> []" | "vs \<noteq> []" "ws = []" | v vs' w ws' where "vs = v # vs'" "ws = w # ws'"
    by (metis list.exhaust)
  then show ?thesis
  proof cases
    case 2
    with lead [OF 2(2) assms(3), of "93 # y"] eq show ?thesis by auto
  next
    case 3
    with lead [OF 3(1) assms(2), of "93 # x"] eq show ?thesis by auto
  next
    case 4
    show ?thesis unfolding 4
      by (rule join_items_inj [OF eq [unfolded 4] sep], rule inj) (simp_all only: 4)
  qed (use eq in simp)
qed

lemma same_lead:
  assumes "plain_json v" and "plain_json w" and "write_value v st d @ x = write_value w st e @ y"
  shows "json_lead v = json_lead w"
proof -
  obtain a b where ab: "write_value v st d = json_lead v # a" "write_value w st e = json_lead w # b"
    using write_value_lead assms(1,2) by blast
  show ?thesis using assms(3) unfolding ab by simp
qed

lemma json_lead_array: "plain_json w \<Longrightarrow> json_lead w = 91 \<Longrightarrow> \<exists>ws. w = JArray ws"
  by (cases w) (auto split: if_splits)

lemma json_lead_scalar:
  assumes "plain_json w"
  shows "json_lead w = 34 \<Longrightarrow> \<exists>s. w = JString s" "json_lead w = 110 \<Longrightarrow> w = JNull"
    "json_lead w = 116 \<Longrightarrow> w = JBool True" "json_lead w = 102 \<Longrightarrow> w = JBool False"
  using assms by (cases w; auto split: if_splits)+

lemma write_value_inj:
  assumes "compact_style st" and "plain_json v" and "plain_json w"
    and "write_value v st d @ x = write_value w st e @ y"
  shows "v = w \<and> x = y"
  using assms(2-)
proof (induction v arbitrary: w x y d e)
  case (JString s)
  then obtain s' where "w = JString s'" using same_lead [OF JString.prems] json_lead_scalar(1) by auto
  with JString show ?case using write_string_inj [of s _ x s' y] by auto
next
  case (JArray vs)
  obtain ws where w: "w = JArray ws"
    using json_lead_array [OF JArray.prems(2)] same_lead [OF JArray.prems] by auto
  have sep: "item_separator st = 44 # tl (item_separator st)"
    using assms(1) by (cases "item_separator st") (simp_all add: compact_style_def)
  have "vs = ws \<and> x = y"
  proof (rule plain_items_inj [OF sep])
    fix v u p q assume "v \<in> set vs" "u \<in> set ws" "write_value v st 0 @ p = write_value u st 0 @ q"
    then show "v = u \<and> p = q" using JArray w by (metis list_all_iff plain_json.simps(6))
  qed (use JArray.prems w write_array [OF assms(1)] in \<open>simp_all del: write_value.simps(6)\<close>)
  then show ?case using w by simp
next
  case JNull
  then have "w = JNull" using same_lead [OF JNull.prems] json_lead_scalar(2) [OF JNull.prems(2)] by simp
  with JNull show ?case by simp
next
  case (JBool b)
  then have "w = JBool b"
    using same_lead [OF JBool.prems] json_lead_scalar(3,4) [OF JBool.prems(2)] by (cases b) simp_all
  with JBool show ?case by simp
qed auto

lemma write_value_ascii:
  "plain_json v \<Longrightarrow> c \<in> set (write_value v DUMPS d) \<Longrightarrow> 32 \<le> c \<and> c \<le> 126"
proof (induction v arbitrary: d)
  case (JString s)
  then have "\<forall>x\<in>set s. scalar x" by (simp add: list_all_iff)
  moreover from JString have "c = 34 \<or> (\<exists>x\<in>set s. c \<in> set (escape_char True x))"
    by (auto simp: write_string_def DUMPS_def)
  ultimately show ?case using escape_char_ascii by fastforce
next
  case (JArray items)
  have "c \<in> {91, 93} \<union> set (item_separator DUMPS) \<or> (\<exists>v\<in>set items. c \<in> set (write_value v DUMPS 0))"
    using JArray.prems by (fastforce simp: write_array simp del: write_value.simps(6) dest: set_join)
  with JArray.IH JArray.prems(1) show ?case by (auto simp: DUMPS_def lit_def list_all_iff)
qed (auto simp: lit_def split: if_splits)

lemma dumps_inj: "plain_json v \<Longrightarrow> plain_json w \<Longrightarrow> dumps v = dumps w \<Longrightarrow> v = w"
  using write_value_inj [of DUMPS v w 0 "[]" 0 "[]"] by (simp add: dumps_def json_write_def)

lemma dumps_scalar: "plain_json v \<Longrightarrow> list_all scalar (dumps v)"
  using write_value_ascii [of v _ 0] by (fastforce simp: list_all_iff scalar_def dumps_def json_write_def)

end
