(* ===== verification/DateTimes.thy ===== *)
theory DateTimes
  imports PyJson
begin

text \<open>
  \<^verbatim>\<open>crates/fastbrowse-core/src/py/datetime.rs\<close>: calendar arithmetic (Hinnant's algorithms), the
  written form and the reader.  \<^verbatim>\<open>i64\<close> arithmetic is on \<open>int\<close>; the one cast that can lose
  information, a year \<^verbatim>\<open>as i32\<close>, is written out as \<open>as_i32\<close>.  \<^verbatim>\<open>f64\<close> timestamps are reals.
\<close>

section \<open>The calendar\<close>

definition as_i32 :: "int \<Rightarrow> int" where
  "as_i32 x = (x + 2 ^ 31) mod 2 ^ 32 - 2 ^ 31"

definition days_from_civil :: "int \<Rightarrow> int \<Rightarrow> int \<Rightarrow> int" where
  "days_from_civil year month day =
     (let y = year - (if month \<le> 2 then 1 else 0);
          era = y div 400;
          yoe = y - era * 400;
          doy = (153 * (if month > 2 then month - 3 else month + 9) + 2) div 5 + day - 1;
          doe = yoe * 365 + yoe div 4 - yoe div 100 + doy
      in era * 146097 + doe - 719468)"

definition civil_from_days :: "int \<Rightarrow> int \<times> int \<times> int" where
  "civil_from_days days =
     (let z = days + 719468;
          era = z div 146097;
          doe = z - era * 146097;
          yoe = (doe - doe div 1460 + doe div 36524 - doe div 146096) div 365;
          doy = doe - (365 * yoe + yoe div 4 - yoe div 100);
          mp = (5 * doy + 2) div 153;
          day = doy - (153 * mp + 2) div 5 + 1;
          month = (if mp < 10 then mp + 3 else mp - 9)
      in (as_i32 (yoe + era * 400 + (if month \<le> 2 then 1 else 0)), month, day))"

definition leap_year :: "int \<Rightarrow> bool" where
  "leap_year year \<longleftrightarrow> year mod 4 = 0 \<and> year mod 100 \<noteq> 0 \<or> year mod 400 = 0"

definition days_in_month :: "int \<Rightarrow> int \<Rightarrow> int option" where
  "days_in_month year month =
     (if month \<in> {1, 3, 5, 7, 8, 10, 12} then Some 31
      else if month \<in> {4, 6, 9, 11} then Some 30
      else if month = 2 then (if leap_year year then Some 29 else Some 28)
      else None)"

record datetime =
  dt_year :: int
  dt_month :: int
  dt_day :: int
  dt_hour :: int
  dt_minute :: int
  dt_second :: int
  dt_microsecond :: int
  dt_offset :: "int option"

definition MONTHS :: "str list" where
  "MONTHS = map lit [''January'', ''February'', ''March'', ''April'', ''May'', ''June'', ''July'',
     ''August'', ''September'', ''October'', ''November'', ''December'']"

definition WEEKDAYS :: "str list" where
  "WEEKDAYS = map lit [''Monday'', ''Tuesday'', ''Wednesday'', ''Thursday'', ''Friday'', ''Saturday'', ''Sunday'']"

definition datetime_new :: "int \<Rightarrow> int \<Rightarrow> int \<Rightarrow> int \<Rightarrow> int \<Rightarrow> int \<Rightarrow> datetime" where
  "datetime_new year month day hour minute second =
     \<lparr>dt_year = year, dt_month = month, dt_day = day, dt_hour = hour, dt_minute = minute,
      dt_second = second, dt_microsecond = 0, dt_offset = None\<rparr>"

definition datetime_utc :: "datetime \<Rightarrow> datetime" where
  "datetime_utc dt = dt\<lparr>dt_offset := Some 0\<rparr>"

definition from_timestamp :: "int \<Rightarrow> int \<Rightarrow> datetime" where
  "from_timestamp seconds microsecond =
     (let (year, month, day) = civil_from_days (seconds div 86400);
          of_day = seconds mod 86400
      in \<lparr>dt_year = year, dt_month = month, dt_day = day, dt_hour = of_day div 3600,
          dt_minute = of_day div 60 mod 60, dt_second = of_day mod 60,
          dt_microsecond = microsecond, dt_offset = Some 0\<rparr>)"

definition datetime_timestamp :: "datetime \<Rightarrow> real option" where
  "datetime_timestamp dt =
     (case dt_offset dt of
        None \<Rightarrow> None
      | Some offset \<Rightarrow>
          let days = days_from_civil (dt_year dt) (dt_month dt) (dt_day dt);
              seconds = days * 86400 + dt_hour dt * 3600 + dt_minute dt * 60 + dt_second dt
          in Some (real_of_int (seconds - offset) + real_of_int (dt_microsecond dt) / 1000000))"

definition weekday :: "datetime \<Rightarrow> nat" where
  "weekday dt = nat ((days_from_civil (dt_year dt) (dt_month dt) (dt_day dt) + 3) mod 7)"

definition weekday_name :: "datetime \<Rightarrow> str" where
  "weekday_name dt = WEEKDAYS ! weekday dt"

text \<open>\<^verbatim>\<open>MONTHS[month - 1]\<close>, which panics (\<open>None\<close>) outside the table.\<close>

definition month_name :: "datetime \<Rightarrow> str option" where
  "month_name dt =
     (if 1 \<le> dt_month dt \<and> dt_month dt \<le> 12 then Some (MONTHS ! nat (dt_month dt - 1)) else None)"

definition add_days :: "datetime \<Rightarrow> int \<Rightarrow> datetime" where
  "add_days dt n =
     (let (year, month, day) =
            civil_from_days (days_from_civil (dt_year dt) (dt_month dt) (dt_day dt) + n)
      in dt\<lparr>dt_year := year, dt_month := month, dt_day := day\<rparr>)"

definition first_of_month :: "datetime \<Rightarrow> datetime" where
  "first_of_month dt = dt\<lparr>dt_day := 1\<rparr>"

section \<open>Writing\<close>

text \<open>\<^verbatim>\<open>{:0w}\<close> of a signed number counts the sign into the width.\<close>

definition int_pad :: "nat \<Rightarrow> int \<Rightarrow> str" where
  "int_pad w i = (if i < 0 then lit ''-'' @ dec_pad (w - 1) (nat (- i)) else dec_pad w (nat i))"

definition date_string :: "datetime \<Rightarrow> str" where
  "date_string dt =
     int_pad 4 (dt_year dt) @ lit ''-'' @ int_pad 2 (dt_month dt) @ lit ''-'' @ int_pad 2 (dt_day dt)"

definition offset_text :: "int option \<Rightarrow> str" where
  "offset_text off =
     (case off of
        None \<Rightarrow> []
      | Some offset \<Rightarrow>
          if offset = 0 then lit ''Z''
          else (let magnitude = \<bar>offset\<bar> in
            (if offset < 0 then lit ''-'' else lit ''+'')
            @ int_pad 2 (magnitude div 3600) @ lit '':'' @ int_pad 2 (magnitude div 60 mod 60)
            @ (if magnitude mod 60 \<noteq> 0 then lit '':'' @ int_pad 2 (magnitude mod 60) else [])))"

definition isoformat :: "datetime \<Rightarrow> str" where
  "isoformat dt =
     int_pad 4 (dt_year dt) @ lit ''-'' @ int_pad 2 (dt_month dt) @ lit ''-'' @ int_pad 2 (dt_day dt)
     @ lit ''T'' @ int_pad 2 (dt_hour dt) @ lit '':'' @ int_pad 2 (dt_minute dt) @ lit '':''
     @ int_pad 2 (dt_second dt)
     @ (if dt_microsecond dt \<noteq> 0 then lit ''.'' @ int_pad 6 (dt_microsecond dt) else [])
     @ offset_text (dt_offset dt)"

section \<open>Reading\<close>

definition invalid_datetime :: str where
  "invalid_datetime = lit ''Input should be a valid datetime''"

definition undec :: "str \<Rightarrow> int" where
  "undec s = foldl (\<lambda>n c. n * 10 + (int c - 48)) 0 s"

text \<open>\<^verbatim>\<open>str::parse::<f64>\<close> on digits and points: at least one digit, at most one point.\<close>

definition parse_decimal :: "str \<Rightarrow> real option" where
  "parse_decimal s =
     (let neg = prefix (lit ''-'') s;
          body = (if neg then drop 1 s else s);
          (whole, fraction) = (case split_once (ch (CHR ''.'')) body of None \<Rightarrow> (body, []) | Some p \<Rightarrow> p)
      in if (whole = [] \<and> fraction = []) \<or> \<not> list_all is_digit (whole @ fraction) then None
         else (let v = real_of_int (undec whole) + real_of_int (undec fraction) / 10 ^ length fraction
               in Some (if neg then - v else v)))"

definition from_unix :: "real \<Rightarrow> datetime" where
  "from_unix v =
     (let seconds = (if \<bar>v\<bar> > 20000000000 then v / 1000 else v);
          whole = \<lfloor>seconds\<rfloor>;
          micros = \<lfloor>(seconds - real_of_int whole) * 1000000 + 1 / 2\<rfloor>
      in from_timestamp whole (min micros 999999))"

definition digits_at :: "str \<Rightarrow> nat \<Rightarrow> nat \<Rightarrow> int option" where
  "digits_at s a b =
     (if b \<le> length s \<and> list_all is_digit (take (b - a) (drop a s))
      then Some (undec (take (b - a) (drop a s))) else None)"

definition char_at :: "str \<Rightarrow> nat \<Rightarrow> uchar option" where
  "char_at s i = (if i < length s then Some (s ! i) else None)"

definition parse_offset :: "str \<Rightarrow> str + int option" where
  "parse_offset rest =
     (if rest = [] then Inr None
      else if rest = lit ''Z'' \<or> rest = lit ''z'' then Inr (Some 0)
      else
        (let sign = (if hd rest = ch (CHR ''+'') then Some 1
                     else if hd rest = ch (CHR ''-'') then Some (- 1) else None);
             body = filter (\<lambda>c. c \<noteq> ch (CHR '':'')) (tl rest)
         in case sign of
              None \<Rightarrow> Inl invalid_datetime
            | Some sg \<Rightarrow>
                if length body \<noteq> 4 \<or> \<not> list_all is_digit body then Inl invalid_datetime
                else (let hours = undec (take 2 body); minutes = undec (drop 2 body) in
                      if hours > 23 \<or> minutes > 59 then Inl invalid_datetime
                      else Inr (Some (sg * (hours * 3600 + minutes * 60))))))"

text \<open>Seconds and their fraction from position 16, and where the offset starts.\<close>

definition parse_seconds :: "str \<Rightarrow> str + int \<times> int \<times> nat" where
  "parse_seconds s =
     (if char_at s 16 \<noteq> Some (ch (CHR '':'')) then Inr (0, 0, 16)
      else and_then (ok_or invalid_datetime (digits_at s 17 19)) (\<lambda>second.
        if char_at s 19 \<in> {Some (ch (CHR ''.'')), Some (ch (CHR '',''))} then
          (let run = takeWhile is_digit (drop 20 s); fraction = take 6 run in
           if run = [] then Inl invalid_datetime
           else Inr (second, undec fraction * 10 ^ (6 - length fraction), 20 + length run))
        else Inr (second, 0, 19)))"

definition parse_date :: "str \<Rightarrow> str + datetime" where
  "parse_date s =
     and_then (ok_or invalid_datetime (digits_at s 0 4)) (\<lambda>year.
       if char_at s 4 \<noteq> Some (ch (CHR ''-'')) \<or> char_at s 7 \<noteq> Some (ch (CHR ''-'')) then Inl invalid_datetime
       else and_then (ok_or invalid_datetime (digits_at s 5 7)) (\<lambda>month.
         and_then (ok_or invalid_datetime (digits_at s 8 10)) (\<lambda>day.
           and_then (ok_or invalid_datetime (days_in_month year month)) (\<lambda>days.
             if day = 0 \<or> day > days then Inl invalid_datetime
             else Inr (datetime_new year month day 0 0 0)))))"

definition parse_time :: "str \<Rightarrow> datetime \<Rightarrow> str + datetime" where
  "parse_time s dt =
     (if s ! 10 \<notin> {ch (CHR ''T''), ch (CHR ''t''), 32, ch (CHR ''_'')} then Inl invalid_datetime
      else and_then (ok_or invalid_datetime (digits_at s 11 13)) (\<lambda>hour.
        if char_at s 13 \<noteq> Some (ch (CHR '':'')) then Inl invalid_datetime
        else and_then (ok_or invalid_datetime (digits_at s 14 16)) (\<lambda>minute.
          and_then (parse_seconds s) (\<lambda>(second, micros, pos).
            if hour > 23 \<or> minute > 59 \<or> second > 59 then Inl invalid_datetime
            else and_then (parse_offset (drop pos s)) (\<lambda>offset.
              Inr (dt\<lparr>dt_hour := hour, dt_minute := minute, dt_second := second,
                      dt_microsecond := micros, dt_offset := offset\<rparr>))))))"

definition parse_datetime_str :: "str \<Rightarrow> str + datetime" where
  "parse_datetime_str s =
     (let unsigned = (if prefix (lit ''-'') s then drop 1 s else s);
          number = (if unsigned \<noteq> [] \<and> list_all (\<lambda>c. is_digit c \<or> c = ch (CHR ''.'')) unsigned
                    then parse_decimal s else None)
      in case number of
           Some v \<Rightarrow> Inr (from_unix v)
         | None \<Rightarrow> and_then (parse_date s) (\<lambda>dt. if length s = 10 then Inr dt else parse_time s dt))"

text \<open>\<^verbatim>\<open>DateTime::parse\<close>; \<open>as_f64\<close> reads a JSON number's value.\<close>

definition parse_datetime :: "(f64_form \<Rightarrow> real) \<Rightarrow> json \<Rightarrow> str + datetime" where
  "parse_datetime as_f64 v =
     (case v of
        JInt i \<Rightarrow> Inr (from_unix (real_of_int i))
      | JFloat f \<Rightarrow> Inr (from_unix (as_f64 f))
      | JString s \<Rightarrow> parse_datetime_str s
      | _ \<Rightarrow> Inl invalid_datetime)"

section \<open>Calendar facts\<close>

text \<open>
  A 400-year era has 146097 days; \<open>year_start y\<close> is the day of the era on which its year \<open>y\<close>
  (counted from March) starts, and \<open>year_of\<close> the closed form the code inverts it with.
\<close>

definition year_start :: "int \<Rightarrow> int" where
  "year_start y = 365 * y + y div 4 - y div 100 + y div 400"

definition shifted :: "int \<Rightarrow> int" where
  "shifted d = d - d div 1460 + d div 36524 - d div 146096"

definition doy_of :: "int \<Rightarrow> int \<Rightarrow> int" where
  "doy_of month day = (153 * (if month > 2 then month - 3 else month + 9) + 2) div 5 + day - 1"

definition month_of :: "int \<Rightarrow> int" where
  "month_of doy = (let mp = (5 * doy + 2) div 153 in if mp < 10 then mp + 3 else mp - 9)"

definition day_of :: "int \<Rightarrow> int" where
  "day_of doy = doy - (153 * ((5 * doy + 2) div 153) + 2) div 5 + 1"

lemma shifted_step: "0 \<le> d \<Longrightarrow> d < 146096 \<Longrightarrow> shifted d \<le> shifted (d + 1)"
proof (cases "d = 146095")
  case False
  assume "0 \<le> d" "d < 146096"
  with False have "d div 146096 = 0" "(d + 1) div 146096 = 0" by auto
  moreover have "(d + 1) div 1460 \<le> (d + 1460) div 1460" "d div 36524 \<le> (d + 1) div 36524"
    by (rule zdiv_mono1; simp)+
  moreover have "(d + 1460) div 1460 = d div 1460 + 1" by simp
  moreover have "d - a + c - e \<le> (d + 1) - b + c' - e" if "b \<le> a + 1" "c \<le> c'" for a b c c' e :: int
    using that by linarith
  ultimately show ?thesis unfolding shifted_def by metis
qed (simp add: shifted_def)

lemma shifted_mono:
  assumes "0 \<le> d" and "d \<le> e" and "e \<le> 146096"
  shows "shifted d \<le> shifted e"
  using assms(2,3)
proof (induction e rule: int_ge_induct)
  case (step e)
  with assms(1) shifted_step [of e] show ?case by simp
qed simp

lemma year_ends:
  "list_all (\<lambda>y. shifted (year_start y) div 365 = y \<and> shifted (year_start (y + 1) - 1) div 365 = y \<and>
     0 \<le> year_start y \<and> year_start (y + 1) \<le> 146097 \<and> year_start (y + 1) \<le> year_start y + 366) [0..399]"
  by code_simp

lemma year_of_day:
  assumes "0 \<le> y" "y < 400" "year_start y \<le> d" "d < year_start (y + 1)"
  shows "shifted d div 365 = y"
proof -
  have y: "shifted (year_start y) div 365 = y" "shifted (year_start (y + 1) - 1) div 365 = y"
    "0 \<le> year_start y" "year_start (y + 1) \<le> 146097"
    using year_ends assms(1,2) by (auto simp: list_all_iff)
  have "shifted (year_start y) \<le> shifted d" "shifted d \<le> shifted (year_start (y + 1) - 1)"
    using assms y by (auto intro!: shifted_mono)
  then have "y \<le> shifted d div 365" "shifted d div 365 \<le> y"
    using y(1,2) zdiv_mono1 [of _ _ 365] by (metis zero_less_numeral)+
  then show ?thesis by simp
qed

lemma year_exists:
  assumes "0 \<le> d" "d < 146097"
  shows "\<exists>y. 0 \<le> y \<and> y < 400 \<and> year_start y \<le> d \<and> d < year_start (y + 1)"
proof -
  have "\<exists>y. 0 \<le> y \<and> y < int n \<and> year_start y \<le> d \<and> d < year_start (y + 1)"
    if "d < year_start (int n)" for n
    using that
  proof (induction n)
    case 0
    with assms(1) show ?case by (simp add: year_start_def)
  next
    case (Suc n)
    show ?case
    proof (cases "d < year_start (int n)")
      case True
      with Suc.IH show ?thesis by fastforce
    next
      case False
      with Suc.prems show ?thesis by (intro exI [of _ "int n"]) (simp add: add.commute)
    qed
  qed
  from this [of 400] assms(2) show ?thesis by (simp add: year_start_def)
qed

lemma year_start_lt: "0 \<le> y \<Longrightarrow> y < 400 \<Longrightarrow> year_start y = 365 * y + y div 4 - y div 100"
  by (simp add: year_start_def)

lemma month_table:
  "list_all (\<lambda>doy. doy_of (month_of doy) (day_of doy) = doy \<and> 1 \<le> month_of doy \<and> month_of doy \<le> 12) [0..365]"
  by code_simp

lemma day_table:
  "list_all (\<lambda>month. list_all (\<lambda>day.
     day \<le> (case days_in_month 4 month of None \<Rightarrow> 0 | Some n \<Rightarrow> n) \<longrightarrow>
       0 \<le> doy_of month day \<and> doy_of month day \<le> (if month = 2 \<and> day = 29 then 365 else 364) \<and>
       month_of (doy_of month day) = month \<and> day_of (doy_of month day) = day) [1..31]) [1..12]"
  by code_simp

lemma year_length: "0 \<le> y \<Longrightarrow> y < 400 \<Longrightarrow> doy \<le> 365 \<Longrightarrow> doy \<noteq> 365 \<or> leap_year (y + 1) \<Longrightarrow>
   year_start y + doy < year_start (y + 1)"
proof -
  have "list_all (\<lambda>y. year_start y + (if leap_year (y + 1) then 365 else 364) < year_start (y + 1)) [0..399]"
    by code_simp
  moreover assume "0 \<le> y" "y < 400" "doy \<le> 365" "doy \<noteq> 365 \<or> leap_year (y + 1)"
  ultimately have "year_start y + (if leap_year (y + 1) then 365 else 364) < year_start (y + 1)"
    "doy \<le> (if leap_year (y + 1) then 365 else 364)"
    by (auto simp: list_all_iff)
  then show ?thesis by linarith
qed

lemma leap_year_era: "leap_year (y + 400 * k) = leap_year y"
proof -
  have "(y + 400 * k) mod 4 = y mod 4" "(y + 400 * k) mod 100 = y mod 100" "(y + 400 * k) mod 400 = y mod 400"
    by (simp_all add: mod_eq_dvd_iff)
  then show ?thesis by (simp add: leap_year_def)
qed

lemma as_i32_id: "- (2 ^ 31) \<le> x \<Longrightarrow> x < 2 ^ 31 \<Longrightarrow> as_i32 x = x"
  by (simp add: as_i32_def)

text \<open>Both algorithms in terms of the era, the year of the era and the day of the year.\<close>

lemma civil_from_days_split:
  assumes "0 \<le> y" "y < 400" "0 \<le> doy" "year_start y + doy < year_start (y + 1)"
  shows "civil_from_days (era * 146097 + (year_start y + doy) - 719468) =
    (as_i32 (y + era * 400 + (if month_of doy \<le> 2 then 1 else 0)), month_of doy, day_of doy)"
proof -
  let ?doe = "year_start y + doy"
  have "0 \<le> year_start y" "year_start (y + 1) \<le> 146097"
    using year_ends assms(1,2) by (auto simp: list_all_iff)
  with assms have doe: "0 \<le> ?doe" "?doe < 146097" by auto
  then have era: "(era * 146097 + ?doe) div 146097 = era" by simp
  have "shifted ?doe div 365 = y" using assms by (intro year_of_day) auto
  moreover have "?doe - (365 * y + y div 4 - y div 100) = doy"
    using year_start_lt [OF assms(1,2)] by simp
  moreover have z: "era * 146097 + ?doe - 719468 + 719468 = era * 146097 + ?doe"
    "era * 146097 + ?doe - era * 146097 = ?doe" by simp_all
  ultimately show ?thesis
    unfolding civil_from_days_def Let_def z era shifted_def [symmetric] month_of_def day_of_def
    by (simp only:)
qed

lemma days_from_civil_split:
  assumes "0 \<le> y" "y < 400"
  shows "days_from_civil (y + era * 400 + (if month \<le> 2 then 1 else 0)) month day =
    era * 146097 + (year_start y + doy_of month day) - 719468"
proof -
  have "(y + era * 400) div 400 = era" using assms by simp
  then show ?thesis
    using year_start_lt [OF assms] by (simp add: days_from_civil_def Let_def doy_of_def)
qed

definition valid_date :: "int \<Rightarrow> int \<Rightarrow> int \<Rightarrow> bool" where
  "valid_date year month day \<longleftrightarrow>
     (case days_in_month year month of None \<Rightarrow> False | Some n \<Rightarrow> 1 \<le> day \<and> day \<le> n)"

lemma civil_of_days:
  assumes "valid_date year month day" and "- (2 ^ 31) \<le> year" "year < 2 ^ 31"
  shows "civil_from_days (days_from_civil year month day) = (year, month, day)"
proof -
  let ?late = "if month \<le> 2 then 1 else (0 :: int)"
  define era where "era = (year - ?late) div 400"
  define y where "y = (year - ?late) mod 400"
  have y: "0 \<le> y" "y < 400" and year: "year = y + era * 400 + ?late"
    by (simp_all add: y_def era_def)
  have m: "month \<in> set [1..12]" "day \<in> set [1..31]"
    and n: "day \<le> (case days_in_month 4 month of None \<Rightarrow> 0 | Some n \<Rightarrow> n)"
    and leap: "month = 2 \<and> day = 29 \<Longrightarrow> leap_year year"
    using assms(1) by (auto simp: valid_date_def days_in_month_def leap_year_def split: if_splits)
  from day_table m have "day \<le> (case days_in_month 4 month of None \<Rightarrow> 0 | Some n \<Rightarrow> n) \<longrightarrow>
       0 \<le> doy_of month day \<and> doy_of month day \<le> (if month = 2 \<and> day = 29 then 365 else 364) \<and>
       month_of (doy_of month day) = month \<and> day_of (doy_of month day) = day"
    unfolding list_all_iff by blast
  with n have doy: "0 \<le> doy_of month day" "doy_of month day \<le> 365"
    "month_of (doy_of month day) = month" "day_of (doy_of month day) = day"
    "doy_of month day = 365 \<Longrightarrow> month = 2 \<and> day = 29"
    by (auto split: if_splits)
  have "leap_year (y + 1)" if "doy_of month day = 365"
  proof -
    from doy(5) [OF that] have "leap_year year" "year = y + 1 + 400 * era" using leap year by auto
    then show ?thesis using leap_year_era by simp
  qed
  then have "doy_of month day \<noteq> 365 \<or> leap_year (y + 1)" by blast
  then have "year_start y + doy_of month day < year_start (y + 1)" using y doy(2) by (intro year_length)
  from civil_from_days_split [OF y doy(1) this, of era] days_from_civil_split [OF y, of era month day]
  have "civil_from_days (days_from_civil year month day) = (as_i32 year, month, day)"
    unfolding year [symmetric] doy(3,4) by (simp only:)
  then show ?thesis by (simp only: as_i32_id [OF assms(2,3)])
qed

lemma days_of_civil:
  assumes "\<bar>days\<bar> \<le> 784000000000"
  shows "(case civil_from_days days of (year, month, day) \<Rightarrow> days_from_civil year month day) = days"
proof -
  define era where "era = (days + 719468) div 146097"
  define doe where "doe = (days + 719468) mod 146097"
  have doe: "0 \<le> doe" "doe < 146097" and days: "days = era * 146097 + doe - 719468"
    by (simp_all add: era_def doe_def)
  obtain y where y: "0 \<le> y" "y < 400" "year_start y \<le> doe" "doe < year_start (y + 1)"
    using year_exists [OF doe] by blast
  define doy where "doy = doe - year_start y"
  have "year_start (y + 1) \<le> year_start y + 366"
    using y(1,2) year_ends by (simp add: list_all_iff)
  then have doy: "0 \<le> doy" "doy \<le> 365" using y(3,4) by (auto simp: doy_def)
  then have m: "doy_of (month_of doy) (day_of doy) = doy" using month_table by (simp add: list_all_iff)
  have "\<bar>era\<bar> \<le> 5366310" using assms days doe by linarith
  then have "as_i32 (y + era * 400 + (if month_of doy \<le> 2 then 1 else 0)) =
      y + era * 400 + (if month_of doy \<le> 2 then 1 else 0)"
    using y(1,2) by (intro as_i32_id) auto
  then show ?thesis
    using civil_from_days_split [OF y(1,2) doy(1), of era] y(4) m
      days_from_civil_split [OF y(1,2), of era "month_of doy" "day_of doy"]
    by (simp add: days doy_def)
qed

text \<open>
  the two calendar conversions are inverse to each other: every valid Gregorian date of
  the \<^verbatim>\<open>i32\<close> years comes back from its day number, and every day number within two million
  years comes back from its date.
\<close>
theorem civil_date_roundtrip:
  "(valid_date year month day \<longrightarrow> - (2 ^ 31) \<le> year \<longrightarrow> year < 2 ^ 31 \<longrightarrow>
      civil_from_days (days_from_civil year month day) = (year, month, day)) \<and>
   (\<bar>days\<bar> \<le> 784000000000 \<longrightarrow>
      (case civil_from_days days of (y, m, d) \<Rightarrow> days_from_civil y m d) = days)"
  using civil_of_days [of year month day] days_of_civil [of days] by blast

theorem civil_date_roundtrip_witness:
  "civil_from_days (days_from_civil 2024 2 29) = (2024, 2, 29) \<and>
   (case civil_from_days 20000 of (y, m, d) \<Rightarrow> days_from_civil y m d) = 20000"
  using civil_date_roundtrip [of 2024 2 29 20000]
  by (simp add: valid_date_def days_in_month_def leap_year_def)

text \<open>
  moving a date by whole days moves its weekday by as many days modulo seven, and the
  weekday is always an index into the table of names.
\<close>
theorem weekday_add_days:
  assumes "\<bar>days_from_civil (dt_year dt) (dt_month dt) (dt_day dt) + n\<bar> \<le> 784000000000"
  shows "int (weekday (add_days dt n)) = (int (weekday dt) + n) mod 7 \<and> weekday dt < length WEEKDAYS"
proof -
  let ?d = "days_from_civil (dt_year dt) (dt_month dt) (dt_day dt)"
  have "weekday (add_days dt n) = nat ((?d + n + 3) mod 7)"
    using days_of_civil [OF assms] by (simp add: weekday_def add_days_def Let_def split: prod.splits)
  moreover have "(?d + n + 3) mod 7 = ((?d + 3) mod 7 + n) mod 7" by presburger
  moreover have "weekday dt < 7" by (simp add: weekday_def nat_less_iff)
  ultimately show ?thesis by (simp add: weekday_def WEEKDAYS_def)
qed

theorem weekday_add_days_witness:
  "int (weekday (add_days (datetime_new 2026 9 27 0 0 0) 32)) = 3"
  using weekday_add_days [of "datetime_new 2026 9 27 0 0 0" 32]
  by (simp add: datetime_new_def weekday_def days_from_civil_def Let_def)

end
