(* ===== verification/Models.thy ===== *)
theory Models
  imports DateTimes
begin

text \<open>
  \<^verbatim>\<open>crates/fastbrowse-core/src/models.rs\<close> and the \<^verbatim>\<open>str_enum!\<close> macro of \<^verbatim>\<open>macros.rs\<close>: what a
  caller passes in and what a run returns.  The closed sets of strings share the contract
  \<open>str_enum\<close>: the reader inverts the writer and refuses everything else.  \<^verbatim>\<open>f64\<close> amounts are
  reals; \<^verbatim>\<open>i64\<close> counters are integers.
\<close>

section \<open>String enumerations\<close>

text \<open>What \<^verbatim>\<open>str_enum_base!\<close> expands to: \<^verbatim>\<open>parse\<close> matches the literals in declaration order.\<close>

definition enum_parse :: "'a list \<Rightarrow> ('a \<Rightarrow> str) \<Rightarrow> str \<Rightarrow> 'a option" where
  "enum_parse alts as_str s = find (\<lambda>v. as_str v = s) alts"

definition enum_deserialize :: "'a list \<Rightarrow> ('a \<Rightarrow> str) \<Rightarrow> str \<Rightarrow> str + 'a" where
  "enum_deserialize alts as_str s =
     ok_or (lit ''Input should be '' @ or_list (map (\<lambda>v. [0x27] @ as_str v @ [0x27]) alts))
       (enum_parse alts as_str s)"

locale str_enum =
  fixes alts :: "'a list"
    and as_str :: "'a \<Rightarrow> str"
    and parse :: "str \<Rightarrow> 'a option"
  assumes complete: "v \<in> set alts"
    and distinct_values: "distinct (map as_str alts)"
    and parse_first: "parse s = find (\<lambda>v. as_str v = s) alts"
begin

lemma as_str_inject: "as_str v = as_str w \<longleftrightarrow> v = w"
  using distinct_values complete by (auto simp: distinct_map inj_on_def)

lemma parse_iff: "parse s = Some v \<longleftrightarrow> s = as_str v"
proof -
  have "find (\<lambda>w. as_str w = as_str v) alts = Some v"
    using find_key [OF distinct_values complete] .
  then show ?thesis by (auto simp: parse_first find_Some_iff)
qed

lemma parse_as_str: "parse (as_str v) = Some v"
  by (simp add: parse_iff)

lemma parse_None: "parse s = None \<longleftrightarrow> s \<notin> range as_str"
  using parse_iff [of s] by (cases "parse s") auto

lemma card_all: "card (UNIV :: 'a set) = length alts"
proof -
  have "distinct alts" using distinct_values by (simp add: distinct_map)
  then show ?thesis using complete by (metis UNIV_eq_I distinct_card)
qed

end

datatype status =
    Status_Complete | Status_Unverified | Status_NeedsConfirmation | Status_NeedsLogin | Status_Blocked
  | Status_NeedsInput | Status_Stuck | Status_BudgetExceeded | Status_ObservationLimit
  | Status_Unavailable | Status_Cancelled | Status_Error

fun status_str :: "status \<Rightarrow> str" where
  "status_str Status_Complete = lit ''complete''"
| "status_str Status_Unverified = lit ''unverified''"
| "status_str Status_NeedsConfirmation = lit ''needs_confirmation''"
| "status_str Status_NeedsLogin = lit ''needs_login''"
| "status_str Status_Blocked = lit ''blocked''"
| "status_str Status_NeedsInput = lit ''needs_input''"
| "status_str Status_Stuck = lit ''stuck''"
| "status_str Status_BudgetExceeded = lit ''budget_exceeded''"
| "status_str Status_ObservationLimit = lit ''observation_limit''"
| "status_str Status_Unavailable = lit ''unavailable''"
| "status_str Status_Cancelled = lit ''cancelled''"
| "status_str Status_Error = lit ''error''"

definition status_ALL :: "status list" where
  "status_ALL = [Status_Complete, Status_Unverified, Status_NeedsConfirmation, Status_NeedsLogin,
     Status_Blocked, Status_NeedsInput, Status_Stuck, Status_BudgetExceeded, Status_ObservationLimit,
     Status_Unavailable, Status_Cancelled, Status_Error]"

datatype operation =
    Op_Click | Op_Hover | Op_Drag | Op_Fill | Op_Blur | Op_Select | Op_Enter | Op_Escape | Op_Scroll
  | Op_ScrollUp | Op_Back | Op_SwitchTab | Op_Upload | Op_Dialog | Op_Wait | Op_Read | Op_Done | Op_Navigate

fun operation_str :: "operation \<Rightarrow> str" where
  "operation_str Op_Click = lit ''click''"
| "operation_str Op_Hover = lit ''hover''"
| "operation_str Op_Drag = lit ''drag''"
| "operation_str Op_Fill = lit ''fill''"
| "operation_str Op_Blur = lit ''blur''"
| "operation_str Op_Select = lit ''select''"
| "operation_str Op_Enter = lit ''enter''"
| "operation_str Op_Escape = lit ''escape''"
| "operation_str Op_Scroll = lit ''scroll''"
| "operation_str Op_ScrollUp = lit ''scroll_up''"
| "operation_str Op_Back = lit ''back''"
| "operation_str Op_SwitchTab = lit ''switch_tab''"
| "operation_str Op_Upload = lit ''upload''"
| "operation_str Op_Dialog = lit ''dialog''"
| "operation_str Op_Wait = lit ''wait''"
| "operation_str Op_Read = lit ''read''"
| "operation_str Op_Done = lit ''done''"
| "operation_str Op_Navigate = lit ''navigate''"

definition operation_ALL :: "operation list" where
  "operation_ALL = [Op_Click, Op_Hover, Op_Drag, Op_Fill, Op_Blur, Op_Select, Op_Enter, Op_Escape,
     Op_Scroll, Op_ScrollUp, Op_Back, Op_SwitchTab, Op_Upload, Op_Dialog, Op_Wait, Op_Read, Op_Done,
     Op_Navigate]"

definition SCROLLING :: "operation list" where
  "SCROLLING = [Op_Scroll, Op_ScrollUp]"

definition TARGETED :: "operation list" where
  "TARGETED = [Op_Click, Op_Hover, Op_Drag, Op_Fill, Op_Blur, Op_Select, Op_Enter, Op_Upload]"

definition is_targeted :: "operation \<Rightarrow> bool" where
  "is_targeted op \<longleftrightarrow> op \<in> set TARGETED"

datatype decider = Decider_Jev | Decider_Code | Decider_Recipe

fun decider_str :: "decider \<Rightarrow> str" where
  "decider_str Decider_Jev = lit ''jev''"
| "decider_str Decider_Code = lit ''code''"
| "decider_str Decider_Recipe = lit ''recipe''"

definition decider_ALL :: "decider list" where
  "decider_ALL = [Decider_Jev, Decider_Code, Decider_Recipe]"

datatype step_outcome = Outcome_Executed | Outcome_Covered | Outcome_Stale | Outcome_Failed

fun step_outcome_str :: "step_outcome \<Rightarrow> str" where
  "step_outcome_str Outcome_Executed = lit ''executed''"
| "step_outcome_str Outcome_Covered = lit ''covered''"
| "step_outcome_str Outcome_Stale = lit ''stale''"
| "step_outcome_str Outcome_Failed = lit ''failed''"

definition step_outcome_ALL :: "step_outcome list" where
  "step_outcome_ALL = [Outcome_Executed, Outcome_Covered, Outcome_Stale, Outcome_Failed]"

datatype cost_component = Cost_Jev | Cost_Llm | Cost_Browser | Cost_Proxy

fun cost_component_str :: "cost_component \<Rightarrow> str" where
  "cost_component_str Cost_Jev = lit ''jev''"
| "cost_component_str Cost_Llm = lit ''llm''"
| "cost_component_str Cost_Browser = lit ''browser''"
| "cost_component_str Cost_Proxy = lit ''proxy''"

definition cost_component_ALL :: "cost_component list" where
  "cost_component_ALL = [Cost_Jev, Cost_Llm, Cost_Browser, Cost_Proxy]"

datatype cost_basis = Basis_Metered | Basis_Estimated | Basis_Bounded | Basis_Unsettled | Basis_Unknown

fun cost_basis_str :: "cost_basis \<Rightarrow> str" where
  "cost_basis_str Basis_Metered = lit ''metered''"
| "cost_basis_str Basis_Estimated = lit ''estimated''"
| "cost_basis_str Basis_Bounded = lit ''bounded''"
| "cost_basis_str Basis_Unsettled = lit ''unsettled''"
| "cost_basis_str Basis_Unknown = lit ''unknown''"

definition cost_basis_ALL :: "cost_basis list" where
  "cost_basis_ALL = [Basis_Metered, Basis_Estimated, Basis_Bounded, Basis_Unsettled, Basis_Unknown]"

datatype llm_purpose = LLM_Start | LLM_Compose | LLM_ImageRead | LLM_Fill

fun llm_purpose_str :: "llm_purpose \<Rightarrow> str" where
  "llm_purpose_str LLM_Start = lit ''start''"
| "llm_purpose_str LLM_Compose = lit ''compose''"
| "llm_purpose_str LLM_ImageRead = lit ''image_read''"
| "llm_purpose_str LLM_Fill = lit ''fill''"

definition llm_purpose_ALL :: "llm_purpose list" where
  "llm_purpose_ALL = [LLM_Start, LLM_Compose, LLM_ImageRead, LLM_Fill]"

datatype jev_purpose = Jev_Action | Jev_Authorization | Jev_Relevance | Jev_Read | Jev_Verify | Jev_Locate

fun jev_purpose_str :: "jev_purpose \<Rightarrow> str" where
  "jev_purpose_str Jev_Action = lit ''action''"
| "jev_purpose_str Jev_Authorization = lit ''authorization''"
| "jev_purpose_str Jev_Relevance = lit ''relevance''"
| "jev_purpose_str Jev_Read = lit ''read''"
| "jev_purpose_str Jev_Verify = lit ''verify''"
| "jev_purpose_str Jev_Locate = lit ''locate''"

definition jev_purpose_ALL :: "jev_purpose list" where
  "jev_purpose_ALL = [Jev_Action, Jev_Authorization, Jev_Relevance, Jev_Read, Jev_Verify, Jev_Locate]"

datatype budget_resource = Budget_Steps | Budget_Dollars | Budget_Seconds | Budget_JevCalls | Budget_LlmCalls

fun budget_resource_str :: "budget_resource \<Rightarrow> str" where
  "budget_resource_str Budget_Steps = lit ''steps''"
| "budget_resource_str Budget_Dollars = lit ''dollars''"
| "budget_resource_str Budget_Seconds = lit ''seconds''"
| "budget_resource_str Budget_JevCalls = lit ''jev_calls''"
| "budget_resource_str Budget_LlmCalls = lit ''llm_calls''"

definition budget_resource_ALL :: "budget_resource list" where
  "budget_resource_ALL = [Budget_Steps, Budget_Dollars, Budget_Seconds, Budget_JevCalls, Budget_LlmCalls]"

datatype wall_kind = Wall_Password | Wall_OneTimeCode | Wall_SignIn | Wall_BotCheck

fun wall_kind_str :: "wall_kind \<Rightarrow> str" where
  "wall_kind_str Wall_Password = lit ''password''"
| "wall_kind_str Wall_OneTimeCode = lit ''one_time_code''"
| "wall_kind_str Wall_SignIn = lit ''sign_in''"
| "wall_kind_str Wall_BotCheck = lit ''bot_check''"

definition wall_kind_ALL :: "wall_kind list" where
  "wall_kind_ALL = [Wall_Password, Wall_OneTimeCode, Wall_SignIn, Wall_BotCheck]"

datatype fact_reader = Reader_JevChoice | Reader_LlmImage

fun fact_reader_str :: "fact_reader \<Rightarrow> str" where
  "fact_reader_str Reader_JevChoice = lit ''jev_choice''"
| "fact_reader_str Reader_LlmImage = lit ''llm_image''"

definition fact_reader_ALL :: "fact_reader list" where
  "fact_reader_ALL = [Reader_JevChoice, Reader_LlmImage]"

datatype artifact_kind = Artifact_Download | Artifact_Screenshot | Artifact_Capture

fun artifact_kind_str :: "artifact_kind \<Rightarrow> str" where
  "artifact_kind_str Artifact_Download = lit ''download''"
| "artifact_kind_str Artifact_Screenshot = lit ''screenshot''"
| "artifact_kind_str Artifact_Capture = lit ''capture''"

definition artifact_kind_ALL :: "artifact_kind list" where
  "artifact_kind_ALL = [Artifact_Download, Artifact_Screenshot, Artifact_Capture]"

datatype browser_via = Via_Cloud | Via_Launched | Via_Attached | Via_Extension

fun browser_via_str :: "browser_via \<Rightarrow> str" where
  "browser_via_str Via_Cloud = lit ''cloud''"
| "browser_via_str Via_Launched = lit ''launched''"
| "browser_via_str Via_Attached = lit ''attached''"
| "browser_via_str Via_Extension = lit ''extension''"

definition browser_via_ALL :: "browser_via list" where
  "browser_via_ALL = [Via_Cloud, Via_Launched, Via_Attached, Via_Extension]"

text \<open>Every enumeration of the source keeps the contract.\<close>

lemma str_enumI:
  "(\<And>v. v \<in> set alts) \<Longrightarrow> distinct (map as_str alts) \<Longrightarrow> str_enum alts as_str (enum_parse alts as_str)"
  by unfold_locales (simp_all add: enum_parse_def)

interpretation status_enum: str_enum status_ALL status_str "enum_parse status_ALL status_str"
  by (rule str_enumI, rule status.induct, simp_all add: status_ALL_def)

interpretation operation_enum: str_enum operation_ALL operation_str "enum_parse operation_ALL operation_str"
  by (rule str_enumI, rule operation.induct, simp_all add: operation_ALL_def)

interpretation decider_enum: str_enum decider_ALL decider_str "enum_parse decider_ALL decider_str"
  by (rule str_enumI, rule decider.induct, simp_all add: decider_ALL_def)

interpretation step_outcome_enum: str_enum step_outcome_ALL step_outcome_str "enum_parse step_outcome_ALL step_outcome_str"
  by (rule str_enumI, rule step_outcome.induct, simp_all add: step_outcome_ALL_def)

interpretation cost_component_enum: str_enum cost_component_ALL cost_component_str "enum_parse cost_component_ALL cost_component_str"
  by (rule str_enumI, rule cost_component.induct, simp_all add: cost_component_ALL_def)

interpretation cost_basis_enum: str_enum cost_basis_ALL cost_basis_str "enum_parse cost_basis_ALL cost_basis_str"
  by (rule str_enumI, rule cost_basis.induct, simp_all add: cost_basis_ALL_def)

interpretation llm_purpose_enum: str_enum llm_purpose_ALL llm_purpose_str "enum_parse llm_purpose_ALL llm_purpose_str"
  by (rule str_enumI, rule llm_purpose.induct, simp_all add: llm_purpose_ALL_def)

interpretation jev_purpose_enum: str_enum jev_purpose_ALL jev_purpose_str "enum_parse jev_purpose_ALL jev_purpose_str"
  by (rule str_enumI, rule jev_purpose.induct, simp_all add: jev_purpose_ALL_def)

interpretation budget_resource_enum: str_enum budget_resource_ALL budget_resource_str "enum_parse budget_resource_ALL budget_resource_str"
  by (rule str_enumI, rule budget_resource.induct, simp_all add: budget_resource_ALL_def)

interpretation wall_kind_enum: str_enum wall_kind_ALL wall_kind_str "enum_parse wall_kind_ALL wall_kind_str"
  by (rule str_enumI, rule wall_kind.induct, simp_all add: wall_kind_ALL_def)

interpretation fact_reader_enum: str_enum fact_reader_ALL fact_reader_str "enum_parse fact_reader_ALL fact_reader_str"
  by (rule str_enumI, rule fact_reader.induct, simp_all add: fact_reader_ALL_def)

interpretation artifact_kind_enum: str_enum artifact_kind_ALL artifact_kind_str "enum_parse artifact_kind_ALL artifact_kind_str"
  by (rule str_enumI, rule artifact_kind.induct, simp_all add: artifact_kind_ALL_def)

interpretation browser_via_enum: str_enum browser_via_ALL browser_via_str "enum_parse browser_via_ALL browser_via_str"
  by (rule str_enumI, rule browser_via.induct, simp_all add: browser_via_ALL_def)

text \<open>\<^verbatim>\<open>Ord\<close> compares the values as strings, so a \<^verbatim>\<open>BTreeSet\<close> of operations iterates by name.\<close>

instantiation operation :: linorder
begin

definition less_eq_operation :: "operation \<Rightarrow> operation \<Rightarrow> bool" where
  "x \<le> y \<longleftrightarrow> operation_str x \<le> operation_str y"

definition less_operation :: "operation \<Rightarrow> operation \<Rightarrow> bool" where
  "x < y \<longleftrightarrow> operation_str x < operation_str y"

instance
  by standard (auto simp: less_eq_operation_def less_operation_def operation_enum.as_str_inject
      order.strict_iff_order)

end

section \<open>Receipts\<close>

record cost_line =
  line_component :: cost_component
  line_basis :: cost_basis
  line_dollars :: "real option"
  line_purpose :: "llm_purpose option"
  line_decision_purpose :: "jev_purpose option"
  line_input_tokens :: int
  line_output_tokens :: int
  line_seconds :: "real option"
  line_physical_requests :: "int option"

definition cost_line_new :: "cost_component \<Rightarrow> cost_basis \<Rightarrow> real option \<Rightarrow> cost_line" where
  "cost_line_new component basis amount =
     \<lparr>line_component = component, line_basis = basis, line_dollars = amount, line_purpose = None,
      line_decision_purpose = None, line_input_tokens = 0, line_output_tokens = 0,
      line_seconds = None, line_physical_requests = None\<rparr>"

definition cost_line_label :: "cost_line \<Rightarrow> str" where
  "cost_line_label l =
     (case (line_component l, line_decision_purpose l) of
        (Cost_Jev, Some p) \<Rightarrow> cost_component_str (line_component l) @ lit '':'' @ jev_purpose_str p
      | _ \<Rightarrow> (case line_purpose l of
                None \<Rightarrow> cost_component_str (line_component l)
              | Some p \<Rightarrow> cost_component_str (line_component l) @ lit '':'' @ llm_purpose_str p))"

definition combined_basis :: "cost_line list \<Rightarrow> cost_basis" where
  "combined_basis ls =
     (let bases = map line_basis ls in
      case find (\<lambda>b. b \<in> set bases)
             [Basis_Unknown, Basis_Unsettled, Basis_Estimated, Basis_Bounded, Basis_Metered] of
        Some b \<Rightarrow> b
      | None \<Rightarrow> Basis_Metered)"

text \<open>
  \<^verbatim>\<open>crates/fastbrowse-core/src/py/mod.rs\<close>: Neumaier's compensated sum, its total
  and its compensation carried through the loop.
\<close>

fun sum_loop :: "real list \<Rightarrow> real \<Rightarrow> real \<Rightarrow> real \<times> real" where
  "sum_loop [] tot cmp = (tot, cmp)"
| "sum_loop (x # xs) tot cmp =
     (let t = tot + x in
      sum_loop xs t
        (if \<bar>tot\<bar> \<ge> \<bar>x\<bar> then cmp + ((tot - t) + x) else cmp + ((x - t) + tot)))"

definition py_sum :: "real list \<Rightarrow> real" where
  "py_sum xs =
     (let (tot, cmp) = sum_loop xs 0 0
      in if cmp \<noteq> 0 then tot + cmp else tot)"

record cost_breakdown =
  breakdown_lines :: "cost_line list"

definition known_dollars :: "cost_breakdown \<Rightarrow> real" where
  "known_dollars b = py_sum (List.map_filter line_dollars (breakdown_lines b))"

definition has_unknown :: "cost_breakdown \<Rightarrow> bool" where
  "has_unknown b \<longleftrightarrow>
     list_ex (\<lambda>l. line_basis l = Basis_Unknown \<or> line_basis l = Basis_Unsettled) (breakdown_lines b)"

record budget_stop =
  stop_resource :: budget_resource
  stop_limit :: real

record limits =
  max_steps :: "int option"
  max_jev_calls :: "int option"
  max_llm_calls :: "int option"
  max_dollars :: "real option"
  max_seconds :: "real option"

record authorization =
  irreversible_actions :: bool

section \<open>What a run reads and returns\<close>

record source_control =
  src_role :: str
  src_label :: str
  src_context :: "str option"

record evidence =
  ev_source_id :: str
  ev_url :: str
  ev_frame_id :: "str option"
  ev_captured_at :: datetime
  ev_capture_sha256 :: str
  ev_start :: int
  ev_end :: int
  ev_quote :: str
  ev_complete_source :: bool
  ev_control_context :: "source_control option"
  ev_rendered_text :: bool
  ev_heading_path :: "str list"
  ev_capture_artifact :: "str option"

record citation =
  cite_id :: int
  cite_text :: str
  cite_url :: str
  cite_quote :: str
  cite_deep_link :: str

record step_fact =
  sf_text :: str
  sf_quote :: "str option"
  sf_url :: "str option"
  sf_reader :: fact_reader
  sf_deep_link :: "str option"

record step_choice =
  choice_id :: str
  choice_role :: str
  choice_label :: str
  choice_context :: "str option"
  choice_operations :: "operation list"
  choice_chosen :: bool

record artifact =
  art_kind :: artifact_kind
  art_name :: str
  art_mime_type :: str
  art_size_bytes :: int
  art_sha256 :: str
  art_uri :: str

record attachment =
  att_name :: str
  att_mime_type :: str
  att_content :: "8 word list"

record step_result =
  step_index :: int
  step_operation :: operation
  step_decided_by :: decider
  step_outcome :: step_outcome
  step_url :: str
  step_target :: "str option"
  step_confidence :: "real option"
  step_note :: "str option"
  step_facts :: "step_fact list"
  step_page_changed :: "bool option"
  step_duration_ms :: int
  step_choices :: "step_choice list"

record wall =
  wall_of_kind :: wall_kind
  wall_origin :: str
  wall_fields :: "str list"
  wall_seen_at_ms :: int

record browser_used =
  used_via :: browser_via
  used_profile :: "str option"
  used_browser :: "str option"

record run_result =
  run_status :: status
  run_budget :: "budget_stop option"
  run_answer :: "str option"
  run_data :: json
  run_evidence :: "evidence list"
  run_steps :: "step_result list"
  run_cost :: cost_breakdown
  run_artifacts :: "artifact list"
  run_citations :: "citation list"
  run_error :: "str option"
  run_final_url :: "str option"
  run_recordings :: "str list"
  run_wall :: "wall option"
  run_browser :: "browser_used option"

definition succeeded :: "run_result \<Rightarrow> bool" where
  "succeeded r \<longleftrightarrow> run_status r = Status_Complete"

record browser_connection =
  cdp_url :: str
  live_url :: "str option"
  browser_id :: "str option"
  conn_remote :: bool
  conn_foreground :: bool
  conn_attach :: bool
  target_match :: "str option"
  allowed_origins :: "str list option"

definition browser_connection_new :: "str \<Rightarrow> bool \<Rightarrow> browser_connection" where
  "browser_connection_new url remote =
     \<lparr>cdp_url = url, live_url = None, browser_id = None, conn_remote = remote, conn_foreground = False,
      conn_attach = False, target_match = None, allowed_origins = None\<rparr>"

record secret_ref =
  secret_name :: str
  secret_origins :: "str list"

section \<open>Facts about receipts\<close>

lemma sum_loop_total: "fst (sum_loop xs t c) + snd (sum_loop xs t c) = t + c + sum_list xs"
  by (induction xs t c rule: sum_loop.induct) (auto simp: Let_def)

lemma py_sum_sum_list: "py_sum xs = sum_list xs"
  using sum_loop_total [of xs 0 0] by (auto simp: py_sum_def split: prod.splits)

lemma known_dollars_append:
  "known_dollars \<lparr>breakdown_lines = xs @ ys\<rparr> =
   known_dollars \<lparr>breakdown_lines = xs\<rparr> + known_dollars \<lparr>breakdown_lines = ys\<rparr>"
  by (simp add: known_dollars_def py_sum_sum_list map_filter_def)

lemma has_unknown_append [simp]:
  "has_unknown \<lparr>breakdown_lines = xs @ ys\<rparr> \<longleftrightarrow>
   has_unknown \<lparr>breakdown_lines = xs\<rparr> \<or> has_unknown \<lparr>breakdown_lines = ys\<rparr>"
  by (simp add: has_unknown_def)

text \<open>How strong a claim a basis makes; a sum claims no more than its weakest line.\<close>

fun basis_strength :: "cost_basis \<Rightarrow> nat" where
  "basis_strength Basis_Unknown = 0"
| "basis_strength Basis_Unsettled = 1"
| "basis_strength Basis_Estimated = 2"
| "basis_strength Basis_Bounded = 3"
| "basis_strength Basis_Metered = 4"

lemma combined_basis_weakest:
  assumes "l \<in> set ls"
  shows "basis_strength (combined_basis ls) \<le> basis_strength (line_basis l)"
proof -
  define bs where "bs = map line_basis ls"
  have "line_basis l \<in> set bs" using assms by (simp add: bs_def)
  then show ?thesis
    unfolding combined_basis_def Let_def bs_def [symmetric]
    by (cases "line_basis l" rule: cost_basis.exhaust) auto
qed

end
