(* ===== verification/Ledger.thy ===== *)
theory Ledger
  imports Models
begin

text \<open>
  \<^verbatim>\<open>crates/fastbrowse-core/src/telemetry.rs\<close>, the spend and call accounting of a run.  The
  ledger's mutex makes each operation atomic, so clients calling from several threads are
  interleavings of the steps of \<open>ledger_step\<close>.  \<^verbatim>\<open>Instant\<close>s are seconds of a monotonic clock;
  \<open>sci\<close> is the decimal form \<^verbatim>\<open>{:e}\<close> gives a number, used only in messages.
\<close>

section \<open>Amounts in messages\<close>

text \<open>\<^verbatim>\<open>str::parse::<i32>\<close> of the exponent.\<close>

definition parse_int :: "str \<Rightarrow> int option" where
  "parse_int s =
     (let neg = prefix (lit ''-'') s;
          body = (if neg \<or> prefix (lit ''+'') s then drop 1 s else s)
      in if body = [] \<or> \<not> list_all is_digit body then None
         else Some (if neg then - undec body else undec body))"

definition dollars :: "f64_form \<Rightarrow> str" where
  "dollars amount =
     (let written = float_str amount in
      case split_once (ch (CHR ''e'')) written of
        None \<Rightarrow> written
      | Some (man, exponent) \<Rightarrow>
          let e = (case parse_int exponent of Some i \<Rightarrow> i | None \<Rightarrow> 0);
              negative = prefix (lit ''-'') man;
              (whole, fraction) =
                (case split_once (ch (CHR ''.'')) (dropWhile (\<lambda>c. c = ch (CHR ''-'')) man) of
                   Some p \<Rightarrow> p | None \<Rightarrow> (man, []));
              digits = whole @ fraction;
              point = int (length whole) + e;
              body = (if point \<le> 0 then lit ''0.'' @ replicate (nat (- point)) 48 @ digits
                      else if point \<ge> int (length digits)
                        then digits @ replicate (nat (point - int (length digits))) 48
                      else take (nat point) digits @ lit ''.'' @ drop (nat point) digits)
          in (if negative then lit ''-'' else []) @ body)"

section \<open>The ledger\<close>

record budget_exceeded =
  be_reason :: str
  be_budget :: budget_stop

definition budget_exceeded_new :: "str \<Rightarrow> budget_resource \<Rightarrow> real \<Rightarrow> budget_exceeded" where
  "budget_exceeded_new r resource limit =
     \<lparr>be_reason = r, be_budget = \<lparr>stop_resource = resource, stop_limit = limit\<rparr>\<rparr>"

definition budget_status :: "budget_exceeded \<Rightarrow> status" where
  "budget_status b = Status_BudgetExceeded"

record ledger_state =
  lines :: "cost_line list"
  steps :: int
  jev_calls :: int
  llm_calls :: int

record ledger =
  ledger_limits :: limits
  started :: "real option"
  counters :: ledger_state

definition ledger_new :: "limits \<Rightarrow> real \<Rightarrow> ledger" where
  "ledger_new lms now =
     \<lparr>ledger_limits = lms, started = Some now,
      counters = \<lparr>lines = [], steps = 0, jev_calls = 0, llm_calls = 0\<rparr>\<rparr>"

text \<open>The view final reporting uses: the same clock and counters, no step limit.\<close>

definition for_answer :: "ledger \<Rightarrow> ledger" where
  "for_answer L = L\<lparr>ledger_limits := (ledger_limits L)\<lparr>max_steps := None\<rparr>\<rparr>"

definition set_started :: "real option \<Rightarrow> ledger \<Rightarrow> ledger" where
  "set_started t L = L\<lparr>started := t\<rparr>"

definition breakdown :: "ledger_state \<Rightarrow> cost_breakdown" where
  "breakdown s = \<lparr>breakdown_lines = lines s\<rparr>"

definition spend_reached :: "(real \<Rightarrow> f64_form) \<Rightarrow> real \<Rightarrow> budget_exceeded" where
  "spend_reached sci m =
     budget_exceeded_new (lit ''spend limit $'' @ dollars (sci m) @ lit '' reached'') Budget_Dollars m"

definition check_spend :: "(real \<Rightarrow> f64_form) \<Rightarrow> limits \<Rightarrow> ledger_state \<Rightarrow> real \<Rightarrow> budget_exceeded + unit" where
  "check_spend sci lms s extra =
     (case max_dollars lms of
        None \<Rightarrow> Inr ()
      | Some m \<Rightarrow>
          let spent = breakdown s in
          if has_unknown spent then
            Inl (budget_exceeded_new
                   (lit ''spend limit $'' @ dollars (sci m) @
                    lit '' cannot be enforced: a call reported no cost'') Budget_Dollars m)
          else if known_dollars spent + extra > m then Inl (spend_reached sci m)
          else Inr ())"

definition over_time :: "real \<Rightarrow> real option \<Rightarrow> real \<Rightarrow> bool" where
  "over_time now st m \<longleftrightarrow> (case st of None \<Rightarrow> False | Some t \<Rightarrow> max 0 (now - t) > m)"

definition check_state :: "(real \<Rightarrow> f64_form) \<Rightarrow> real \<Rightarrow> ledger \<Rightarrow> ledger_state \<Rightarrow> real \<Rightarrow> budget_exceeded + unit" where
  "check_state sci now L s extra =
     (let lms = ledger_limits L in
      and_then
        (case max_seconds lms of
           None \<Rightarrow> Inr ()
         | Some m \<Rightarrow>
             if over_time now (started L) m
             then Inl (budget_exceeded_new
                         (lit ''time limit '' @ float_str (sci m) @ lit ''s reached'') Budget_Seconds m)
             else Inr ())
        (\<lambda>_. and_then (check_spend sci lms s extra) (\<lambda>_.
           case max_steps lms of
             None \<Rightarrow> Inr ()
           | Some m \<Rightarrow>
               if steps s \<ge> m
               then Inl (budget_exceeded_new
                           (lit ''step limit '' @ dec_int m @ lit '' reached'') Budget_Steps (real_of_int m))
               else Inr ())))"

definition ledger_check :: "(real \<Rightarrow> f64_form) \<Rightarrow> real \<Rightarrow> ledger \<Rightarrow> real \<Rightarrow> budget_exceeded + unit" where
  "ledger_check sci now L extra = check_state sci now L (counters L) extra"

definition ledger_check_spend :: "(real \<Rightarrow> f64_form) \<Rightarrow> ledger \<Rightarrow> real \<Rightarrow> budget_exceeded + unit" where
  "ledger_check_spend sci L extra = check_spend sci (ledger_limits L) (counters L) extra"

definition capped :: "ledger \<Rightarrow> bool" where
  "capped L \<longleftrightarrow>
     max_dollars (ledger_limits L) \<noteq> None \<or> max_llm_calls (ledger_limits L) \<noteq> None
     \<or> max_jev_calls (ledger_limits L) \<noteq> None"

definition check_calls :: "limits \<Rightarrow> ledger_state \<Rightarrow> cost_component \<Rightarrow> int \<Rightarrow> budget_exceeded + unit" where
  "check_calls lms s component calls =
     (case component of
        Cost_Jev \<Rightarrow>
          (case max_jev_calls lms of
             None \<Rightarrow> Inr ()
           | Some m \<Rightarrow>
               if jev_calls s + calls > m
               then Inl (budget_exceeded_new (lit ''Jev call limit '' @ dec_int m @ lit '' reached'')
                           Budget_JevCalls (real_of_int m))
               else Inr ())
      | Cost_Llm \<Rightarrow>
          (case max_llm_calls lms of
             None \<Rightarrow> Inr ()
           | Some m \<Rightarrow>
               if llm_calls s + calls > m
               then Inl (budget_exceeded_new (lit ''LLM call limit '' @ dec_int m @ lit '' reached'')
                           Budget_LlmCalls (real_of_int m))
               else Inr ())
      | _ \<Rightarrow> Inr ())"

definition count_calls :: "cost_component \<Rightarrow> int \<Rightarrow> ledger_state \<Rightarrow> ledger_state" where
  "count_calls component calls s =
     (case component of
        Cost_Jev \<Rightarrow> s\<lparr>jev_calls := jev_calls s + calls\<rparr>
      | Cost_Llm \<Rightarrow> s\<lparr>llm_calls := llm_calls s + calls\<rparr>
      | _ \<Rightarrow> s)"

definition reserve ::
  "(real \<Rightarrow> f64_form) \<Rightarrow> real \<Rightarrow> ledger \<Rightarrow> cost_component \<Rightarrow> real \<Rightarrow> int \<Rightarrow> (budget_exceeded + unit) \<times> ledger" where
  "reserve sci now L component estimate calls =
     (let s = counters L;
          checked =
            and_then (check_calls (ledger_limits L) s component calls) (\<lambda>_.
            and_then (check_state sci now L s estimate) (\<lambda>_.
              case max_dollars (ledger_limits L) of
                None \<Rightarrow> Inr ()
              | Some m \<Rightarrow> if known_dollars (breakdown s) \<ge> m then Inl (spend_reached sci m) else Inr ()))
      in case checked of
           Inl e \<Rightarrow> (Inl e, L)
         | Inr _ \<Rightarrow> (Inr (), L\<lparr>counters := count_calls component calls s\<rparr>))"

definition ledger_record ::
  "(real \<Rightarrow> f64_form) \<Rightarrow> real \<Rightarrow> ledger \<Rightarrow> cost_line list \<Rightarrow> (budget_exceeded + unit) \<times> ledger" where
  "ledger_record sci now L ls =
     (let s = (counters L)\<lparr>lines := lines (counters L) @ ls\<rparr>;
          L' = L\<lparr>counters := s\<rparr>
      in (check_state sci now L' s 0, L'))"

text \<open>
  \<^verbatim>\<open>Agent::record_step\<close> (\<^verbatim>\<open>crates/fastbrowse-agent/src/agent/driving.rs\<close>) counts a step unless
  it was stale: a stale step dispatched nothing.
\<close>

definition count_step :: "step_outcome \<Rightarrow> ledger \<Rightarrow> ledger" where
  "count_step outcome L =
     (if outcome \<noteq> Outcome_Stale
      then L\<lparr>counters := (counters L)\<lparr>steps := steps (counters L) + 1\<rparr>\<rparr>
      else L)"

section \<open>Runs of the ledger\<close>

text \<open>
  Everything a run can do to its ledger, through its own view or the answer's.  Callers
  reserve one call or as many as there are batches, and receipts carry no negative charge
  (\<^verbatim>\<open>lax::opt_float_ge0\<close> refuses one).
\<close>

definition charges_ok :: "cost_line list \<Rightarrow> bool" where
  "charges_ok ls \<longleftrightarrow> list_all (\<lambda>l. case line_dollars l of None \<Rightarrow> True | Some d \<Rightarrow> 0 \<le> d) ls"

inductive ledger_step :: "(real \<Rightarrow> f64_form) \<Rightarrow> ledger \<Rightarrow> ledger \<Rightarrow> bool" for sci where
  step_reserve: "0 \<le> calls \<Longrightarrow> ledger_step sci L (snd (reserve sci now L component estimate calls))"
| step_reserve_answer: "0 \<le> calls \<Longrightarrow>
    ledger_step sci L
      (L\<lparr>counters := counters (snd (reserve sci now (for_answer L) component estimate calls))\<rparr>)"
| step_record: "charges_ok ls \<Longrightarrow> ledger_step sci L (snd (ledger_record sci now L ls))"
| step_count: "ledger_step sci L (count_step outcome L)"
| step_clock: "ledger_step sci L (set_started t L)"

abbreviation ledger_run :: "(real \<Rightarrow> f64_form) \<Rightarrow> ledger \<Rightarrow> ledger \<Rightarrow> bool" where
  "ledger_run sci \<equiv> (ledger_step sci)\<^sup>*\<^sup>*"

definition within_cap :: "int \<Rightarrow> int option \<Rightarrow> bool" where
  "within_cap n cap \<longleftrightarrow> (case cap of None \<Rightarrow> True | Some m \<Rightarrow> n \<le> m)"

definition calls_within :: "limits \<Rightarrow> ledger \<Rightarrow> bool" where
  "calls_within lms L \<longleftrightarrow>
     ledger_limits L = lms \<and> within_cap (jev_calls (counters L)) (max_jev_calls lms)
     \<and> within_cap (llm_calls (counters L)) (max_llm_calls lms)"

definition spent_at_least :: "limits \<Rightarrow> real \<Rightarrow> ledger \<Rightarrow> bool" where
  "spent_at_least lms x L \<longleftrightarrow> ledger_limits L = lms \<and> known_dollars (breakdown (counters L)) \<ge> x"

definition unpriced :: "limits \<Rightarrow> ledger \<Rightarrow> bool" where
  "unpriced lms L \<longleftrightarrow> ledger_limits L = lms \<and> has_unknown (breakdown (counters L))"

subsection \<open>What one operation does\<close>

lemma reserve_ok:
  assumes "reserve sci now L component estimate calls = (Inr (), L')"
  shows "check_calls (ledger_limits L) (counters L) component calls = Inr ()"
    and "check_state sci now L (counters L) estimate = Inr ()"
    and "max_dollars (ledger_limits L) = Some m \<Longrightarrow> known_dollars (breakdown (counters L)) < m"
    and "L' = L\<lparr>counters := count_calls component calls (counters L)\<rparr>"
  using assms
  by (auto simp: reserve_def Let_def and_then_Inr split: sum.splits if_splits)

lemma reserve_cases:
  "snd (reserve sci now L component estimate calls) = L \<and> isl (fst (reserve sci now L component estimate calls))
   \<or> reserve sci now L component estimate calls =
       (Inr (), L\<lparr>counters := count_calls component calls (counters L)\<rparr>)"
  by (auto simp: reserve_def Let_def split: sum.splits)

lemma check_calls_within:
  assumes "check_calls lms s component calls = Inr ()"
    and "within_cap (jev_calls s) (max_jev_calls lms)" "within_cap (llm_calls s) (max_llm_calls lms)"
  shows "within_cap (jev_calls (count_calls component calls s)) (max_jev_calls lms)"
    and "within_cap (llm_calls (count_calls component calls s)) (max_llm_calls lms)"
  using assms
  by (auto simp: check_calls_def count_calls_def within_cap_def split: cost_component.splits option.splits if_splits)

lemma count_calls_lines [simp]: "lines (count_calls component calls s) = lines s"
  by (simp add: count_calls_def split: cost_component.splits)

lemma breakdown_count_calls [simp]: "breakdown (count_calls component calls s) = breakdown s"
  by (simp add: breakdown_def)

lemma for_answer_simps [simp]:
  "counters (for_answer L) = counters L"
  "ledger_limits (for_answer L) = (ledger_limits L)\<lparr>max_steps := None\<rparr>"
  by (simp_all add: for_answer_def)

lemma check_calls_answer [simp]: "check_calls (lms\<lparr>max_steps := None\<rparr>) s component calls = check_calls lms s component calls"
  by (simp add: check_calls_def split: cost_component.splits)

lemma charges_nonneg: "charges_ok ls \<Longrightarrow> 0 \<le> known_dollars \<lparr>breakdown_lines = ls\<rparr>"
  unfolding known_dollars_def py_sum_sum_list charges_ok_def
  by (induction ls) (auto simp: map_filter_simps split: option.splits)

subsection \<open>What every run keeps\<close>

lemma step_counters:
  "ledger_step sci L L' \<Longrightarrow>
   ledger_limits L' = ledger_limits L \<and>
   (\<exists>ls. charges_ok ls \<and> lines (counters L') = lines (counters L) @ ls)"
proof (induction rule: ledger_step.induct)
  case (step_reserve calls L now component estimate)
  then show ?case
    using reserve_cases [of sci now L component estimate calls]
    by (intro conjI exI [of _ "[]"]) (auto simp: charges_ok_def)
next
  case (step_reserve_answer calls L now component estimate)
  then show ?case
    using reserve_cases [of sci now "for_answer L" component estimate calls]
    by (intro conjI exI [of _ "[]"]) (auto simp: charges_ok_def)
qed (auto simp: ledger_record_def Let_def count_step_def set_started_def charges_ok_def)

lemma calls_within_step: "ledger_step sci L L' \<Longrightarrow> calls_within lms L \<Longrightarrow> calls_within lms L'"
proof (induction rule: ledger_step.induct)
  case (step_reserve calls L now component estimate)
  then show ?case
    using reserve_cases [of sci now L component estimate calls]
      reserve_ok(1) [of sci now L component estimate calls] check_calls_within
    by (auto simp: calls_within_def)
next
  case (step_reserve_answer calls L now component estimate)
  then show ?case
    using reserve_cases [of sci now "for_answer L" component estimate calls]
      reserve_ok(1) [of sci now "for_answer L" component estimate calls] check_calls_within
    by (auto simp: calls_within_def)
qed (auto simp: calls_within_def ledger_record_def Let_def count_step_def set_started_def)

interpretation ledger_calls: stable_predicate "ledger_step sci" "calls_within lms" for sci lms
  by unfold_locales (rule calls_within_step)

lemma breakdown_append: "lines s' = lines s @ ls \<Longrightarrow> breakdown s' = \<lparr>breakdown_lines = breakdown_lines (breakdown s) @ ls\<rparr>"
  by (simp add: breakdown_def)

interpretation ledger_spend: stable_predicate "ledger_step sci" "spent_at_least lms x" for sci lms x
proof
  fix L L'
  assume step: "ledger_step sci L L'" and "spent_at_least lms x L"
  moreover obtain ls where ls: "charges_ok ls" "lines (counters L') = lines (counters L) @ ls"
    using step_counters [OF step] by blast
  ultimately show "spent_at_least lms x L'"
    using charges_nonneg [OF ls(1)] step_counters [OF step]
    by (simp add: spent_at_least_def breakdown_append known_dollars_append) (simp add: breakdown_def)
qed

interpretation ledger_unpriced: stable_predicate "ledger_step sci" "unpriced lms" for sci lms
proof
  fix L L'
  assume step: "ledger_step sci L L'" and "unpriced lms L"
  then show "unpriced lms L'"
    using step_counters [OF step] by (auto simp: unpriced_def breakdown_append) (auto simp: breakdown_def)
qed

section \<open>Properties\<close>

text \<open>
  C21: the call limits hold in every state a run can reach, however its reservations,
  receipts, steps and clock changes interleave and through whichever view they are made:
  the number of Jev and LLM calls counted never exceeds the cap set for it.
\<close>
theorem ledger_call_limits:
  assumes "ledger_run sci (ledger_new lms t0) L"
    and "within_cap 0 (max_jev_calls lms)" "within_cap 0 (max_llm_calls lms)"
  shows "within_cap (jev_calls (counters L)) (max_jev_calls lms) \<and> within_cap (llm_calls (counters L)) (max_llm_calls lms)"
  using ledger_calls.stable_star [OF assms(1), of lms] assms(2,3)
  by (simp add: calls_within_def ledger_new_def)

theorem ledger_call_limits_witness:
  "\<exists>lms L. ledger_run (\<lambda>_. NotANumber) (ledger_new lms 0) L \<and> jev_calls (counters L) = 2 \<and>
     within_cap (jev_calls (counters L)) (max_jev_calls lms)"
proof -
  let ?sci = "\<lambda>_ :: real. NotANumber"
  define lms where "lms = \<lparr>max_steps = None, max_jev_calls = Some 2, max_llm_calls = None,
    max_dollars = None, max_seconds = None\<rparr>"
  define L where "L = snd (reserve ?sci 1 (ledger_new lms 0) Cost_Jev 0 2)"
  have run: "ledger_run ?sci (ledger_new lms 0) L"
    unfolding L_def by (intro r_into_rtranclp step_reserve) simp
  have "jev_calls (counters L) = 2"
    by (simp add: L_def lms_def reserve_def ledger_new_def check_calls_def check_state_def check_spend_def
        count_calls_def)
  with run ledger_call_limits [OF run] show ?thesis
    by (intro exI [of _ lms] exI [of _ L]) (simp add: lms_def within_cap_def)
qed

lemma check_state_ok:
  assumes "check_state sci now L s extra = Inr ()"
  shows "max_dollars (ledger_limits L) = Some m \<Longrightarrow>
      \<not> has_unknown (breakdown s) \<and> known_dollars (breakdown s) + extra \<le> m"
    and "max_steps (ledger_limits L) = Some k \<Longrightarrow> steps s < k"
    and "max_seconds (ledger_limits L) = Some t \<Longrightarrow> \<not> over_time now (started L) t"
  using assms
  by (auto simp: check_state_def check_spend_def Let_def and_then_Inr split: if_splits)

text \<open>
  a reservation is all or nothing.  Refused, it leaves the ledger exactly as it was;
  granted, the calls asked for are counted, they fit under the call cap, every receipt so
  far is priced and the estimate fits under what is left of the dollar cap, the clock is
  within the time limit and a step is left.
\<close>
theorem reserve_atomic:
  "case reserve sci now L component estimate calls of
     (Inl e, L') \<Rightarrow> L' = L
   | (Inr _, L') \<Rightarrow>
       L' = L\<lparr>counters := count_calls component calls (counters L)\<rparr> \<and>
       check_calls (ledger_limits L) (counters L) component calls = Inr () \<and>
       (case max_dollars (ledger_limits L) of None \<Rightarrow> True
        | Some m \<Rightarrow> \<not> has_unknown (breakdown (counters L)) \<and> known_dollars (breakdown (counters L)) < m \<and>
            known_dollars (breakdown (counters L)) + estimate \<le> m) \<and>
       (case max_seconds (ledger_limits L) of None \<Rightarrow> True | Some t \<Rightarrow> \<not> over_time now (started L) t) \<and>
       (case max_steps (ledger_limits L) of None \<Rightarrow> True | Some k \<Rightarrow> steps (counters L) < k)"
proof (cases "reserve sci now L component estimate calls")
  case (Pair r L')
  show ?thesis
  proof (cases r)
    case (Inl e)
    then show ?thesis using Pair reserve_cases [of sci now L component estimate calls] by auto
  next
    case (Inr u)
    then have ok: "reserve sci now L component estimate calls = (Inr (), L')" using Pair by simp
    note c = check_state_ok [OF reserve_ok(2) [OF ok]]
    show ?thesis
      using reserve_ok [OF ok] c by (simp add: ok split: option.splits)
  qed
qed

lemma reserve_refused:
  assumes "max_dollars (ledger_limits L) = Some m"
    and "has_unknown (breakdown (counters L)) \<or> m \<le> known_dollars (breakdown (counters L))"
  shows "isl (fst (reserve sci now L component estimate calls))"
proof (rule ccontr)
  assume "\<not> ?thesis"
  then obtain L' where ok: "reserve sci now L component estimate calls = (Inr (), L')"
    using reserve_cases [of sci now L component estimate calls] by auto
  from reserve_ok(3) [OF ok assms(1)] check_state_ok(1) [OF reserve_ok(2) [OF ok] assms(1)] assms(2)
  show False by auto
qed

text \<open>
  C22: a dollar cap, once reached, ends the spending.  When the receipts of some state amount
  to the cap, or one of them is unpriced, then in that state and in every state reached from
  it no further call is granted, by the run or by the view that writes its answer.
\<close>
theorem spend_cap_is_final:
  assumes "ledger_run sci L L'"
    and "max_dollars (ledger_limits L) = Some m"
    and "has_unknown (breakdown (counters L)) \<or> m \<le> known_dollars (breakdown (counters L))"
  shows "isl (fst (reserve sci now L' component estimate calls)) \<and>
    isl (fst (reserve sci now (for_answer L') component estimate calls))"
proof -
  have "unpriced (ledger_limits L) L' \<or> spent_at_least (ledger_limits L) m L'"
    using assms(3) ledger_unpriced.stable_star [OF assms(1)] ledger_spend.stable_star [OF assms(1)]
    by (auto simp: unpriced_def spent_at_least_def)
  then have "max_dollars (ledger_limits L') = Some m"
    "has_unknown (breakdown (counters L')) \<or> m \<le> known_dollars (breakdown (counters L'))"
    using assms(2) by (auto simp: unpriced_def spent_at_least_def)
  then show ?thesis by (simp add: reserve_refused)
qed

theorem spend_cap_is_final_witness:
  "\<exists>L. max_dollars (ledger_limits L) = Some 1 \<and> lines (counters L) \<noteq> [] \<and>
     isl (fst (reserve (\<lambda>_. NotANumber) 5 L Cost_Llm 0 1))"
proof -
  define L where "L = snd (ledger_record (\<lambda>_. NotANumber) 1
    (ledger_new \<lparr>max_steps = None, max_jev_calls = None, max_llm_calls = None, max_dollars = Some 1,
       max_seconds = None\<rparr> 0) [cost_line_new Cost_Llm Basis_Unknown None])"
  have m: "max_dollars (ledger_limits L) = Some 1" "lines (counters L) \<noteq> []"
    "has_unknown (breakdown (counters L))"
    by (simp_all add: L_def ledger_record_def ledger_new_def Let_def breakdown_def has_unknown_def
        cost_line_new_def)
  with spend_cap_is_final [OF rtranclp.rtrancl_refl m(1), where now = 5 and component = Cost_Llm
      and estimate = 0 and calls = 1]
  show ?thesis by blast
qed

text \<open>
  a receipt is kept before it is judged: recording appends the lines whether or not they
  break a limit, touches no other counter, and the total a cap is compared with is the exact
  sum of the amounts known, in whatever order they came (the compensated sum loses nothing
  in exact arithmetic); the basis of that total is the weakest among the lines.
\<close>
theorem record_keeps_receipts:
  "counters (snd (ledger_record sci now L ls)) =
     (counters L)\<lparr>lines := lines (counters L) @ ls\<rparr> \<and>
   known_dollars (breakdown (counters (snd (ledger_record sci now L ls)))) =
     sum_list (List.map_filter line_dollars (lines (counters L))) + sum_list (List.map_filter line_dollars ls) \<and>
   (\<forall>l. l \<in> set ls \<longrightarrow> basis_strength (combined_basis ls) \<le> basis_strength (line_basis l))"
  using combined_basis_weakest [of _ ls]
  by (simp add: ledger_record_def Let_def breakdown_def known_dollars_def py_sum_sum_list map_filter_def)

theorem record_keeps_receipts_witness:
  "basis_strength (combined_basis [cost_line_new Cost_Jev Basis_Metered (Some 1),
     cost_line_new Cost_Llm Basis_Bounded (Some 2)]) \<le> 3"
  using record_keeps_receipts [of "\<lambda>_. NotANumber" 0
      "ledger_new \<lparr>max_steps = None, max_jev_calls = None, max_llm_calls = None, max_dollars = None,
         max_seconds = None\<rparr> 0"
      "[cost_line_new Cost_Jev Basis_Metered (Some 1), cost_line_new Cost_Llm Basis_Bounded (Some 2)]"]
  by (simp add: cost_line_new_def)

text \<open>
  A negative amount whose mantissa is a single digit keeps its sign twice: the digits are taken from the
  mantissa with the sign when it has no point.
\<close>

lemma dollars_negative_digit: "dollars (Finite True (lit ''1'') (- 5)) = lit ''-0.000-1''"
  by code_simp

end
