(* ===== verification/Lax.thy ===== *)
theory Lax
  imports Ledger
begin

text \<open>
  \<^verbatim>\<open>crates/fastbrowse-core/src/py/lax.rs\<close>: how integers, floats and booleans are read from JSON another
  program wrote.  An \<^verbatim>\<open>f64\<close> is NaN, an infinity or a real number; reading decimal text gives the number it
  writes, without the rounding to the nearest double.
\<close>

section \<open>Numbers\<close>

datatype f64 = F_NaN | F_Inf bool | F_Num real

definition scale10 :: "int \<Rightarrow> real" where
  "scale10 e = (if 0 \<le> e then 10 ^ nat e else 1 / 10 ^ nat (- e))"

text \<open>The number \<^verbatim>\<open>{:e}\<close> printed.\<close>

fun f64_of :: "f64_form \<Rightarrow> f64" where
  "f64_of NotANumber = F_NaN"
| "f64_of (Infinite neg) = F_Inf neg"
| "f64_of (Finite neg digits e) =
     (let v = real_of_int (undec digits) * scale10 (e - (int (length digits) - 1))
      in F_Num (if neg then - v else v))"

text \<open>\<^verbatim>\<open>Number::as_i64\<close> and \<^verbatim>\<open>Number::as_f64\<close>.\<close>

definition in_i64 :: "int \<Rightarrow> bool" where
  "in_i64 i \<longleftrightarrow> - (2 ^ 63) \<le> i \<and> i < 2 ^ 63"

fun as_i64 :: "json \<Rightarrow> int option" where
  "as_i64 (JInt i) = (if in_i64 i then Some i else None)"
| "as_i64 _ = None"

fun as_f64 :: "json \<Rightarrow> f64 option" where
  "as_f64 (JInt i) = Some (F_Num (real_of_int i))"
| "as_f64 (JFloat f) = Some (f64_of f)"
| "as_f64 _ = None"

text \<open>\<^verbatim>\<open>str::parse::<i64>\<close>: a sign, then digits that stay in range.\<close>

definition parse_i64 :: "str \<Rightarrow> int option" where
  "parse_i64 s = Option.bind (parse_int s) (\<lambda>i. if in_i64 i then Some i else None)"

text \<open>\<^verbatim>\<open>str::parse::<f64>\<close>.\<close>

definition unsigned_part :: "str \<Rightarrow> str" where
  "unsigned_part s = (if prefix (lit ''-'') s \<or> prefix (lit ''+'') s then drop 1 s else s)"

definition parse_mantissa :: "str \<Rightarrow> (int \<times> int) option" where
  "parse_mantissa s =
     (let (whole, fraction) = (case split_once (ch (CHR ''.'')) s of None \<Rightarrow> (s, []) | Some p \<Rightarrow> p)
      in if whole @ fraction = [] \<or> \<not> list_all is_digit (whole @ fraction) then None
         else Some (undec (whole @ fraction), - int (length fraction)))"

definition parse_number :: "str \<Rightarrow> real option" where
  "parse_number s =
     (case find_pos (\<lambda>c. c = ch (CHR ''e'') \<or> c = ch (CHR ''E'')) s of
        None \<Rightarrow> map_option (\<lambda>(m, e). real_of_int m * scale10 e) (parse_mantissa s)
      | Some i \<Rightarrow>
          (case (parse_mantissa (take i s), parse_int (drop (Suc i) s)) of
             (Some (m, e), Some x) \<Rightarrow> Some (real_of_int m * scale10 (e + x))
           | _ \<Rightarrow> None))"

definition parse_f64 :: "str \<Rightarrow> f64 option" where
  "parse_f64 s =
     (let neg = prefix (lit ''-'') s; body = unsigned_part s; word = ascii_lower body
      in if word = lit ''inf'' \<or> word = lit ''infinity'' then Some (F_Inf neg)
         else if word = lit ''nan'' then Some F_NaN
         else map_option (\<lambda>v. F_Num (if neg then - v else v)) (parse_number body))"

section \<open>Integers\<close>

definition underscored :: "str \<Rightarrow> bool" where
  "underscored s \<longleftrightarrow> prefix (lit ''_'') s \<or> suffix (lit ''_'') s \<or> find_str (lit ''__'') s \<noteq> None"

definition int_from_str :: "str \<Rightarrow> int option" where
  "int_from_str s =
     (let trimmed = trim_both is_whitespace s;
          whole = (case split_once (ch (CHR ''.'')) trimmed of
                     Some (w, fraction) \<Rightarrow> if list_all (\<lambda>b. b = 48) fraction then Some w else None
                   | None \<Rightarrow> Some trimmed)
      in case whole of
           None \<Rightarrow> None
         | Some w \<Rightarrow>
             let digits = unsigned_part w
             in if digits = [] \<or> underscored digits \<or> \<not> list_all (\<lambda>b. is_digit b \<or> b = ch (CHR ''_'')) digits then None
                else parse_i64 (filter (\<lambda>b. b \<noteq> ch (CHR ''_'')) w))"

definition whole_f64 :: "f64 \<Rightarrow> str + int" where
  "whole_f64 x =
     (case x of
        F_Num v \<Rightarrow>
          if v = real_of_int \<lfloor>v\<rfloor> \<and> \<bar>v\<bar> < 9200000000000000000 then Inr \<lfloor>v\<rfloor>
          else Inl (lit ''Input should be a valid integer, got a number with a fractional part'')
      | _ \<Rightarrow> Inl (lit ''Input should be a valid integer, got a number with a fractional part''))"

fun int_of :: "json \<Rightarrow> str + int" where
  "int_of (JBool b) = Inr (if b then 1 else 0)"
| "int_of (JInt i) = (if in_i64 i then Inr i else whole_f64 (F_Num (real_of_int i)))"
| "int_of (JFloat f) = whole_f64 (f64_of f)"
| "int_of (JString s) =
     ok_or (lit ''Input should be a valid integer, unable to parse string as an integer'') (int_from_str s)"
| "int_of _ = Inl (lit ''Input should be a valid integer'')"

definition strict_int_of :: "json \<Rightarrow> str + int" where
  "strict_int_of v = ok_or (lit ''Input should be a valid integer'') (as_i64 v)"

section \<open>Floats and booleans\<close>

text \<open>\<^verbatim>\<open>_\<close> stands between digits only.\<close>

definition bad_underscore :: "str \<Rightarrow> bool" where
  "bad_underscore s \<longleftrightarrow>
     underscored s
     \<or> list_ex (\<lambda>part. part = [] \<or> \<not> is_digit (hd part)) (drop 1 (split_pred (\<lambda>c. c = ch (CHR ''_'')) s))
     \<or> list_ex (\<lambda>part. part = [] \<or> \<not> is_digit (last part)) (butlast (split_pred (\<lambda>c. c = ch (CHR ''_'')) s))"

definition py_float :: "str \<Rightarrow> f64 option" where
  "py_float s =
     (let trimmed = trim_both is_whitespace s;
          lower = ascii_lower trimmed;
          word = dropWhile (\<lambda>c. c = ch (CHR ''+'') \<or> c = ch (CHR ''-'')) lower
      in if word = lit ''inf'' \<or> word = lit ''infinity'' \<or> word = lit ''nan''
         then parse_f64 (replace_all (lit ''infinity'') (lit ''inf'') lower)
         else if trimmed = [] \<or> bad_underscore trimmed
                 \<or> \<not> list_all (\<lambda>b. is_digit b \<or> b \<in> set (lit ''+-.eE_'')) trimmed
           then None
         else parse_f64 (filter (\<lambda>b. b \<noteq> ch (CHR ''_'')) trimmed))"

fun float_of :: "json \<Rightarrow> str + f64" where
  "float_of (JBool b) = Inr (F_Num (if b then 1 else 0))"
| "float_of (JInt i) = Inr (F_Num (real_of_int i))"
| "float_of (JFloat f) = Inr (f64_of f)"
| "float_of (JString s) = ok_or (lit ''Input should be a valid number, unable to parse string as a number'') (py_float s)"
| "float_of _ = Inl (lit ''Input should be a valid number'')"

definition bool_word :: "str \<Rightarrow> bool option" where
  "bool_word w =
     (if w \<in> {lit ''0'', lit ''off'', lit ''f'', lit ''false'', lit ''n'', lit ''no''} then Some False
      else if w \<in> {lit ''1'', lit ''on'', lit ''t'', lit ''true'', lit ''y'', lit ''yes''} then Some True
      else None)"

definition bool_of :: "json \<Rightarrow> str + bool" where
  "bool_of v =
     ok_or (lit ''Input should be a valid boolean'')
       (case v of
          JBool b \<Rightarrow> Some b
        | JString s \<Rightarrow> bool_word (ascii_lower s)
        | _ \<Rightarrow> (case as_f64 v of
                  Some (F_Num x) \<Rightarrow> if x = 0 then Some False else if x = 1 then Some True else None
                | _ \<Rightarrow> None))"

section \<open>Bounds\<close>

datatype 'a bound = No_Bound | Bound_Ge 'a | Bound_Gt 'a | Bound_Unit

text \<open>Comparisons with NaN are false.\<close>

fun f64_less :: "f64 \<Rightarrow> real \<Rightarrow> bool" where
  "f64_less F_NaN b = False"
| "f64_less (F_Inf neg) b = neg"
| "f64_less (F_Num x) b = (x < b)"

fun f64_le :: "f64 \<Rightarrow> real \<Rightarrow> bool" where
  "f64_le F_NaN b = False"
| "f64_le (F_Inf neg) b = neg"
| "f64_le (F_Num x) b = (x \<le> b)"

fun check_int :: "int \<Rightarrow> int bound \<Rightarrow> str + int" where
  "check_int i (Bound_Ge b) =
     (if i < b then Inl (lit ''Input should be greater than or equal to '' @ dec_int b) else Inr i)"
| "check_int i (Bound_Gt b) =
     (if i \<le> b then Inl (lit ''Input should be greater than '' @ dec_int b) else Inr i)"
| "check_int i _ = Inr i"

text \<open>\<open>show\<close> is \<^verbatim>\<open>Display\<close> of a float.\<close>

fun check_float :: "(real \<Rightarrow> str) \<Rightarrow> f64 \<Rightarrow> real bound \<Rightarrow> str + f64" where
  "check_float show_f x Bound_Unit =
     (if \<not> f64_less x 0 \<and> f64_le x 1 then Inr x
      else if f64_less x 0 then Inl (lit ''Input should be greater than or equal to 0'')
      else Inl (lit ''Input should be less than or equal to 1''))"
| "check_float show_f x (Bound_Ge b) =
     (if f64_less x b then Inl (lit ''Input should be greater than or equal to '' @ show_f b) else Inr x)"
| "check_float show_f x (Bound_Gt b) =
     (if f64_le x b then Inl (lit ''Input should be greater than '' @ show_f b) else Inr x)"
| "check_float show_f x No_Bound = Inr x"

text \<open>The readers of fields; an optional field may be null.\<close>

definition de_int :: "int bound \<Rightarrow> json \<Rightarrow> str + int" where
  "de_int b v = and_then (int_of v) (\<lambda>i. check_int i b)"

definition de_opt_int :: "int bound \<Rightarrow> json \<Rightarrow> str + int option" where
  "de_opt_int b v = (if v = JNull then Inr None else map_sum id Some (de_int b v))"

definition de_float :: "(real \<Rightarrow> str) \<Rightarrow> real bound \<Rightarrow> json \<Rightarrow> str + f64" where
  "de_float show_f b v = and_then (float_of v) (\<lambda>x. check_float show_f x b)"

definition de_opt_float :: "(real \<Rightarrow> str) \<Rightarrow> real bound \<Rightarrow> json \<Rightarrow> str + f64 option" where
  "de_opt_float show_f b v = (if v = JNull then Inr None else map_sum id Some (de_float show_f b v))"

definition opt_boolean :: "json \<Rightarrow> str + bool option" where
  "opt_boolean v = (if v = JNull then Inr None else map_sum id Some (bool_of v))"

section \<open>What is read\<close>

lemma undec_snoc: "undec (s @ [c]) = undec s * 10 + (int c - 48)"
  by (simp add: undec_def)

lemma undec_dec: "undec (dec n) = int n"
proof (induction n rule: dec.induct)
  case (1 n)
  then show ?case
  proof (cases "n < 10")
    case False
    then have "undec (dec n) = int (n div 10) * 10 + int (n mod 10)" using 1 by (simp add: undec_snoc dec.simps [of n])
    also have "\<dots> = int (n div 10 * 10 + n mod 10)" by (simp only: of_nat_add of_nat_mult of_nat_numeral)
    finally show ?thesis by (simp only: div_mult_mod_eq)
  qed (simp add: undec_def dec.simps [of n])
qed

lemma dec_unsigned: "\<not> prefix (lit ''-'') (dec n)" "\<not> prefix (lit ''+'') (dec n)"
proof -
  have "is_digit (hd (dec n))" by (rule dec_digits [of _ n]) simp
  then show "\<not> prefix (lit ''-'') (dec n)" "\<not> prefix (lit ''+'') (dec n)"
    by (cases "dec n"; auto simp: lit_def is_digit_def)+
qed

lemma dec_int_digits: "list_all is_digit (unsigned_part (dec_int i)) \<and> unsigned_part (dec_int i) = dec (nat \<bar>i\<bar>)"
proof -
  have "unsigned_part (dec_int i) = dec (nat \<bar>i\<bar>)" using dec_unsigned by (auto simp: unsigned_part_def dec_int_def lit_def)
  then show ?thesis using dec_digits by (auto simp: list_all_iff)
qed

lemma parse_int_dec_int: "parse_int (dec_int i) = Some i"
proof -
  have "list_all is_digit (dec n)" for n using dec_digits by (auto simp: list_all_iff)
  then show ?thesis using dec_unsigned by (auto simp: parse_int_def dec_int_def Let_def undec_dec lit_def)
qed

lemma dec_int_plain:
  assumes "c \<in> set (dec_int i)"
  shows "\<not> is_whitespace c" and "c \<noteq> ch (CHR ''.'')" and "c \<noteq> ch (CHR ''_'')"
proof -
  have "c = 45 \<or> is_digit c" using assms dec_digits by (auto simp: dec_int_def lit_def split: if_splits)
  then show "\<not> is_whitespace c" "c \<noteq> ch (CHR ''.'')" "c \<noteq> ch (CHR ''_'')" by (auto simp: is_whitespace_def is_digit_def)
qed

lemma trim_both_plain: "\<forall>c\<in>set s. \<not> P c \<Longrightarrow> trim_both P s = s"
proof -
  have keep: "\<forall>c\<in>set xs. \<not> P c \<Longrightarrow> dropWhile P xs = xs" for xs by (cases xs) auto
  assume "\<forall>c\<in>set s. \<not> P c"
  then have "dropWhile P s = s" "dropWhile P (rev s) = rev s" using keep [of s] keep [of "rev s"] by simp_all
  then show ?thesis by (simp add: trim_both_def trim_end_def)
qed

lemma int_from_dec_int: "in_i64 i \<Longrightarrow> int_from_str (dec_int i) = Some i"
proof -
  assume "in_i64 i"
  moreover have "trim_both is_whitespace (dec_int i) = dec_int i" by (rule trim_both_plain) (use dec_int_plain(1) in blast)
  moreover have "split_once (ch (CHR ''.'')) (dec_int i) = None" by (simp only: split_once_None) (use dec_int_plain(2) in blast)
  moreover have "filter (\<lambda>b. b \<noteq> ch (CHR ''_'')) (dec_int i) = dec_int i" using dec_int_plain(3) by (auto simp: filter_id_conv)
  moreover have "\<not> underscored (unsigned_part (dec_int i))"
  proof -
    have no: "ch (CHR ''_'') \<notin> set (unsigned_part (dec_int i))" using dec_int_digits [of i] by (fastforce simp: list_all_iff is_digit_def)
    have "set (lit ''__'') \<subseteq> set (unsigned_part (dec_int i))" if "find_str (lit ''__'') (unsigned_part (dec_int i)) = Some n" for n
      using find_str_Some [OF that] by (metis set_drop_subset set_mono_prefix subset_trans)
    then have "find_str (lit ''__'') (unsigned_part (dec_int i)) = None" using no by (cases "find_str (lit ''__'') (unsigned_part (dec_int i))") (auto simp: lit_def)
    then show ?thesis using no by (auto simp: underscored_def lit_def prefix_def suffix_def)
  qed
  ultimately show ?thesis
    using dec_int_digits [of i] by (auto simp: int_from_str_def Let_def parse_i64_def parse_int_dec_int list_all_iff)
qed

lemma whole_f64_range: "whole_f64 x = Inr i \<Longrightarrow> in_i64 i"
  by (auto simp: whole_f64_def in_i64_def split: f64.splits if_splits)

text \<open>
  What the lax readers take.  An integer read from any JSON value fits 64 bits, and one written as a number or in
  decimal reads back as itself.  A float read with the bounds of a probability is a number between 0 and 1, so never
  NaN or an infinity, and a finite one read with a lower bound is not below it.
\<close>

theorem lax_reads:
  "(int_of v = Inr i \<longrightarrow> in_i64 i)
   \<and> (in_i64 j \<longrightarrow> int_of (JInt j) = Inr j \<and> int_of (JString (dec_int j)) = Inr j)
   \<and> (de_float show_f Bound_Unit v = Inr x \<longrightarrow> (\<exists>r. x = F_Num r \<and> 0 \<le> r \<and> r \<le> 1))
   \<and> (de_opt_float show_f (Bound_Ge b) v = Inr (Some (F_Num r)) \<longrightarrow> b \<le> r)
   \<and> (de_opt_int (Bound_Gt k) v = Inr (Some n) \<longrightarrow> k < n)"
proof (intro conjI impI)
  show "int_of v = Inr i \<Longrightarrow> in_i64 i"
    by (cases v) (auto simp: whole_f64_range in_i64_def [of 0] in_i64_def [of 1] int_from_str_def parse_i64_def Let_def ok_or_def
        bind_eq_Some_conv split: if_splits option.splits)
  show "de_float show_f Bound_Unit v = Inr x \<Longrightarrow> \<exists>r. x = F_Num r \<and> 0 \<le> r \<and> r \<le> 1"
    by (cases x) (auto simp: de_float_def and_then_Inr split: if_splits)
  show "de_opt_float show_f (Bound_Ge b) v = Inr (Some (F_Num r)) \<Longrightarrow> b \<le> r"
    by (cases "de_float show_f (Bound_Ge b) v") (auto simp: de_opt_float_def de_float_def and_then_Inr split: if_splits)
  show "de_opt_int (Bound_Gt k) v = Inr (Some n) \<Longrightarrow> k < n"
    by (cases "de_int (Bound_Gt k) v") (auto simp: de_opt_int_def de_int_def and_then_Inr split: if_splits)
qed (simp_all add: int_from_dec_int)

theorem lax_reads_witness:
  "int_of (JString (lit '' 1_000.0 '')) = Inr 1000 \<and> in_i64 1000
   \<and> de_float (\<lambda>_. []) Bound_Unit (JString (lit ''5e-1'')) = Inr (F_Num (1 / 2)) \<and> (\<exists>r. F_Num (1 / 2) = F_Num r \<and> 0 \<le> r \<and> r \<le> 1)"
proof -
  have read: "int_of (JString (lit '' 1_000.0 '')) = Inr 1000" by code_simp
  have unit: "de_float (\<lambda>_. []) Bound_Unit (JString (lit ''5e-1'')) = Inr (F_Num (1 / 2))" by code_simp
  note facts = lax_reads [of "JString (lit '' 1_000.0 '')" 1000 0 "\<lambda>_. []" F_NaN 0 0 0 0]
    lax_reads [of "JString (lit ''5e-1'')" 0 0 "\<lambda>_. []" "F_Num (1 / 2)" 0 0 0 0]
  show ?thesis using facts(1) [THEN conjunct1] facts(2) [THEN conjunct2, THEN conjunct2, THEN conjunct1] read unit by blast
qed

end
