(* ===== verification/Decision.thy ===== *)
theory Decision
  imports Ledger
begin

text \<open>
  \<^verbatim>\<open>crates/fastbrowse-core/src/config.rs\<close> and \<^verbatim>\<open>crates/fastbrowse-core/src/decision.rs\<close>: run
  configuration, the typed questions and answers of a decision model, and the profile that
  brings a configuration within a model's limits.
\<close>

section \<open>Configuration\<close>

record thresholds =
  login_required_above :: real
  bot_check_above :: real
  irreversible_above :: real
  requested_above :: real

definition thresholds_default :: thresholds where
  "thresholds_default = \<lparr>login_required_above = 7 / 10, bot_check_above = 7 / 10,
     irreversible_above = 1 / 2, requested_above = 1 / 2\<rparr>"

record token_budget =
  state_plus_largest_question :: int
  state_plus_all_questions :: int
  batch_tokens :: int
  chars_per_token :: real
  decision_chars :: "(int \<times> int) option"

definition token_budget_default :: token_budget where
  "token_budget_default = \<lparr>state_plus_largest_question = 32000, state_plus_all_questions = 64000,
     batch_tokens = 8000, chars_per_token = 3, decision_chars = None\<rparr>"

definition JSON_CHARS_PER_TOKEN :: real where
  "JSON_CHARS_PER_TOKEN = 3 / 2"

text \<open>\<^verbatim>\<open>f64 as i64\<close> truncates toward zero.\<close>

definition trunc :: "real \<Rightarrow> int" where
  "trunc x = (if 0 \<le> x then \<lfloor>x\<rfloor> else \<lceil>x\<rceil>)"

definition input_chars :: "token_budget \<Rightarrow> str list \<Rightarrow> int" where
  "input_chars t questions =
     (let sizes = map (\<lambda>q. real (text_len q)) questions;
          (largest, all) =
            (case decision_chars t of
               None \<Rightarrow> (real_of_int (state_plus_largest_question t) * JSON_CHARS_PER_TOKEN,
                        real_of_int (state_plus_all_questions t) * JSON_CHARS_PER_TOKEN)
             | Some (most, every) \<Rightarrow> (real_of_int most, real_of_int every));
          biggest = foldl max 0 sizes;
          room = min (largest - biggest) (all - py_sum sizes)
      in max (trunc room) 0)"

record stall_rules =
  unchanged_actions :: int
  max_recoveries :: int

record observation_limits =
  group_size :: int

record config =
  cfg_thresholds :: thresholds
  cfg_observation :: observation_limits
  tokens :: token_budget
  stall :: stall_rules
  refuse_cookie_banners :: bool
  step_frames :: bool
  step_choices_kept :: bool
  max_upload_bytes :: int
  max_download_bytes :: int

definition config_default :: config where
  "config_default = \<lparr>cfg_thresholds = thresholds_default, cfg_observation = \<lparr>group_size = 30\<rparr>,
     tokens = token_budget_default, stall = \<lparr>unchanged_actions = 3, max_recoveries = 1\<rparr>,
     refuse_cookie_banners = True, step_frames = False, step_choices_kept = False,
     max_upload_bytes = 25 * 1024 * 1024, max_download_bytes = 512 * 1024 * 1024\<rparr>"

section \<open>Questions and answers\<close>

record choice_question =
  cq_instructions :: str
  cq_criteria :: "(str, json) index_map"

record noul_question =
  nq_instructions :: str
  nq_true :: "str option"
  nq_false :: "str option"

definition noul_new :: "str \<Rightarrow> str option \<Rightarrow> str option \<Rightarrow> noul_question" where
  "noul_new instructions yes no = \<lparr>nq_instructions = instructions, nq_true = yes, nq_false = no\<rparr>"

record score_question =
  sq_instructions :: str
  sq_criteria :: "str list"

definition score_criteria :: "str list \<Rightarrow> str + str list" where
  "score_criteria criteria =
     (if length criteria < 2 then Inl (lit ''Tuple should have at least 2 items after validation'')
      else if 11 \<le> length criteria then Inl (lit ''Tuple should have at most 10 items after validation'')
      else Inr criteria)"

datatype question =
    Q_Choice choice_question
  | Q_Noul noul_question
  | Q_Score score_question
  | Q_Box str

record choice_answer =
  ca_choice :: str
  ca_probabilities :: "(str, real) index_map"
  ca_confidence :: real

definition EVEN_ODDS :: real where
  "EVEN_ODDS = 1 / 2"

record score_answer =
  sa_score :: real
  sa_probabilities :: "(str, real) index_map"
  sa_confidence :: real

record edges =
  edge_top :: real
  edge_bottom :: real
  edge_left :: real
  edge_right :: real

definition edges_centre :: "edges \<Rightarrow> real \<times> real" where
  "edges_centre e = ((edge_left e + edge_right e) / 2, (edge_top e + edge_bottom e) / 2)"

datatype answer =
    A_Choice choice_answer
  | A_Noul real
  | A_Score score_answer
  | A_Box edges "real option"

fun answer_probability :: "answer \<Rightarrow> real option" where
  "answer_probability (A_Noul p) = Some p"
| "answer_probability _ = None"

record evaluation =
  eval_model :: str
  eval_answers :: "(str, answer) index_map"
  eval_input_tokens :: int
  eval_cost :: cost_line
  eval_requests :: int

section \<open>Images\<close>

definition be32 :: "8 word list \<Rightarrow> nat \<Rightarrow> nat" where
  "be32 png k = ((unat (png ! k) * 256 + unat (png ! (k + 1))) * 256 + unat (png ! (k + 2))) * 256
                  + unat (png ! (k + 3))"

definition PNG_MAGIC :: "8 word list" where
  "PNG_MAGIC = [0x89, 0x50, 0x4E, 0x47, 0x0D, 0x0A, 0x1A, 0x0A]"

definition jev_takes_png :: "8 word list \<Rightarrow> bool" where
  "jev_takes_png png =
     (if length png < 24 \<or> \<not> prefix PNG_MAGIC png \<or> length png > 16 * 1024 * 1024 then False
      else (let width = be32 png 16; height = be32 png 20 in
            280 \<le> width \<and> width \<le> 1568 \<and> 280 \<le> height \<and> height \<le> 1568
            \<and> 78400 \<le> width * height \<and> width * height \<le> 2458624))"

definition image_ref :: "str set \<Rightarrow> json \<Rightarrow> bool" where
  "image_ref images v = (case v of JString s \<Rightarrow> s \<in> images | _ \<Rightarrow> False)"

function without_images :: "json \<Rightarrow> str set \<Rightarrow> json" where
  "without_images (JObject m) images =
     JObject (map (\<lambda>kv. (fst kv, without_images (snd kv) images))
                (filter (\<lambda>kv. \<not> image_ref images (snd kv)) m))"
| "without_images (JArray vs) images =
     JArray (map (\<lambda>v. without_images v images) (filter (\<lambda>v. \<not> image_ref images v) vs))"
| "without_images JNull images = JNull"
| "without_images (JBool b) images = JBool b"
| "without_images (JInt i) images = JInt i"
| "without_images (JFloat f) images = JFloat f"
| "without_images (JString s) images = JString s"
  by pat_completeness auto

termination without_images
proof (relation "measure (\<lambda>(v, _). size v)", goal_cases)
  case (2 m images kv)
  then have "kv \<in> set m" by simp
  then show ?case using size_json_entry [of "fst kv" "snd kv" m] by simp
next
  case (3 vs images v)
  then show ?case by (auto simp: less_Suc_eq_le size_list_estimation')
qed simp

section \<open>Profiles\<close>

record decision_profile =
  max_choice_options :: nat
  max_score_levels :: nat
  max_questions :: "nat option"
  max_largest_tokens :: int
  max_total_tokens :: int
  max_request_bytes :: "int option"
  dollars_per_input_token :: "real option"
  profile_images :: bool
  profile_thresholds :: "thresholds option"

definition JEV_LONG_CONTEXT_TOKENS :: int where
  "JEV_LONG_CONTEXT_TOKENS = 262144"

definition profile_jev :: decision_profile where
  "profile_jev = \<lparr>max_choice_options = 255, max_score_levels = 10, max_questions = None,
     max_largest_tokens = 32000, max_total_tokens = 64000, max_request_bytes = None,
     dollars_per_input_token = Some (42 / 1000 / 1000000), profile_images = False,
     profile_thresholds = Some thresholds_default\<rparr>"

definition profile_unknown :: decision_profile where
  "profile_unknown = \<lparr>max_choice_options = 26, max_score_levels = 10, max_questions = Some 64,
     max_largest_tokens = 32000, max_total_tokens = 64000, max_request_bytes = Some (64 * 1024),
     dollars_per_input_token = None, profile_images = False, profile_thresholds = None\<rparr>"

definition profile_perplexity :: "real \<Rightarrow> decision_profile" where
  "profile_perplexity per_million = \<lparr>max_choice_options = 255, max_score_levels = 10, max_questions = Some 128,
     max_largest_tokens = 256000, max_total_tokens = 256000, max_request_bytes = Some (32 * 1024 * 1024),
     dollars_per_input_token = Some (per_million / 1000000), profile_images = False, profile_thresholds = None\<rparr>"

definition profile_luna :: decision_profile where
  "profile_luna = \<lparr>max_choice_options = 255, max_score_levels = 10, max_questions = Some 400,
     max_largest_tokens = 32000, max_total_tokens = 64000, max_request_bytes = None,
     dollars_per_input_token = Some (10 / 100 / 1000000), profile_images = False, profile_thresholds = None\<rparr>"

text \<open>\<^verbatim>\<open>model.rsplit('/').next()\<close>: what follows the last slash.\<close>

definition bare_name :: "str \<Rightarrow> str" where
  "bare_name model = last (split_pred (\<lambda>c. c = 47) model)"

definition strip_maker :: "str \<Rightarrow> str" where
  "strip_maker model =
     (case strip_prefix (lit ''perplexity/'') model of
        Some n \<Rightarrow> n
      | None \<Rightarrow> (case strip_prefix (lit ''openai/'') model of Some n \<Rightarrow> n | None \<Rightarrow> model))"

definition for_model :: "str \<Rightarrow> decision_profile" where
  "for_model model =
     (let bare = bare_name model; name = strip_maker model in
      if bare = lit ''jev'' \<or> prefix (lit ''jev-1.13'') bare \<or> prefix (lit ''jev-1.14'') bare then profile_jev
      else if prefix (lit ''jev-'') bare then profile_jev\<lparr>profile_thresholds := None\<rparr>
      else if name \<in> {lit ''telnyx/decision-flash'', lit ''telnyx/decision-pro''} then
        profile_unknown\<lparr>max_choice_options := 64, max_score_levels := 64, max_request_bytes := None\<rparr>
      else if name = lit ''gpt-6-luna'' then profile_luna
      else if name \<in> {lit ''pplx-decider-v1.2'', lit ''pplx-decider-latest'', lit ''pplx-decider-v1.1-27b'',
                       lit ''pplx-decider-v1-27b''} then profile_perplexity (2 / 100)
      else if name \<in> {lit ''pplx-decider-flash-v1.2'', lit ''pplx-decider-flash-latest''} then
        profile_perplexity (1 / 100)
      else if name = lit ''liquid/d1'' then profile_unknown\<lparr>max_total_tokens := 32768\<rparr>
      else if name \<in> {lit ''nimble'', lit ''tev1''} then profile_unknown\<lparr>max_score_levels := 26\<rparr>
      else profile_unknown)"

definition long_context :: "decision_profile \<Rightarrow> decision_profile" where
  "long_context p =
     p\<lparr>max_largest_tokens := JEV_LONG_CONTEXT_TOKENS, max_total_tokens := JEV_LONG_CONTEXT_TOKENS\<rparr>"

definition validated :: "decision_profile \<Rightarrow> bool" where
  "validated p \<longleftrightarrow> profile_thresholds p \<noteq> None"

text \<open>The token totals a request may spend, with the byte cap counted in.\<close>

definition fit_total :: "decision_profile \<Rightarrow> int" where
  "fit_total p =
     (case max_request_bytes p of
        None \<Rightarrow> max_total_tokens p
      | Some bytes \<Rightarrow> min (max_total_tokens p) (trunc (real_of_int bytes / JSON_CHARS_PER_TOKEN)))"

definition fit_largest :: "decision_profile \<Rightarrow> int" where
  "fit_largest p = min (max_largest_tokens p) (fit_total p)"

definition fit_scale :: "decision_profile \<Rightarrow> real" where
  "fit_scale p = real_of_int (max_largest_tokens p) / real_of_int (max_largest_tokens profile_jev)"

definition fitted :: "decision_profile \<Rightarrow> int \<Rightarrow> int \<Rightarrow> int" where
  "fitted p budget limit =
     trunc (min (real_of_int budget * fit_scale p) (real_of_int limit) * JSON_CHARS_PER_TOKEN)"

definition fit_tokens :: "decision_profile \<Rightarrow> token_budget \<Rightarrow> token_budget" where
  "fit_tokens p given =
     given\<lparr>state_plus_largest_question := max (min (state_plus_largest_question given) (fit_largest p)) 1,
           state_plus_all_questions := max (min (state_plus_all_questions given) (fit_total p)) 1,
           decision_chars :=
             (if fit_scale p > 1
              then Some (fitted p (state_plus_largest_question given) (fit_largest p),
                         fitted p (state_plus_all_questions given) (fit_total p))
              else None)\<rparr>"

definition profile_fit :: "decision_profile \<Rightarrow> config option \<Rightarrow> config" where
  "profile_fit p given =
     (let c = (case given of
                 Some c \<Rightarrow> c
               | None \<Rightarrow> config_default\<lparr>cfg_thresholds :=
                   (case profile_thresholds p of Some t \<Rightarrow> t | None \<Rightarrow> thresholds_default)\<rparr>)
      in c\<lparr>cfg_observation := \<lparr>group_size = min (group_size (cfg_observation c)) (int (max (max_choice_options p) 2))\<rparr>,
           tokens := fit_tokens p (tokens c)\<rparr>)"

definition input_dollars :: "decision_profile \<Rightarrow> real \<Rightarrow> real option" where
  "input_dollars p n = map_option (\<lambda>price. n * price) (dollars_per_input_token p)"

section \<open>Errors\<close>

record retries_exhausted =
  re_message :: str
  re_seconds :: real
  re_unaccounted_requests :: int
  re_requests :: int
  re_answered :: "evaluation list"
  re_last :: str

datatype decision_error =
    Decision_Failed str
  | Decision_InputTooLarge str
  | Decision_TransportFailed str
  | Decision_RetriesExhausted retries_exhausted
  | Decision_Rejected str
  | Decision_Budget budget_exceeded

fun decision_unavailable :: "decision_error \<Rightarrow> bool" where
  "decision_unavailable (Decision_TransportFailed _) = True"
| "decision_unavailable (Decision_RetriesExhausted _) = True"
| "decision_unavailable _ = False"

section \<open>Facts about budgets\<close>

lemma trunc_le: "0 < trunc x \<Longrightarrow> real_of_int (trunc x) \<le> x"
proof (cases "0 \<le> x")
  case False
  then have "\<lceil>x\<rceil> \<le> 0" by (simp add: ceiling_le_iff)
  moreover assume "0 < trunc x"
  ultimately show ?thesis using False by (simp add: trunc_def)
qed (simp add: trunc_def)

lemma foldl_max_start: "a \<le> foldl max a xs" for a :: real
proof (induction xs arbitrary: a)
  case (Cons x xs)
  have "a \<le> max a x" by simp
  also have "\<dots> \<le> foldl max (max a x) xs" by (rule Cons)
  finally show ?case by simp
qed simp

lemma foldl_max_ge: "x \<in> set xs \<Longrightarrow> x \<le> foldl max a xs" for x :: real
proof (induction xs arbitrary: a)
  case (Cons y ys)
  show ?case
  proof (cases "x = y")
    case True
    have "x \<le> max a y" using True by simp
    also have "\<dots> \<le> foldl max (max a y) ys" by (rule foldl_max_start)
    finally show ?thesis by simp
  next
    case False
    with Cons show ?thesis by simp
  qed
qed simp

text \<open>A profile whose limits leave room for a request at all.\<close>

definition profile_ok :: "decision_profile \<Rightarrow> bool" where
  "profile_ok p \<longleftrightarrow> 0 < max_largest_tokens p \<and> 0 < fit_total p"

lemma trunc_of_int [simp]: "trunc (real_of_int i) = i"
  by (simp add: trunc_def)

lemma for_model_ok: "profile_ok (for_model model)"
proof -
  have "trunc (131072 / 3) = 43690"
    unfolding trunc_def by (simp add: floor_eq_iff)
  moreover have "trunc (67108864 / 3) = 22369621"
    unfolding trunc_def by (simp add: floor_eq_iff)
  ultimately show ?thesis
    by (simp add: for_model_def Let_def profile_ok_def fit_total_def profile_jev_def profile_unknown_def
        profile_perplexity_def profile_luna_def JSON_CHARS_PER_TOKEN_def)
qed

lemma fitted_min:
  assumes "fit_scale p > 1" and "0 < limit"
  shows "fitted p (max (min budget limit) 1) limit = fitted p budget limit \<or> budget < 1"
proof -
  consider "budget < 1" | "1 \<le> budget" "budget \<le> limit" | "limit < budget" by linarith
  then show ?thesis
  proof cases
    case 3
    have "real_of_int limit \<le> real_of_int limit * fit_scale p"
      using assms by simp
    moreover have "real_of_int limit \<le> real_of_int budget * fit_scale p"
      by (rule order.trans [OF calculation mult_right_mono]) (use 3 assms in auto)
    moreover have "max (min budget limit) 1 = limit" using 3 assms(2) by simp
    ultimately show ?thesis by (simp add: fitted_def)
  qed auto
qed

lemma fit_tokens_idem:
  assumes "profile_ok p" and "0 < state_plus_largest_question t" "0 < state_plus_all_questions t"
  shows "fit_tokens p (fit_tokens p t) = fit_tokens p t"
proof -
  have pos: "0 < fit_largest p" "0 < fit_total p" using assms(1) by (auto simp: profile_ok_def fit_largest_def)
  have "fitted p (max (min b l) 1) l = fitted p b l" if "fit_scale p > 1" "0 < l" "0 < b" for b l
    using fitted_min [OF that(1,2), of b] that(3) by auto
  with pos assms(2,3) show ?thesis by (auto simp: fit_tokens_def)
qed

section \<open>Properties\<close>

text \<open>
  fitting a configuration to a model brings every limit within the model's, keeps every
  budget usable (at least one token, and a group of at least the smaller of the caller's size
  and two), changes nothing else of the caller's configuration, and is idempotent: fitting
  the result again, as a second client of the same model does, changes nothing.
\<close>
theorem profile_fit_within:
  assumes "profile_ok p"
    and "0 < state_plus_largest_question (tokens c)" "0 < state_plus_all_questions (tokens c)"
  shows "1 \<le> state_plus_largest_question (tokens (profile_fit p (Some c))) \<and>
    state_plus_largest_question (tokens (profile_fit p (Some c))) \<le> max_largest_tokens p \<and>
    1 \<le> state_plus_all_questions (tokens (profile_fit p (Some c))) \<and>
    state_plus_all_questions (tokens (profile_fit p (Some c))) \<le> max_total_tokens p \<and>
    group_size (cfg_observation (profile_fit p (Some c))) \<le> int (max (max_choice_options p) 2) \<and>
    cfg_thresholds (profile_fit p (Some c)) = cfg_thresholds c \<and>
    profile_fit p (Some (profile_fit p (Some c))) = profile_fit p (Some c)"
proof -
  have "fit_total p \<le> max_total_tokens p" by (simp add: fit_total_def split: option.splits)
  moreover have "fit_largest p \<le> max_largest_tokens p" by (simp add: fit_largest_def)
  moreover have "0 < fit_largest p" "0 < fit_total p" using assms(1) by (auto simp: profile_ok_def fit_largest_def)
  moreover have "state_plus_largest_question (fit_tokens p t) = max (min (state_plus_largest_question t) (fit_largest p)) 1"
    "state_plus_all_questions (fit_tokens p t) = max (min (state_plus_all_questions t) (fit_total p)) 1" for t
    by (simp_all add: fit_tokens_def)
  ultimately show ?thesis by (auto simp: profile_fit_def Let_def fit_tokens_idem [OF assms])
qed

theorem profile_fit_within_witness:
  "state_plus_all_questions (tokens (profile_fit (for_model (lit ''liquid/d1'')) (Some config_default))) \<le> 32768"
proof -
  have "max_total_tokens (for_model (lit ''liquid/d1'')) = 32768" by code_simp
  with profile_fit_within [OF for_model_ok, of config_default "lit ''liquid/d1''"] show ?thesis
    by (simp add: config_default_def token_budget_default_def)
qed

text \<open>
  the room left for a decision's state beside its questions.  A state of that many
  characters, with the largest question, is within the budget for the largest, and with
  every question within the budget for all; the room is never negative.
\<close>
theorem input_chars_fits:
  assumes "0 < input_chars t questions" and "decision_chars t = None" and "q \<in> set questions"
  shows "real_of_int (input_chars t questions) + real (text_len q)
      \<le> real_of_int (state_plus_largest_question t) * JSON_CHARS_PER_TOKEN \<and>
    real_of_int (input_chars t questions) + (\<Sum>q\<leftarrow>questions. real (text_len q))
      \<le> real_of_int (state_plus_all_questions t) * JSON_CHARS_PER_TOKEN"
proof -
  let ?sizes = "map (\<lambda>q. real (text_len q)) questions"
  let ?room = "min (real_of_int (state_plus_largest_question t) * JSON_CHARS_PER_TOKEN - foldl max 0 ?sizes)
      (real_of_int (state_plus_all_questions t) * JSON_CHARS_PER_TOKEN - py_sum ?sizes)"
  have i: "input_chars t questions = max (trunc ?room) 0" using assms(2) by (simp add: input_chars_def Let_def)
  then have "input_chars t questions = trunc ?room" "0 < trunc ?room" using assms(1) by linarith+
  then have "real_of_int (input_chars t questions) \<le> ?room" using trunc_le [of ?room] by metis
  moreover have "real (text_len q) \<le> foldl max 0 ?sizes" using assms(3) by (intro foldl_max_ge) simp
  ultimately show ?thesis by (simp add: py_sum_sum_list)
qed

theorem input_chars_fits_witness:
  "real_of_int (input_chars token_budget_default [lit ''abc'']) + 3 \<le> 48000"
proof -
  have "input_chars token_budget_default [lit ''abc''] = 47997"
    by (simp add: input_chars_def token_budget_default_def JSON_CHARS_PER_TOKEN_def py_sum_sum_list text_len_def
        trunc_def)
  with input_chars_fits [of token_budget_default "[lit ''abc'']" "lit ''abc''"] show ?thesis
    by (simp add: token_budget_default_def JSON_CHARS_PER_TOKEN_def text_len_def)
qed

text \<open>No value inside the state, at any depth, is a reference to an image.\<close>

function image_free :: "str set \<Rightarrow> json \<Rightarrow> bool" where
  "image_free images (JObject m) \<longleftrightarrow>
     (\<forall>kv\<in>set m. \<not> image_ref images (snd kv) \<and> image_free images (snd kv))"
| "image_free images (JArray vs) \<longleftrightarrow> (\<forall>v\<in>set vs. \<not> image_ref images v \<and> image_free images v)"
| "image_free images JNull \<longleftrightarrow> True"
| "image_free images (JBool b) \<longleftrightarrow> True"
| "image_free images (JInt i) \<longleftrightarrow> True"
| "image_free images (JFloat f) \<longleftrightarrow> True"
| "image_free images (JString s) \<longleftrightarrow> True"
  by pat_completeness auto

termination image_free
proof (relation "measure (\<lambda>(_, v). size v)", goal_cases)
  case (2 images m kv)
  then show ?case using size_json_entry [of "fst kv" "snd kv" m] by simp
next
  case (3 images vs v)
  then show ?case by (auto simp: less_Suc_eq_le size_list_estimation')
qed simp

lemma image_ref_without: "image_ref images (without_images v images) = image_ref images v"
  by (cases v) (auto simp: image_ref_def)

lemma without_images_free: "image_free images (without_images v images)"
  by (induction v images rule: without_images.induct) (auto simp: image_ref_without)

lemma without_images_id: "image_free images v \<Longrightarrow> without_images v images = v"
  by (induction images v rule: image_free.induct) (auto simp: map_idI filter_id_conv intro!: map_idI)

text \<open>
  a state sent on a route that takes no image refers to none: leaving the images out
  leaves no reference at any depth, changes nothing in a state that had none, and so is
  idempotent.
\<close>
theorem without_images_complete:
  "image_free images (without_images state images) \<and>
   (image_free images state \<longrightarrow> without_images state images = state) \<and>
   without_images (without_images state images) images = without_images state images"
  using without_images_free [of images state] without_images_id [of images] by simp

theorem without_images_complete_witness:
  "without_images (JObject [(lit ''a'', JInt 1)]) {lit ''img''} = JObject [(lit ''a'', JInt 1)] \<and>
   without_images (JArray [JString (lit ''img''), JNull]) {lit ''img''} = JArray [JNull]"
  using without_images_complete [of "{lit ''img''}" "JObject [(lit ''a'', JInt 1)]"] by (simp add: image_ref_def)

end
