(* ===== verification/Replies.thy ===== *)
theory Replies
  imports Lax Decision
begin

text \<open>
  The reading of a provider's reply (\<^verbatim>\<open>crates/fastbrowse-clients/src/http.rs\<close> and
  \<^verbatim>\<open>crates/fastbrowse-clients/src/validation.rs\<close>): the response and the text of its errors, the questions on
  the wire, and the strict validation of the answers.  Bytes are naturals below 256.  \<^verbatim>\<open>serde_json\<close> is the parameter
  \<open>serde\<close>; a finite \<^verbatim>\<open>f64\<close> is a real number, so rounding of sums and products is left out, and \<open>num\<close> is the decimal form
  \<^verbatim>\<open>{:e}\<close> gives one.
\<close>

section \<open>Bytes as text\<close>

definition utf8_cont :: "nat \<Rightarrow> bool" where
  "utf8_cont b \<longleftrightarrow> 0x80 \<le> b \<and> b \<le> 0xBF"

text \<open>Which second byte a lead byte of three or four takes.\<close>

definition utf8_second :: "nat \<Rightarrow> nat \<Rightarrow> bool" where
  "utf8_second b c \<longleftrightarrow>
     (if b = 0xE0 then 0xA0 \<le> c \<and> c \<le> 0xBF
      else if b = 0xED then 0x80 \<le> c \<and> c \<le> 0x9F
      else if b = 0xF0 then 0x90 \<le> c \<and> c \<le> 0xBF
      else if b = 0xF4 then 0x80 \<le> c \<and> c \<le> 0x8F
      else utf8_cont c)"

text \<open>A lead byte of two or more: the character, when its bytes follow, and how many of them were taken.\<close>

definition utf8_sequence :: "nat \<Rightarrow> nat list \<Rightarrow> uchar option \<times> nat" where
  "utf8_sequence b rest =
     (let ok = (\<lambda>i. i < length rest \<and> utf8_cont (rest ! i));
          second = (0 < length rest \<and> utf8_second b (rest ! 0));
          low = (\<lambda>i. rest ! i - 0x80)
      in if 0xC2 \<le> b \<and> b \<le> 0xDF then
           (if ok 0 then (Some ((b - 0xC0) * 64 + low 0), 1) else (None, 0))
         else if 0xE0 \<le> b \<and> b \<le> 0xEF then
           (if \<not> second then (None, 0) else if \<not> ok 1 then (None, 1)
            else (Some ((b - 0xE0) * 4096 + low 0 * 64 + low 1), 2))
         else if 0xF0 \<le> b \<and> b \<le> 0xF4 then
           (if \<not> second then (None, 0) else if \<not> ok 1 then (None, 1) else if \<not> ok 2 then (None, 2)
            else (Some ((b - 0xF0) * 262144 + low 0 * 4096 + low 1 * 64 + low 2), 3))
         else (None, 0))"

text \<open>\<^verbatim>\<open>String::from_utf8_lossy\<close>: each maximal run of bytes that begins no character becomes one replacement.\<close>

function utf8_lossy :: "nat list \<Rightarrow> str" where
  "utf8_lossy [] = []"
| "utf8_lossy (b # rest) =
     (if b < 0x80 then b # utf8_lossy rest
      else (case utf8_sequence b rest of
              (Some c, n) \<Rightarrow> c # utf8_lossy (drop n rest)
            | (None, n) \<Rightarrow> 0xFFFD # utf8_lossy (drop n rest)))"
  by pat_completeness auto

termination utf8_lossy
  by (relation "measure length") auto

section \<open>Responses\<close>

record http_response =
  resp_status :: nat
  resp_headers :: "(str \<times> str) list"
  resp_body :: "nat list"
  resp_credential :: str

record serde_error =
  se_text :: str
  se_line :: nat
  se_column :: nat

type_synonym serde = "nat list \<Rightarrow> serde_error + json"

definition http_header :: "(str \<times> str) list \<Rightarrow> str \<Rightarrow> str option" where
  "http_header headers name = map_option snd (find (\<lambda>(key, _). ascii_lower key = ascii_lower name) headers)"

definition scrub :: "str \<Rightarrow> str \<Rightarrow> str" where
  "scrub s credential = (if credential = [] then s else replace_all credential (lit ''[api key]'') s)"

definition resp_scrub :: "http_response \<Rightarrow> str \<Rightarrow> str" where
  "resp_scrub r s = scrub s (resp_credential r)"

definition is_success :: "http_response \<Rightarrow> bool" where
  "is_success r \<longleftrightarrow> 200 \<le> resp_status r \<and> resp_status r < 300"

definition resp_text :: "http_response \<Rightarrow> str" where
  "resp_text r = utf8_lossy (resp_body r)"

definition json_value :: "serde \<Rightarrow> http_response \<Rightarrow> json option" where
  "json_value serde r = (case serde (resp_body r) of Inr v \<Rightarrow> Some v | Inl _ \<Rightarrow> None)"

section \<open>Error text\<close>

definition line_error :: "str \<Rightarrow> json list \<Rightarrow> str \<Rightarrow> json option \<Rightarrow> json" where
  "line_error kind loc msg ctx =
     JObject ([(lit ''type'', JString kind), (lit ''loc'', JArray loc), (lit ''msg'', JString msg)]
              @ (case ctx of Some c \<Rightarrow> [(lit ''ctx'', c)] | None \<Rightarrow> []))"

definition errors_json :: "json list \<Rightarrow> str" where
  "errors_json errors = write_value (JArray errors) PYDANTIC 0"

definition json_invalid :: "str \<Rightarrow> serde_error \<Rightarrow> json" where
  "json_invalid s e =
     (let parts = split_pred (\<lambda>c. c = 10) s;
          at_end = (se_line e \<ge> length parts \<and> se_column e \<ge> length (last parts));
          reason = (case strip_prefix (lit ''expected ident'') (se_text e) of
                      Some position \<Rightarrow> if at_end then lit ''EOF while parsing a value'' @ position else se_text e
                    | None \<Rightarrow> se_text e)
      in line_error (lit ''json_invalid'') [] (lit ''Invalid JSON: '' @ reason) (Some (JObject [(lit ''error'', JString reason)])))"

definition json_object :: "serde \<Rightarrow> http_response \<Rightarrow> str + (str \<times> json) list" where
  "json_object serde r =
     (case serde (resp_body r) of
        Inr (JObject m) \<Rightarrow> Inr m
      | Inr _ \<Rightarrow> Inl (errors_json [line_error (lit ''dict_type'') [] (lit ''Input should be an object'') None])
      | Inl e \<Rightarrow> Inl (errors_json [json_invalid (utf8_lossy (resp_body r)) e]))"

definition body_excerpt :: "http_response \<Rightarrow> str" where
  "body_excerpt r = text_prefix (resp_scrub r (resp_text r)) 400"

definition as_object :: "json \<Rightarrow> (str \<times> json) list option" where
  "as_object v = (case v of JObject m \<Rightarrow> Some m | _ \<Rightarrow> None)"

definition as_str :: "json \<Rightarrow> str option" where
  "as_str v = (case v of JString s \<Rightarrow> Some s | _ \<Rightarrow> None)"

fun field :: "json option \<Rightarrow> str list \<Rightarrow> json option" where
  "field None keys = None"
| "field (Some v) [] = Some v"
| "field (Some v) (key # keys) =
     (case as_object v of None \<Rightarrow> None | Some m \<Rightarrow> field (im_get m key) keys)"

definition wrapped_reason :: "json option \<Rightarrow> str option" where
  "wrapped_reason body =
     (let reason = (\<lambda>key. case Option.bind (field body [lit ''error'', lit ''param'', key]) as_str of
                            Some s \<Rightarrow> if s = [] then None else Some s
                          | None \<Rightarrow> None)
      in case reason (lit ''message'') of Some s \<Rightarrow> Some s | None \<Rightarrow> reason (lit ''error''))"

definition described :: "http_response \<Rightarrow> json option \<Rightarrow> str \<Rightarrow> str" where
  "described r body message =
     (let kind = Option.bind (field body [lit ''error'', lit ''type'']) as_str;
          upstream = Option.bind (field body [lit ''providerMetadata'', lit ''gateway'', lit ''routing'', lit ''resolvedProvider'']) as_str;
          said = (case wrapped_reason body of Some reason \<Rightarrow> if reason \<noteq> message then Some reason else None | None \<Rightarrow> None)
      in lit ''HTTP '' @ dec (resp_status r) @ (case kind of Some k \<Rightarrow> lit '' '' @ k | None \<Rightarrow> []) @ lit '': ''
         @ text_prefix (resp_scrub r message) 300
         @ (case upstream of Some up \<Rightarrow> lit '' (via '' @ up @ lit '')'' | None \<Rightarrow> [])
         @ (case said of Some reason \<Rightarrow> lit ''; the provider said: '' @ text_prefix (resp_scrub r reason) 200 | None \<Rightarrow> []))"

definition describe_response :: "serde \<Rightarrow> http_response \<Rightarrow> str" where
  "describe_response serde r =
     (let body = json_value serde r in
      case Option.bind (field body [lit ''error'', lit ''message'']) as_str of
        None \<Rightarrow>
          let excerpt = body_excerpt r
          in lit ''HTTP '' @ dec (resp_status r) @ lit '': '' @ (if excerpt = [] then lit ''(empty body)'' else excerpt)
      | Some message \<Rightarrow> resp_scrub r (described r body message))"

definition response_error :: "serde \<Rightarrow> http_response \<Rightarrow> str \<Rightarrow> decision_error" where
  "response_error serde r detail =
     Decision_Failed (text_prefix (resp_scrub r detail) 300 @ lit ''; '' @ describe_response serde r)"

definition RETRYABLE_STATUS :: "nat list" where
  "RETRYABLE_STATUS = [408, 429, 500, 502, 503, 504, 520, 521, 522, 523, 524, 529]"

definition retryable :: "serde \<Rightarrow> http_response \<Rightarrow> bool" where
  "retryable serde r \<longleftrightarrow>
     resp_status r \<in> set RETRYABLE_STATUS
     \<or> \<not> is_success r
       \<and> (field (json_value serde r) [lit ''error'', lit ''param'', lit ''isRetryable''] = Some (JBool True)
          \<or> field (json_value serde r) [lit ''error'', lit ''isRetryable''] = Some (JBool True))"

section \<open>Questions on the wire\<close>

definition wire_question :: "bool \<Rightarrow> question \<Rightarrow> json" where
  "wire_question gateway q =
     (case q of
        Q_Choice c \<Rightarrow>
          JObject [(lit ''instructions'', JString (cq_instructions c)), (lit ''type'', JString (lit ''choice'')),
                   (lit ''criteria'', JObject (cq_criteria c))]
      | Q_Noul n \<Rightarrow>
          (let criteria = (case nq_true n of Some yes \<Rightarrow> [(lit ''true'', JString yes)] | None \<Rightarrow> [])
                          @ (case nq_false n of Some no \<Rightarrow> [(lit ''false'', JString no)] | None \<Rightarrow> [])
           in JObject ([(lit ''instructions'', JString (nq_instructions n)),
                        (lit ''type'', JString (if gateway then lit ''boolean'' else lit ''noul''))]
                       @ (if criteria = [] then [] else [(lit ''criteria'', JObject criteria)])))
      | Q_Score s \<Rightarrow>
          JObject [(lit ''instructions'', JString (sq_instructions s)), (lit ''type'', JString (lit ''score'')),
                   (lit ''criteria'', JArray (map JString (sq_criteria s)))]
      | Q_Box instructions \<Rightarrow>
          JObject [(lit ''instructions'', JString instructions), (lit ''type'', JString (lit ''box''))])"

definition wire_questions :: "(str, question) index_map \<Rightarrow> bool \<Rightarrow> json" where
  "wire_questions qs gateway = JObject (map (\<lambda>(key, q). (key, wire_question gateway q)) qs)"

section \<open>Values\<close>

definition object_value :: "json option \<Rightarrow> str + (str \<times> json) list" where
  "object_value v = ok_or (lit ''expected an object'') (Option.bind v as_object)"

definition json_number :: "json option \<Rightarrow> str + real" where
  "json_number v =
     (case Option.bind v as_f64 of
        Some (F_Num n) \<Rightarrow> Inr n
      | _ \<Rightarrow> Inl (lit ''expected a finite number''))"

definition probability :: "json option \<Rightarrow> str + real" where
  "probability v =
     and_then (json_number v) (\<lambda>p. if 0 \<le> p \<and> p \<le> 1 then Inr p else Inl (lit ''probability outside [0, 1]''))"

definition token_count :: "json option \<Rightarrow> str + int" where
  "token_count v =
     (case Option.bind v as_i64 of
        Some n \<Rightarrow> if n \<ge> 0 then Inr n else Inl (lit ''expected a nonnegative integer token count'')
      | None \<Rightarrow> Inl (lit ''expected a nonnegative integer token count''))"

text \<open>\<^verbatim>\<open>validation::dollars\<close>.\<close>

definition reported_dollars :: "json option \<Rightarrow> str + real" where
  "reported_dollars v =
     and_then
       (case v of
          Some (JString s) \<Rightarrow>
            (case float_of (JString s) of
               Inr x \<Rightarrow> Inr x
             | Inl _ \<Rightarrow> Inl (lit ''could not convert string to float: '' @ repr s))
        | other \<Rightarrow> map_sum id F_Num (json_number other))
       (\<lambda>x. case x of
              F_Num amount \<Rightarrow> if amount < 0 then Inl (lit ''expected a finite nonnegative cost'') else Inr amount
            | _ \<Rightarrow> Inl (lit ''expected a finite nonnegative cost''))"

section \<open>The sum of a list of probabilities\<close>

text \<open>One value against the partial sums so far: the parts that stay and the sum that is carried.\<close>

fun fsum_add :: "real \<Rightarrow> real list \<Rightarrow> real list" where
  "fsum_add x [] = [x]"
| "fsum_add x (y # partials) =
     (let (x, y) = (if \<bar>x\<bar> < \<bar>y\<bar> then (y, x) else (x, y));
          high = x + y;
          low = y - (high - x)
      in (if low \<noteq> 0 then [low] else []) @ fsum_add high partials)"

text \<open>The partial sums added from the largest down until one leaves a remainder: how many are left, the sum and that
  remainder.\<close>

fun fsum_down :: "real list \<Rightarrow> nat \<Rightarrow> real \<Rightarrow> real \<Rightarrow> nat \<times> real \<times> real" where
  "fsum_down partials 0 high low = (0, high, low)"
| "fsum_down partials (Suc n) high low =
     (let x = high; y = partials ! n; high = x + y; low = y - (high - x)
      in if low \<noteq> 0 then (n, high, low) else fsum_down partials n high low)"

definition fsum :: "real list \<Rightarrow> real" where
  "fsum values =
     (let partials = foldl (\<lambda>partials x. fsum_add x partials) [] values
      in if partials = [] then 0
         else
           (let (n, high, low) = fsum_down partials (length partials - 1) (last partials) 0 in
            if 0 < n \<and> (low < 0 \<and> partials ! (n - 1) < 0 \<or> low > 0 \<and> partials ! (n - 1) > 0)
            then (let y = low * 2; x = high + y in if y = x - high then x else high)
            else high))"

section \<open>Answers\<close>

fun read_probabilities :: "(str \<times> json) list \<Rightarrow> str + (str, real) index_map" where
  "read_probabilities [] = Inr []"
| "read_probabilities ((key, v) # rest) =
     and_then (probability (Some v)) (\<lambda>p. and_then (read_probabilities rest) (\<lambda>ps. Inr ((key, p) # ps)))"

definition tolerance :: "nat \<Rightarrow> real" where
  "tolerance n = max (2 / 100) (5 / 1000 * real n)"

definition probabilities :: "(real \<Rightarrow> f64_form) \<Rightarrow> json option \<Rightarrow> str list \<Rightarrow> str + (str, real) index_map" where
  "probabilities num v keys =
     and_then (object_value v) (\<lambda>raw.
       if keys = [] \<or> length raw \<noteq> length keys \<or> \<not> list_all (\<lambda>key. key \<in> set keys) (im_keys raw)
       then Inl (lit ''probability keys differ from criteria'')
       else
         and_then (read_probabilities raw) (\<lambda>ps.
           if \<bar>fsum (map snd ps) - 1\<bar> > tolerance (length ps) + 1 / 10 ^ 12
           then Inl (lit ''probabilities do not sum to one within '' @ float_str (num (tolerance (length ps))))
           else Inr ps))"

definition expected_type :: "bool \<Rightarrow> question \<Rightarrow> str" where
  "expected_type gateway q =
     (case q of
        Q_Choice _ \<Rightarrow> lit ''choice''
      | Q_Noul _ \<Rightarrow> if gateway then lit ''boolean'' else lit ''noul''
      | Q_Score _ \<Rightarrow> lit ''score''
      | Q_Box _ \<Rightarrow> lit ''box'')"

definition parse_choice :: "(real \<Rightarrow> f64_form) \<Rightarrow> str \<Rightarrow> (str, json) index_map \<Rightarrow> (str, json) index_map \<Rightarrow> json option \<Rightarrow> str + answer" where
  "parse_choice num key criteria answer conf =
     and_then (probabilities num (im_get answer (lit ''probabilities'')) (im_keys criteria)) (\<lambda>ps.
       case Option.bind (im_get answer (lit ''choice'')) as_str of
         Some choice \<Rightarrow>
           if im_get ps choice = None then Inl (lit ''choice outside criteria for '' @ key)
           else and_then (probability conf) (\<lambda>c.
             Inr (A_Choice \<lparr>ca_choice = choice, ca_probabilities = ps, ca_confidence = c\<rparr>))
       | None \<Rightarrow> Inl (lit ''choice outside criteria for '' @ key))"

definition parse_score :: "(real \<Rightarrow> f64_form) \<Rightarrow> str \<Rightarrow> str list \<Rightarrow> (str, json) index_map \<Rightarrow> json option \<Rightarrow> str + answer" where
  "parse_score num key criteria answer conf =
     and_then (probabilities num (im_get answer (lit ''probabilities'')) (map dec [0..<length criteria])) (\<lambda>ps.
     and_then (json_number (im_get answer (lit ''score''))) (\<lambda>score.
       if \<not> (0 \<le> score \<and> score \<le> real (length criteria - 1)) then Inl (lit ''score outside levels for '' @ key)
       else and_then (probability conf) (\<lambda>c.
         Inr (A_Score \<lparr>sa_score = score, sa_probabilities = ps, sa_confidence = c\<rparr>))))"

definition parse_box :: "str \<Rightarrow> (str, json) index_map \<Rightarrow> json option \<Rightarrow> str + answer" where
  "parse_box key answer conf =
     and_then (object_value (im_get answer (lit ''box''))) (\<lambda>raw.
     and_then (probability (im_get raw (lit ''top''))) (\<lambda>top.
     and_then (probability (im_get raw (lit ''bottom''))) (\<lambda>bottom.
     and_then (probability (im_get raw (lit ''left''))) (\<lambda>left.
     and_then (probability (im_get raw (lit ''right''))) (\<lambda>right.
       if top > bottom \<or> left > right then Inl (lit ''box edges cross for '' @ key)
       else
         (let edges = \<lparr>edge_top = top, edge_bottom = bottom, edge_left = left, edge_right = right\<rparr> in
          if conf = None \<or> conf = Some JNull then Inr (A_Box edges None)
          else and_then (probability conf) (\<lambda>c. Inr (A_Box edges (Some c)))))))))"

definition parse_answer :: "(real \<Rightarrow> f64_form) \<Rightarrow> bool \<Rightarrow> (str, json) index_map option \<Rightarrow> str \<Rightarrow> question \<Rightarrow> json option \<Rightarrow> str + answer" where
  "parse_answer num gateway confidences key q v =
     and_then (object_value v) (\<lambda>answer.
       if Option.bind (im_get answer (lit ''type'')) as_str \<noteq> Some (expected_type gateway q)
       then Inl (lit ''incorrect answer type for '' @ key)
       else
         (let conf = (if gateway then Option.bind confidences (\<lambda>c. im_get c key) else im_get answer (lit ''confidence''))
          in case q of
               Q_Choice c \<Rightarrow> parse_choice num key (cq_criteria c) answer conf
             | Q_Noul _ \<Rightarrow>
                 map_sum id A_Noul (probability (im_get answer (if gateway then lit ''probability'' else lit ''noul'')))
             | Q_Score s \<Rightarrow> parse_score num key (sq_criteria s) answer conf
             | Q_Box _ \<Rightarrow> parse_box key answer conf))"

fun parse_each ::
  "(real \<Rightarrow> f64_form) \<Rightarrow> bool \<Rightarrow> (str, json) index_map option \<Rightarrow> (str, json) index_map \<Rightarrow> (str, question) index_map
     \<Rightarrow> str + (str, answer) index_map" where
  "parse_each num gateway confidences raw [] = Inr []"
| "parse_each num gateway confidences raw ((key, q) # qs) =
     and_then (parse_answer num gateway confidences key q (im_get raw key)) (\<lambda>a.
     and_then (parse_each num gateway confidences raw qs) (\<lambda>answers. Inr ((key, a) # answers)))"

definition parse_answers ::
  "(real \<Rightarrow> f64_form) \<Rightarrow> json option \<Rightarrow> (str, question) index_map \<Rightarrow> bool \<Rightarrow> (str, json) index_map option
     \<Rightarrow> str + (str, answer) index_map" where
  "parse_answers num v qs gateway confidences =
     and_then (object_value v) (\<lambda>raw.
       if length raw \<noteq> length qs \<or> \<not> list_all (\<lambda>key. im_get qs key \<noteq> None) (im_keys raw)
       then Inl (lit ''answer ids differ from question ids'')
       else parse_each num gateway confidences raw qs)"

section \<open>What a parsed answer is\<close>

lemma fsum_add_sum: "fsum_add x partials = [x + sum_list partials]"
  by (induction x partials rule: fsum_add.induct) (simp_all add: Let_def)

lemma fsum_sum_list: "fsum xs = sum_list xs"
proof -
  have partials: "foldl (\<lambda>ps x. fsum_add x ps) ps xs = (if xs = [] then ps else [sum_list ps + sum_list xs])" for ps
    by (induction xs arbitrary: ps) (simp_all add: fsum_add_sum)
  show ?thesis unfolding fsum_def partials by (simp add: Let_def)
qed

definition unit_interval :: "real \<Rightarrow> bool" where
  "unit_interval p \<longleftrightarrow> 0 \<le> p \<and> p \<le> 1"

text \<open>Probabilities over the keys offered, one each, that sum to one up to the wire's rounding.\<close>

definition distribution :: "str list \<Rightarrow> (str, real) index_map \<Rightarrow> bool" where
  "distribution keys ps \<longleftrightarrow>
     ps \<noteq> [] \<and> length ps = length keys \<and> set (im_keys ps) \<subseteq> set keys \<and> list_all unit_interval (map snd ps)
     \<and> \<bar>sum_list (map snd ps) - 1\<bar> \<le> tolerance (length ps) + 1 / 10 ^ 12"

fun answer_fits :: "question \<Rightarrow> answer \<Rightarrow> bool" where
  "answer_fits (Q_Choice c) (A_Choice a) \<longleftrightarrow>
     ca_choice a \<in> set (im_keys (ca_probabilities a)) \<and> distribution (im_keys (cq_criteria c)) (ca_probabilities a)
     \<and> unit_interval (ca_confidence a)"
| "answer_fits (Q_Noul _) (A_Noul p) \<longleftrightarrow> unit_interval p"
| "answer_fits (Q_Score s) (A_Score a) \<longleftrightarrow>
     0 \<le> sa_score a \<and> sa_score a \<le> real (length (sq_criteria s) - 1)
     \<and> distribution (map dec [0..<length (sq_criteria s)]) (sa_probabilities a) \<and> unit_interval (sa_confidence a)"
| "answer_fits (Q_Box _) (A_Box e conf) \<longleftrightarrow>
     unit_interval (edge_top e) \<and> unit_interval (edge_bottom e) \<and> unit_interval (edge_left e) \<and> unit_interval (edge_right e)
     \<and> edge_top e \<le> edge_bottom e \<and> edge_left e \<le> edge_right e \<and> (\<forall>c. conf = Some c \<longrightarrow> unit_interval c)"
| "answer_fits _ _ \<longleftrightarrow> False"

definition answers_fit :: "(str, question) index_map \<Rightarrow> (str, answer) index_map \<Rightarrow> bool" where
  "answers_fit qs answers \<longleftrightarrow> list_all2 (\<lambda>(k, q) (k', a). k = k' \<and> answer_fits q a) qs answers"

lemma probability_unit: "probability v = Inr p \<Longrightarrow> unit_interval p"
  by (auto simp: probability_def and_then_Inr unit_interval_def split: if_splits)

lemma read_probabilities_facts:
  "read_probabilities raw = Inr ps \<Longrightarrow> im_keys ps = im_keys raw \<and> list_all unit_interval (map snd ps)"
  by (induction raw arbitrary: ps rule: read_probabilities.induct) (auto simp: and_then_Inr probability_unit)

lemma probabilities_distribution:
  assumes "probabilities num v keys = Inr ps"
  shows "distribution keys ps"
proof -
  obtain raw where raw: "keys \<noteq> []" "length raw = length keys" "set (im_keys raw) \<subseteq> set keys"
    and ps: "read_probabilities raw = Inr ps" "\<not> \<bar>fsum (map snd ps) - 1\<bar> > tolerance (length ps) + 1 / 10 ^ 12"
    using assms by (auto simp: probabilities_def and_then_Inr list_all_iff split: if_splits)
  have keys: "im_keys ps = im_keys raw" and units: "list_all unit_interval (map snd ps)"
    using read_probabilities_facts [OF ps(1)] by auto
  have "length ps = length raw" using keys by (metis length_map)
  then have "length ps = length keys" "ps \<noteq> []" using raw(1,2) by auto
  then show ?thesis using raw(3) keys units ps(2) by (simp add: distribution_def fsum_sum_list not_less)
qed

lemma parse_answer_fits: "parse_answer num gateway confidences key q v = Inr a \<Longrightarrow> answer_fits q a"
proof (cases q)
  case (Q_Choice c)
  moreover assume "parse_answer num gateway confidences key q v = Inr a"
  ultimately obtain answer conf where "parse_choice num key (cq_criteria c) answer conf = Inr a"
    by (auto simp: parse_answer_def and_then_Inr Let_def split: if_splits)
  then obtain ps choice c' where "probabilities num (im_get answer (lit ''probabilities'')) (im_keys (cq_criteria c)) = Inr ps"
    and "im_get ps choice \<noteq> None" and "probability conf = Inr c'"
    and "a = A_Choice \<lparr>ca_choice = choice, ca_probabilities = ps, ca_confidence = c'\<rparr>"
    by (cases "Option.bind (im_get answer (lit ''choice'')) as_str")
      (auto simp: parse_choice_def and_then_Inr split: if_splits)
  then show ?thesis by (auto simp: Q_Choice map_of_eq_None_iff probability_unit probabilities_distribution)
next
  case (Q_Noul n)
  moreover assume "parse_answer num gateway confidences key q v = Inr a"
  ultimately obtain w where "map_sum id A_Noul (probability w) = Inr a"
    by (auto simp: parse_answer_def and_then_Inr Let_def split: if_splits)
  then show ?thesis by (cases "probability w") (auto simp: Q_Noul probability_unit)
next
  case (Q_Score s)
  moreover assume "parse_answer num gateway confidences key q v = Inr a"
  ultimately obtain answer conf where "parse_score num key (sq_criteria s) answer conf = Inr a"
    by (auto simp: parse_answer_def and_then_Inr Let_def split: if_splits)
  then show ?thesis
    by (auto simp: Q_Score parse_score_def and_then_Inr probability_unit probabilities_distribution split: if_splits)
next
  case (Q_Box i)
  moreover assume "parse_answer num gateway confidences key q v = Inr a"
  ultimately obtain answer conf where "parse_box key answer conf = Inr a"
    by (auto simp: parse_answer_def and_then_Inr Let_def split: if_splits)
  then show ?thesis
    by (auto simp: Q_Box parse_box_def and_then_Inr probability_unit Let_def not_less split: if_splits)
qed

lemma parse_each_fits: "parse_each num gateway confidences raw qs = Inr answers \<Longrightarrow> answers_fit qs answers"
  by (induction qs arbitrary: answers) (auto simp: answers_fit_def and_then_Inr parse_answer_fits)

lemma parse_answers_fit: "parse_answers num v qs gateway confidences = Inr answers \<Longrightarrow> answers_fit qs answers"
  by (auto simp: parse_answers_def and_then_Inr parse_each_fits split: if_splits)

lemma answers_fit_keys: "answers_fit qs answers \<Longrightarrow> im_keys answers = im_keys qs"
  unfolding answers_fit_def by (induction qs answers rule: list_all2_induct) auto

lemma answers_fit_get: "answers_fit qs answers \<Longrightarrow> im_get answers key = Some a \<Longrightarrow> \<exists>q. im_get qs key = Some q \<and> answer_fits q a"
  unfolding answers_fit_def by (induction qs answers rule: list_all2_induct) (auto split: if_splits)

section \<open>A reply that writes the answers\<close>

text \<open>The wire form of an answer, as the direct interface gives it; \<open>num\<close> writes its numbers.\<close>

definition wire_float :: "(real \<Rightarrow> f64_form) \<Rightarrow> real \<Rightarrow> json" where
  "wire_float num x = JFloat (num x)"

definition wire_distribution :: "(real \<Rightarrow> f64_form) \<Rightarrow> (str, real) index_map \<Rightarrow> json" where
  "wire_distribution num ps = JObject (map (\<lambda>(k, p). (k, wire_float num p)) ps)"

fun wire_answer :: "(real \<Rightarrow> f64_form) \<Rightarrow> answer \<Rightarrow> json" where
  "wire_answer num (A_Choice a) =
     JObject [(lit ''type'', JString (lit ''choice'')), (lit ''choice'', JString (ca_choice a)),
              (lit ''probabilities'', wire_distribution num (ca_probabilities a)), (lit ''confidence'', wire_float num (ca_confidence a))]"
| "wire_answer num (A_Noul p) = JObject [(lit ''type'', JString (lit ''noul'')), (lit ''noul'', wire_float num p)]"
| "wire_answer num (A_Score a) =
     JObject [(lit ''type'', JString (lit ''score'')), (lit ''score'', wire_float num (sa_score a)),
              (lit ''probabilities'', wire_distribution num (sa_probabilities a)), (lit ''confidence'', wire_float num (sa_confidence a))]"
| "wire_answer num (A_Box e conf) =
     JObject ([(lit ''type'', JString (lit ''box'')),
               (lit ''box'', JObject [(lit ''top'', wire_float num (edge_top e)), (lit ''bottom'', wire_float num (edge_bottom e)),
                                      (lit ''left'', wire_float num (edge_left e)), (lit ''right'', wire_float num (edge_right e))])]
              @ (case conf of Some c \<Rightarrow> [(lit ''confidence'', wire_float num c)] | None \<Rightarrow> []))"

definition wire_answers :: "(real \<Rightarrow> f64_form) \<Rightarrow> (str, answer) index_map \<Rightarrow> json" where
  "wire_answers num answers = JObject (map (\<lambda>(k, a). (k, wire_answer num a)) answers)"

text \<open>The numbers of an answer, which \<open>num\<close> has to write so that they read back.\<close>

fun answer_numbers :: "answer \<Rightarrow> real set" where
  "answer_numbers (A_Choice a) = insert (ca_confidence a) (snd ` set (ca_probabilities a))"
| "answer_numbers (A_Noul p) = {p}"
| "answer_numbers (A_Score a) = insert (sa_score a) (insert (sa_confidence a) (snd ` set (sa_probabilities a)))"
| "answer_numbers (A_Box e conf) = {edge_top e, edge_bottom e, edge_left e, edge_right e} \<union> set_option conf"

definition reads_back :: "(real \<Rightarrow> f64_form) \<Rightarrow> real set \<Rightarrow> bool" where
  "reads_back num xs \<longleftrightarrow> (\<forall>x\<in>xs. f64_of (num x) = F_Num x)"

lemma number_back: "reads_back num {x} \<Longrightarrow> json_number (Some (wire_float num x)) = Inr x"
  by (simp add: reads_back_def json_number_def wire_float_def)

lemma probability_back: "reads_back num {x} \<Longrightarrow> unit_interval x \<Longrightarrow> probability (Some (wire_float num x)) = Inr x"
  by (simp add: probability_def number_back unit_interval_def)

lemma read_probabilities_back:
  "reads_back num (snd ` set ps) \<Longrightarrow> list_all unit_interval (map snd ps) \<Longrightarrow>
   read_probabilities (map (\<lambda>(k, p). (k, wire_float num p)) ps) = Inr ps"
  by (induction ps) (auto simp: reads_back_def probability_back)

lemma probabilities_back:
  assumes "reads_back num (snd ` set ps)" and "distribution keys ps"
  shows "probabilities num (Some (wire_distribution num ps)) keys = Inr ps"
proof -
  have "read_probabilities (map (\<lambda>(k, p). (k, wire_float num p)) ps) = Inr ps"
    using assms by (intro read_probabilities_back) (auto simp: distribution_def)
  moreover have "keys \<noteq> []" using assms(2) by (auto simp: distribution_def)
  ultimately show ?thesis
    using assms(2)
    by (auto simp: probabilities_def wire_distribution_def object_value_def as_object_def distribution_def fsum_sum_list
        list_all_iff image_image case_prod_beta not_less)
qed

lemma reads_back_parts: "reads_back num A \<Longrightarrow> B \<subseteq> A \<Longrightarrow> reads_back num B"
  by (auto simp: reads_back_def)

lemma parse_answer_back:
  assumes "answer_fits q a" and "reads_back num (answer_numbers a)"
  shows "parse_answer num False None key q (Some (wire_answer num a)) = Inr a"
proof (cases "(q, a)" rule: answer_fits.cases)
  case (1 c b)
  have "probabilities num (Some (wire_distribution num (ca_probabilities b))) (im_keys (cq_criteria c)) = Inr (ca_probabilities b)"
    using assms 1 by (intro probabilities_back) (auto elim: reads_back_parts)
  moreover have "probability (Some (wire_float num (ca_confidence b))) = Inr (ca_confidence b)"
    using assms 1 by (intro probability_back) (auto elim: reads_back_parts)
  moreover have "im_get (ca_probabilities b) (ca_choice b) \<noteq> None" using assms 1 by (simp add: map_of_eq_None_iff)
  ultimately show ?thesis
    using 1
    by (auto simp: parse_answer_def parse_choice_def object_value_def as_object_def as_str_def expected_type_def Let_def lit_def)
next
  case (2 n p)
  then show ?thesis
    using assms probability_back [of num p]
    by (auto simp: parse_answer_def object_value_def as_object_def as_str_def expected_type_def lit_def)
next
  case (3 s b)
  have "probabilities num (Some (wire_distribution num (sa_probabilities b))) (map dec [0..<length (sq_criteria s)])
      = Inr (sa_probabilities b)"
    using assms 3 by (intro probabilities_back) (auto elim: reads_back_parts)
  moreover have "probability (Some (wire_float num (sa_confidence b))) = Inr (sa_confidence b)"
    "json_number (Some (wire_float num (sa_score b))) = Inr (sa_score b)"
    using assms 3 by (auto intro!: probability_back number_back elim: reads_back_parts)
  ultimately show ?thesis
    using assms(1) 3
    by (auto simp: parse_answer_def parse_score_def object_value_def as_object_def as_str_def expected_type_def Let_def lit_def)
next
  case (4 i e conf)
  have "probability (Some (wire_float num (edge_top e))) = Inr (edge_top e)"
    "probability (Some (wire_float num (edge_bottom e))) = Inr (edge_bottom e)"
    "probability (Some (wire_float num (edge_left e))) = Inr (edge_left e)"
    "probability (Some (wire_float num (edge_right e))) = Inr (edge_right e)"
    "conf = Some c \<Longrightarrow> probability (Some (wire_float num c)) = Inr c" for c
    using assms 4 by (auto intro!: probability_back elim: reads_back_parts)
  then show ?thesis
    using assms(1) 4
    by (cases conf)
      (auto simp: parse_answer_def parse_box_def object_value_def as_object_def as_str_def expected_type_def Let_def lit_def wire_float_def)
qed (use assms(1) in simp_all)

lemma parse_each_back:
  assumes "answers_fit qs answers" and "\<forall>a\<in>snd ` set answers. reads_back num (answer_numbers a)"
    and "\<And>k a. (k, a) \<in> set answers \<Longrightarrow> im_get raw k = Some (wire_answer num a)"
  shows "parse_each num False None raw qs = Inr answers"
  using assms unfolding answers_fit_def
proof (induction qs answers rule: list_all2_induct)
  case (Cons x xs y ys)
  obtain k q a where xy: "x = (k, q)" "y = (k, a)" "answer_fits q a" using Cons.hyps(1) by (auto split: prod.splits)
  have "im_get raw k = Some (wire_answer num a)" using Cons.prems(2) xy by simp
  moreover have "parse_each num False None raw xs = Inr ys" using Cons.IH Cons.prems by simp
  ultimately show ?case using xy Cons.prems(1) by (simp add: parse_answer_back)
qed simp


definition example_questions :: "(str, question) index_map" where
  "example_questions =
     [(lit ''green'', Q_Noul (noul_new (lit ''Is it green?'') None None)),
      (lit ''col'', Q_Choice \<lparr>cq_instructions = [], cq_criteria = [(lit ''blue'', JNull), (lit ''red'', JNull)]\<rparr>)]"

definition example_answers :: "(str, answer) index_map" where
  "example_answers =
     [(lit ''green'', A_Noul (1 / 2)),
      (lit ''col'', A_Choice \<lparr>ca_choice = lit ''red'', ca_probabilities = [(lit ''red'', 1), (lit ''blue'', 0)], ca_confidence = 1\<rparr>)]"

definition example_num :: "real \<Rightarrow> f64_form" where
  "example_num x = (if x = 1 / 2 then Finite False (lit ''5'') (-1) else if x = 1 then Finite False (lit ''1'') 0 else Finite False (lit ''0'') 0)"


section \<open>Bytes read back\<close>

lemma utf8_sequence_two:
  "2 \<le> a \<Longrightarrow> a < 32 \<Longrightarrow> d < 64 \<Longrightarrow> utf8_sequence (0xC0 + a) ((0x80 + d) # rest) = (Some (a * 64 + d), 1)"
  by (simp add: utf8_sequence_def utf8_cont_def Let_def)

lemma utf8_sequence_three:
  assumes "a < 16" "b < 64" "d < 64" "a = 0 \<longrightarrow> 32 \<le> b" "a = 13 \<longrightarrow> b < 32"
  shows "utf8_sequence (0xE0 + a) ((0x80 + b) # (0x80 + d) # rest) = (Some (a * 4096 + b * 64 + d), 2)"
proof -
  have "utf8_second (0xE0 + a) (0x80 + b)" using assms by (auto simp: utf8_second_def utf8_cont_def)
  then show ?thesis using assms(1-3) by (simp add: utf8_sequence_def utf8_cont_def Let_def)
qed

lemma utf8_sequence_four:
  assumes "a < 5" "b < 64" "d < 64" "e < 64" "a = 0 \<longrightarrow> 16 \<le> b" "a = 4 \<longrightarrow> b < 16"
  shows "utf8_sequence (0xF0 + a) ((0x80 + b) # (0x80 + d) # (0x80 + e) # rest)
     = (Some (a * 262144 + b * 4096 + d * 64 + e), 3)"
proof -
  have "utf8_second (0xF0 + a) (0x80 + b)" using assms by (auto simp: utf8_second_def utf8_cont_def)
  then show ?thesis using assms(1-4) by (simp add: utf8_sequence_def utf8_cont_def Let_def)
qed

lemma utf8_sequence_char:
  assumes "scalar c" and "0x80 \<le> c"
  shows "utf8_sequence (hd (utf8_char c)) (tl (utf8_char c) @ rest) = (Some c, length (utf8_char c) - 1)"
    and "0x80 \<le> hd (utf8_char c)"
proof -
  have parts: "c div 64 * 64 + c mod 64 = c" "c div 4096 * 64 + c div 64 mod 64 = c div 64"
    "c div 262144 * 64 + c div 4096 mod 64 = c div 4096"
  proof -
    have "c div 64 div 64 = c div 4096" "c div 4096 div 64 = c div 262144" by (simp_all add: div_mult2_eq [symmetric])
    then show "c div 64 * 64 + c mod 64 = c" "c div 4096 * 64 + c div 64 mod 64 = c div 64"
      "c div 262144 * 64 + c div 4096 mod 64 = c div 4096" by (metis div_mult_mod_eq)+
  qed
  then have three: "c div 4096 * 4096 + c div 64 mod 64 * 64 + c mod 64 = c"
    and four: "c div 262144 * 262144 + c div 4096 mod 64 * 4096 + c div 64 mod 64 * 64 + c mod 64 = c"
    by linarith+
  consider "c < 0x800" | "0x800 \<le> c" "c < 0x10000" | "0x10000 \<le> c" by linarith
  then show "utf8_sequence (hd (utf8_char c)) (tl (utf8_char c) @ rest) = (Some c, length (utf8_char c) - 1)"
  proof cases
    case 1
    then have "2 \<le> c div 64" "c div 64 < 32" using assms(2) by auto
    then have "utf8_sequence (0xC0 + c div 64) ((0x80 + c mod 64) # rest) = (Some c, 1)"
      using parts(1) utf8_sequence_two [of "c div 64" "c mod 64" rest] by simp
    moreover have "\<not> c < 0x80" using assms(2) by simp
    ultimately show ?thesis using 1 by (simp add: utf8_char_def)
  next
    case 2
    then have "c div 4096 < 16" "c div 64 < 1024" "32 \<le> c div 64" by auto
    moreover have "c div 64 < 864 \<or> 896 \<le> c div 64" using assms(1) 2 by (auto simp: scalar_def)
    ultimately have "c div 4096 = 0 \<longrightarrow> 32 \<le> c div 64 mod 64" "c div 4096 = 13 \<longrightarrow> c div 64 mod 64 < 32"
      using parts(2) mod_less_divisor [of 64 "c div 64"] by linarith+
    then show ?thesis
      using 2 three \<open>c div 4096 < 16\<close> utf8_sequence_three [of "c div 4096" "c div 64 mod 64" "c mod 64" rest]
      by (simp add: utf8_char_def)
  next
    case 3
    then have "c div 262144 < 5" "16 \<le> c div 4096" "c div 4096 < 272" using assms(1) by (auto simp: scalar_def)
    moreover then have "c div 262144 = 0 \<longrightarrow> 16 \<le> c div 4096 mod 64" "c div 262144 = 4 \<longrightarrow> c div 4096 mod 64 < 16"
      using parts(3) by linarith+
    ultimately show ?thesis
      using 3 four utf8_sequence_four [of "c div 262144" "c div 4096 mod 64" "c div 64 mod 64" "c mod 64" rest]
      by (simp add: utf8_char_def)
  qed
  show "0x80 \<le> hd (utf8_char c)" using assms(2) by (auto simp: utf8_char_def)
qed

lemma utf8_lossy_char:
  assumes "scalar c"
  shows "utf8_lossy (utf8_char c @ rest) = c # utf8_lossy rest"
proof (cases "c < 0x80")
  case False
  have ne: "utf8_char c \<noteq> []" by (simp add: utf8_char_def)
  have "utf8_lossy (hd (utf8_char c) # tl (utf8_char c) @ rest)
      = c # utf8_lossy (drop (length (utf8_char c) - 1) (tl (utf8_char c) @ rest))"
    using False utf8_sequence_char(1) [OF assms, of rest] utf8_sequence_char(2) [OF assms] by simp
  moreover have "hd (utf8_char c) # tl (utf8_char c) @ rest = utf8_char c @ rest" using ne by simp
  ultimately show ?thesis using ne by simp
qed (simp add: utf8_char_def)

lemma utf8_lossy_utf8: "list_all scalar s \<Longrightarrow> utf8_lossy (utf8 s) = s"
  unfolding utf8_def by (induction s) (simp_all add: utf8_lossy_char)

section \<open>The credential in error text\<close>

lemma replace_all_Nil: "replace_all c r [] = []"
  by (simp add: replace_all.simps)

lemma replace_all_hit: "c \<noteq> [] \<Longrightarrow> prefix c s \<Longrightarrow> replace_all c r s = r @ replace_all c r (drop (length c) s)"
  by (cases s) (simp_all add: replace_all.simps [of c r "_ # _"])

lemma replace_all_miss: "c \<noteq> [] \<Longrightarrow> \<not> prefix c (x # xs) \<Longrightarrow> replace_all c r (x # xs) = x # replace_all c r xs"
  by (simp add: replace_all.simps [of c r "x # xs"])

lemma replaced_before_marker:
  "m \<notin> set t \<Longrightarrow> prefix t (replace_all c (m # ms) s) \<Longrightarrow> prefix t s"
proof (induction c "m # ms" s arbitrary: t rule: replace_all.induct)
  case (1 c s)
  show ?case
  proof (cases "t = [] \<or> c = [] \<or> s = []")
    case True
    then show ?thesis using 1(4) replace_all.simps [of "[]" "m # ms" s] by (auto simp: replace_all_Nil)
  next
    case False
    then obtain x xs y ys where s: "s = x # xs" and t: "t = y # ys" by (metis neq_Nil_conv)
    have "\<not> prefix c s" using 1(3,4) False t by (auto simp: replace_all_hit)
    then have "replace_all c (m # ms) s = x # replace_all c (m # ms) xs" using False s by (simp add: replace_all_miss)
    then show ?thesis using 1(2) [of x xs ys] 1(3,4) \<open>\<not> prefix c s\<close> False s t by simp
  qed
qed

lemma sublist_tail: "\<not> prefix c (x # xs) \<Longrightarrow> sublist c (x # xs) \<Longrightarrow> sublist c xs"
  by (metis sublist_Cons_right)

lemma sublist_crossing:
  assumes "sublist c (xs @ ys)" and "\<not> sublist c xs" and "\<not> sublist c ys" and "xs \<noteq> []"
  shows "last xs \<in> set c"
proof -
  obtain c1 c2 where c: "c = c1 @ c2" "suffix c1 xs" "prefix c2 ys" using assms(1-3) by (auto simp: sublist_append)
  then have "c1 \<noteq> []" using assms(3) prefix_imp_sublist by auto
  then have "last c1 = last xs" using c(2) by (auto simp: suffix_def)
  then show ?thesis using \<open>c1 \<noteq> []\<close> c(1) by (metis UnI1 last_in_set set_append)
qed

lemma replaced_gone:
  assumes "c \<noteq> []" and "m \<notin> set c" and "last (m # ms) \<notin> set c" and "\<not> sublist c (m # ms)"
  shows "\<not> sublist c (replace_all c (m # ms) s)"
proof (induction s rule: length_induct)
  case (1 s)
  show ?case
  proof (cases s)
    case Nil
    then show ?thesis using assms(1) by (simp add: replace_all.simps)
  next
    case (Cons x xs)
    show ?thesis
    proof (cases "prefix c s")
      case True
      then have "length (drop (length c) s) < length s" using assms(1) Cons by (cases c) auto
      then have "\<not> sublist c (replace_all c (m # ms) (drop (length c) s))" using 1 by blast
      then have "\<not> sublist c ((m # ms) @ replace_all c (m # ms) (drop (length c) s))"
        using sublist_crossing [OF _ assms(4)] assms(3) by blast
      then show ?thesis using replace_all_hit [OF assms(1) True] by simp
    next
      case False
      then have unfold: "replace_all c (m # ms) s = x # replace_all c (m # ms) xs"
        using Cons assms(1) by (simp add: replace_all_miss)
      have "\<not> prefix c (x # replace_all c (m # ms) xs)"
        using replaced_before_marker [OF assms(2), of c ms s] False unfold by metis
      moreover have "\<not> sublist c (replace_all c (m # ms) xs)" using 1 Cons by simp
      ultimately show ?thesis unfolding unfold by (metis sublist_tail)
    qed
  qed
qed

text \<open>A token of the bearer scheme, long enough that no fixed text of a message holds it.\<close>

definition bearer_token :: "str \<Rightarrow> bool" where
  "bearer_token c \<longleftrightarrow> 16 \<le> length c \<and> list_all (\<lambda>x. is_alnum x \<or> x \<in> set (lit ''-._~+/='')) c"

lemma bearer_token_not:
  assumes "bearer_token c"
  shows "32 \<notin> set c" "91 \<notin> set c" "93 \<notin> set c" "59 \<notin> set c" "length s < 16 \<Longrightarrow> \<not> sublist c s"
proof -
  show "32 \<notin> set c" "91 \<notin> set c" "93 \<notin> set c" "59 \<notin> set c"
    using assms by (auto simp: bearer_token_def list_all_iff ascii_defs lit_def dest!: bspec)
  show "length s < 16 \<Longrightarrow> \<not> sublist c s" using assms sublist_length_le [of c s] by (auto simp: bearer_token_def)
qed

lemma scrub_hides:
  assumes "bearer_token c"
  shows "\<not> sublist c (scrub s c)"
proof -
  have marker: "lit ''[api key]'' = 91 # lit ''api key]''" by (simp add: lit_def)
  have "\<not> sublist c (replace_all c (91 # lit ''api key]'') s)"
  proof (rule replaced_gone)
    show "c \<noteq> []" using assms by (auto simp: bearer_token_def)
    show "91 \<notin> set c" by (rule bearer_token_not(2) [OF assms])
    show "last (91 # lit ''api key]'') \<notin> set c" using bearer_token_not(3) [OF assms] by (simp add: lit_def)
    show "\<not> sublist c (91 # lit ''api key]'')" by (rule bearer_token_not(5) [OF assms]) simp
  qed
  then show ?thesis unfolding scrub_def marker using assms by (auto simp: bearer_token_def)
qed

lemma scrub_cut_hides: "bearer_token c \<Longrightarrow> \<not> sublist c (text_prefix (scrub s c) n)"
  unfolding text_prefix_def using scrub_hides sublist_order.order.trans sublist_take by blast

lemma describe_hides:
  assumes "bearer_token (resp_credential r)" and "resp_status r < 65536"
  shows "\<not> sublist (resp_credential r) (describe_response serde r)"
proof (cases "Option.bind (field (json_value serde r) [lit ''error'', lit ''message'']) as_str")
  case None
  let ?head = "lit ''HTTP '' @ dec (resp_status r) @ lit '': ''"
  let ?rest = "if body_excerpt r = [] then lit ''(empty body)'' else body_excerpt r"
  have "length (dec (resp_status r)) \<le> 5" by (rule length_dec_bound) (use assms(2) in simp_all)
  then have head: "\<not> sublist (resp_credential r) ?head" by (intro bearer_token_not(5) [OF assms(1)]) simp
  have "last ?head = 32" by (simp add: lit_def)
  moreover have "\<not> sublist (resp_credential r) ?rest"
    using scrub_cut_hides [OF assms(1)] bearer_token_not(5) [OF assms(1), of "lit ''(empty body)''"]
    by (simp add: body_excerpt_def resp_scrub_def)
  ultimately have "\<not> sublist (resp_credential r) (?head @ ?rest)"
    using sublist_crossing [OF _ head] bearer_token_not(1) [OF assms(1)] by (metis append_is_Nil_conv dec_nonempty)
  then show ?thesis using None by (simp add: describe_response_def Let_def)
qed (simp add: describe_response_def Let_def resp_scrub_def scrub_hides [OF assms(1)])

text \<open>
  C16: The text of a failed response never shows the key it was requested with.  Some providers echo a rejected key back;
  for a bearer token of sixteen characters or more, neither the description of a response nor the error raised for
  one, whatever the detail quotes of the body, holds the token, also where the text is cut.
\<close>

theorem errors_hide_credential:
  assumes "bearer_token (resp_credential r)" and "resp_status r < 65536"
  shows "\<not> sublist (resp_credential r) (describe_response serde r)
    \<and> (response_error serde r detail = Decision_Failed e \<longrightarrow> \<not> sublist (resp_credential r) e)"
proof -
  let ?c = "resp_credential r" and ?d = "describe_response serde r"
  let ?cut = "text_prefix (resp_scrub r detail) 300"
  have d: "\<not> sublist ?c ?d" by (rule describe_hides [OF assms])
  have semi: "\<not> sublist ?c (lit ''; '')" by (rule bearer_token_not(5) [OF assms(1)]) simp
  have "\<not> sublist ?c (lit ''; '' @ ?d)"
    using sublist_crossing [OF _ semi d] bearer_token_not(1) [OF assms(1)] by (auto simp: lit_def)
  moreover have "\<not> sublist ?c ?cut" unfolding resp_scrub_def by (rule scrub_cut_hides [OF assms(1)])
  moreover have "xs1 \<noteq> ?c" if "suffix xs1 ?cut" for xs1 using calculation(2) that suffix_imp_sublist by blast
  moreover have "p = []" if "prefix p (lit ''; '' @ ?d)" "59 \<notin> set p" for p
    using that by (cases p) (auto simp: lit_def)
  ultimately have "\<not> sublist ?c (?cut @ lit ''; '' @ ?d)"
    using bearer_token_not(4) [OF assms(1)] unfolding sublist_append [of ?c ?cut] by (metis Un_iff append_Nil2 set_append)
  then show ?thesis using d by (auto simp: response_error_def)
qed

definition example_refusal :: http_response where
  "example_refusal = \<lparr>resp_status = 401, resp_headers = [], resp_body = utf8 (lit ''bad key sk-0123456789abcdef''),
     resp_credential = lit ''sk-0123456789abcdef''\<rparr>"

theorem errors_hide_credential_witness:
  "describe_response (\<lambda>_. Inl \<lparr>se_text = [], se_line = 1, se_column = 1\<rparr>) example_refusal = lit ''HTTP 401: bad key [api key]''
   \<and> \<not> sublist (lit ''sk-0123456789abcdef'') (describe_response (\<lambda>_. Inl \<lparr>se_text = [], se_line = 1, se_column = 1\<rparr>) example_refusal)"
proof -
  have "bearer_token (resp_credential example_refusal)" "resp_status example_refusal < 65536"
    "resp_credential example_refusal = lit ''sk-0123456789abcdef''" by code_simp+
  moreover have "describe_response (\<lambda>_. Inl \<lparr>se_text = [], se_line = 1, se_column = 1\<rparr>) example_refusal = lit ''HTTP 401: bad key [api key]''"
    by code_simp
  ultimately show ?thesis
    using errors_hide_credential [of example_refusal "\<lambda>_. Inl \<lparr>se_text = [], se_line = 1, se_column = 1\<rparr>"] by simp
qed

end
