(* ===== verification/Sending.thy ===== *)
theory Sending
  imports Replies
begin

text \<open>
  One request to a model provider (\<^verbatim>\<open>crates/fastbrowse-clients/src/http.rs\<close> and the first half of
  \<^verbatim>\<open>crates/fastbrowse-clients/src/validation.rs\<close>): the request as it is sent, what a call counts of the requests it
  sent, the retry of an overloaded or dropped request, and the receipts.

  A call is a function of the world of the network: the log of the requests sent with what came back, the waits, and the
  lists of receipts the spend scopes share.  The transport, the clock, \<^verbatim>\<open>serde_json\<close> and
  the host of an address (\<^verbatim>\<open>url\<close>) are the parameters of \<open>net_env\<close>, with the texts a float is written as; transport and clock may answer
  anything, depending on all that happened before, since the world counts every reading of the clock and logs every
  request.  Trace events and log lines are left out, and so is the cancellation of a call, which drops it between two steps.
\<close>

section \<open>The network\<close>

datatype transport_error = Transport_Timeout str | Transport_Transient str | Transport_Fatal str

datatype http_method = Get | Post

record http_request =
  rq_method :: http_method
  rq_url :: str
  rq_headers :: "(str \<times> str) list"
  rq_body :: str
  rq_max_bytes :: "nat option"
  rq_seconds :: real

text \<open>Where a spend scope keeps its lines: the ledger's own, or a caller's list.  The number is the identity of the shared object.\<close>

datatype lines_ref = Lines_Ledger nat | Lines_Paid nat

record net_world =
  nw_posts :: "(http_request \<times> (transport_error + http_response)) list"
  nw_waits :: "real list"
  nw_ticks :: nat
  nw_ledgers :: "nat \<Rightarrow> ledger"
  nw_paid :: "nat \<Rightarrow> cost_line list"
  nw_pending :: "nat \<Rightarrow> lines_ref list"
  nw_next :: nat
  nw_on_backup :: bool

record net_env =
  net_serde :: serde
  net_num :: "real \<Rightarrow> f64_form"
  net_float :: "f64_form \<Rightarrow> str"
  net_transport :: "net_world \<Rightarrow> http_request \<Rightarrow> transport_error + http_response"
  net_clock :: "net_world \<Rightarrow> real"
  net_host :: "str \<Rightarrow> str option"
  net_credential_header :: "str option"

type_synonym 'a net = "net_world \<Rightarrow> 'a \<times> net_world"

definition net_ok :: "'a \<Rightarrow> 'a net" where
  "net_ok x w = (x, w)"

definition net_bind :: "'a net \<Rightarrow> ('a \<Rightarrow> 'b net) \<Rightarrow> 'b net" where
  "net_bind m f w = (case m w of (x, w') \<Rightarrow> f x w')"

text \<open>The \<^verbatim>\<open>?\<close> operator.\<close>

definition net_try :: "('e + 'a) net \<Rightarrow> ('a \<Rightarrow> ('e + 'b) net) \<Rightarrow> ('e + 'b) net" where
  "net_try m f = net_bind m (\<lambda>r. case r of Inl e \<Rightarrow> net_ok (Inl e) | Inr x \<Rightarrow> f x)"

definition net_now :: "net_env \<Rightarrow> real net" where
  "net_now E w = (net_clock E w, w\<lparr>nw_ticks := Suc (nw_ticks w)\<rparr>)"

definition net_sleep :: "real \<Rightarrow> unit net" where
  "net_sleep seconds w = ((), w\<lparr>nw_waits := nw_waits w @ [seconds]\<rparr>)"

section \<open>One request\<close>

definition request_credential :: "net_env \<Rightarrow> (str \<times> str) list \<Rightarrow> str" where
  "request_credential E headers =
     (let bearer = map_option (\<lambda>v. case strip_prefix (lit ''Bearer '') v of Some t \<Rightarrow> t | None \<Rightarrow> v)
                     (http_header headers (lit ''authorization''));
          found = (case bearer of Some v \<Rightarrow> Some v
                   | None \<Rightarrow> (case http_header headers (lit ''x-api-key'') of Some v \<Rightarrow> Some v
                   | None \<Rightarrow> (case http_header headers (lit ''api-key'') of Some v \<Rightarrow> Some v
                   | None \<Rightarrow> Option.bind (net_credential_header E) (http_header headers))))
      in case found of Some v \<Rightarrow> trim_both is_whitespace v | None \<Rightarrow> [])"

definition http_send :: "net_env \<Rightarrow> http_request \<Rightarrow> (transport_error + http_response) net" where
  "http_send E rq w =
     (let result = map_sum id (\<lambda>r. r\<lparr>resp_credential := request_credential E (rq_headers rq)\<rparr>) (net_transport E w rq)
      in (result, w\<lparr>nw_posts := nw_posts w @ [(rq, result)]\<rparr>))"

definition post_json :: "net_env \<Rightarrow> str \<Rightarrow> json \<Rightarrow> (str \<times> str) list \<Rightarrow> real \<Rightarrow> (transport_error + http_response) net" where
  "post_json E url body headers seconds =
     http_send E \<lparr>rq_method = Post, rq_url = url, rq_headers = headers @ [(lit ''content-type'', lit ''application/json'')],
                  rq_body = write_value body HTTPX 0, rq_max_bytes = None, rq_seconds = seconds\<rparr>"

definition get_bounded :: "net_env \<Rightarrow> str \<Rightarrow> (str \<times> str) list \<Rightarrow> real \<Rightarrow> nat option \<Rightarrow> (transport_error + http_response) net" where
  "get_bounded E url headers seconds max_bytes =
     http_send E \<lparr>rq_method = Get, rq_url = url, rq_headers = headers, rq_body = [], rq_max_bytes = max_bytes, rq_seconds = seconds\<rparr>"

section \<open>What a call sent\<close>

record request_usage =
  ru_requests :: int
  ru_consecutive_5xx :: int
  ru_unaccounted :: int
  ru_failures :: "str list"

definition usage_default :: request_usage where
  "usage_default = \<lparr>ru_requests = 0, ru_consecutive_5xx = 0, ru_unaccounted = 0, ru_failures = []\<rparr>"

text \<open>\<^verbatim>\<open>{:.n}\<close> of a number that is not negative: rounded to the nearest, halves to even.\<close>

definition round_even :: "real \<Rightarrow> int" where
  "round_even x =
     (let n = \<lfloor>x\<rfloor>; r = x - real_of_int n in if r < 1 / 2 \<or> r = 1 / 2 \<and> even n then n else n + 1)"

definition fixed :: "nat \<Rightarrow> real \<Rightarrow> str" where
  "fixed digits x =
     (let n = nat (round_even (x * 10 ^ digits))
      in dec (n div 10 ^ digits) @ (if digits = 0 then [] else lit ''.'' @ dec_pad digits (n mod 10 ^ digits)))"

definition attempts_text :: "int \<Rightarrow> real \<Rightarrow> str" where
  "attempts_text requests seconds =
     dec_int requests @ lit '' request'' @ (if requests = 1 then [] else lit ''s'') @ lit '' in '' @ fixed 1 seconds @ lit ''s''"

definition exhausted_text :: "int \<Rightarrow> real \<Rightarrow> str \<Rightarrow> str" where
  "exhausted_text requests seconds latest =
     lit ''Jev request failed after '' @ attempts_text requests seconds @ lit ''; last: '' @ latest"

section \<open>Receipts\<close>

definition estimated_cost :: "jev_purpose option \<Rightarrow> real option \<Rightarrow> int \<Rightarrow> int \<Rightarrow> cost_line" where
  "estimated_cost purpose price input_tokens output_tokens =
     \<lparr>line_component = Cost_Jev, line_basis = (if price \<noteq> None then Basis_Estimated else Basis_Unknown),
      line_dollars = map_option (\<lambda>p. real_of_int input_tokens * p) price, line_purpose = None,
      line_decision_purpose = purpose, line_input_tokens = input_tokens, line_output_tokens = output_tokens,
      line_seconds = None, line_physical_requests = None\<rparr>"

definition reported_cost :: "jev_purpose option \<Rightarrow> json option \<Rightarrow> int \<Rightarrow> int \<Rightarrow> real option \<Rightarrow> str + cost_line" where
  "reported_cost purpose v input_tokens output_tokens price =
     and_then (if v = None \<or> v = Some JNull then Inr None else map_sum id Some (reported_dollars v)) (\<lambda>cost.
       case cost of
         Some amount \<Rightarrow>
           if amount \<noteq> 0 \<or> input_tokens = 0
           then Inr \<lparr>line_component = Cost_Jev, line_basis = Basis_Metered, line_dollars = Some amount, line_purpose = None,
                     line_decision_purpose = purpose, line_input_tokens = input_tokens, line_output_tokens = output_tokens,
                     line_seconds = None, line_physical_requests = None\<rparr>
           else Inr (estimated_cost purpose price input_tokens output_tokens)
       | None \<Rightarrow> Inr (estimated_cost purpose price input_tokens output_tokens))"

definition with_discarded :: "cost_line \<Rightarrow> request_usage \<Rightarrow> cost_line" where
  "with_discarded cost u =
     (if ru_unaccounted u = 0
      then cost\<lparr>line_physical_requests := (if ru_requests u > 0 then Some (ru_requests u) else None)\<rparr>
      else
        (let sent = 1 + ru_unaccounted u;
             basis = (if line_basis cost = Basis_Unknown \<or> line_basis cost = Basis_Bounded then line_basis cost else Basis_Estimated)
         in cost\<lparr>line_basis := (if line_dollars cost = None then Basis_Unknown else basis),
                 line_dollars := map_option (\<lambda>d. d * real_of_int sent) (line_dollars cost),
                 line_input_tokens := line_input_tokens cost * sent,
                 line_physical_requests := Some (ru_requests u)\<rparr>))"

definition timed :: "cost_line \<Rightarrow> request_usage \<Rightarrow> real \<Rightarrow> cost_line" where
  "timed cost u elapsed = (with_discarded cost u)\<lparr>line_physical_requests := Some (ru_requests u), line_seconds := Some elapsed\<rparr>"

definition merged_cost :: "jev_purpose option \<Rightarrow> cost_line list \<Rightarrow> cost_line" where
  "merged_cost purpose ls =
     \<lparr>line_component = Cost_Jev,
      line_basis = (if list_ex (\<lambda>l. line_basis l = Basis_Unknown) ls then Basis_Unknown
                    else if list_ex (\<lambda>l. line_basis l = Basis_Estimated) ls then Basis_Estimated else Basis_Metered),
      line_dollars = (if list_ex (\<lambda>l. line_dollars l = None) ls then None
                      else Some (py_sum (map (\<lambda>l. case line_dollars l of Some d \<Rightarrow> d | None \<Rightarrow> 0) ls))),
      line_purpose = None,
      line_decision_purpose =
        (case purpose of
           Some p \<Rightarrow> Some p
         | None \<Rightarrow>
             (case ls of
                [] \<Rightarrow> None
              | l # _ \<Rightarrow>
                  (case line_decision_purpose l of
                     None \<Rightarrow> None
                   | Some p \<Rightarrow> if list_all (\<lambda>l. line_decision_purpose l = Some p) ls then Some p else None))),
      line_input_tokens = (\<Sum>l\<leftarrow>ls. line_input_tokens l), line_output_tokens = (\<Sum>l\<leftarrow>ls. line_output_tokens l),
      line_seconds = Some (py_sum (map (\<lambda>l. case line_seconds l of Some s \<Rightarrow> s | None \<Rightarrow> 0) ls)),
      line_physical_requests =
        (if list_ex (\<lambda>l. line_physical_requests l = None) ls then None
         else Some (\<Sum>l\<leftarrow>ls. case line_physical_requests l of Some n \<Rightarrow> n | None \<Rightarrow> 0))\<rparr>"

definition dumped_chars :: "json \<Rightarrow> nat" where
  "dumped_chars body = length (write_value body DUMPS 0)"

definition input_cost :: "jev_purpose option \<Rightarrow> json \<Rightarrow> real option \<Rightarrow> int option \<Rightarrow> cost_line" where
  "input_cost purpose body price image_context =
     (case image_context of
        Some context_tokens \<Rightarrow>
          (cost_line_new Cost_Jev (if price \<noteq> None then Basis_Bounded else Basis_Unknown)
             (map_option (\<lambda>p. real_of_int context_tokens * p) price))\<lparr>line_decision_purpose := purpose\<rparr>
      | None \<Rightarrow>
          estimated_cost purpose price \<lceil>real (dumped_chars body) / chars_per_token token_budget_default\<rceil> 0)"

section \<open>Spend scopes\<close>

text \<open>The scope a call runs in: where its receipts go, the ledger a request is priced against, and the lists held by the scopes
  that share it.  \<^verbatim>\<open>tokio\<close>'s task-locals \<^verbatim>\<open>SPEND\<close> and \<^verbatim>\<open>PURPOSE\<close> are passed along.\<close>

record spend_frame =
  fr_lines :: lines_ref
  fr_ledger :: "nat option"
  fr_pending :: nat

record call_scope =
  sc_spend :: "spend_frame option"
  sc_purpose :: "jev_purpose option"

definition lines_extend :: "lines_ref \<Rightarrow> cost_line list \<Rightarrow> net_world \<Rightarrow> net_world" where
  "lines_extend ref costs w =
     (case ref of
        Lines_Ledger i \<Rightarrow>
          w\<lparr>nw_ledgers := (nw_ledgers w)(i := (nw_ledgers w i)\<lparr>counters := (counters (nw_ledgers w i))\<lparr>lines := lines (counters (nw_ledgers w i)) @ costs\<rparr>\<rparr>)\<rparr>
      | Lines_Paid i \<Rightarrow> w\<lparr>nw_paid := (nw_paid w)(i := nw_paid w i @ costs)\<rparr>)"

definition lines_snapshot :: "lines_ref \<Rightarrow> net_world \<Rightarrow> cost_line list" where
  "lines_snapshot ref w =
     (case ref of Lines_Ledger i \<Rightarrow> lines (counters (nw_ledgers w i)) | Lines_Paid i \<Rightarrow> nw_paid w i)"

definition with_scope_purpose :: "jev_purpose option \<Rightarrow> cost_line \<Rightarrow> cost_line" where
  "with_scope_purpose purpose cost =
     (if line_component cost = Cost_Jev \<and> line_decision_purpose cost = None then cost\<lparr>line_decision_purpose := purpose\<rparr> else cost)"

definition spend_record :: "call_scope \<Rightarrow> cost_line list \<Rightarrow> unit net" where
  "spend_record sc costs w =
     (case sc_spend sc of
        None \<Rightarrow> ((), w)
      | Some frame \<Rightarrow> ((), lines_extend (fr_lines frame) (map (with_scope_purpose (sc_purpose sc)) costs) w))"

definition check_jev_spend :: "net_env \<Rightarrow> call_scope \<Rightarrow> real \<Rightarrow> (budget_exceeded + unit) net" where
  "check_jev_spend E sc estimate w =
     (case Option.bind (sc_spend sc) fr_ledger of
        None \<Rightarrow> (Inr (), w)
      | Some i \<Rightarrow>
          (let frame = the (sc_spend sc);
               L = nw_ledgers w i;
               held = filter (\<lambda>ref. ref \<noteq> Lines_Ledger i) (nw_pending w (fr_pending frame));
               probe = L\<lparr>counters := (counters L)\<lparr>lines := lines (counters L) @ concat (map (\<lambda>ref. lines_snapshot ref w) held)\<rparr>\<rparr>
           in net_bind (net_now E) (\<lambda>now. net_ok (fst (reserve (net_num E) now probe Cost_Jev estimate 0))) w))"

text \<open>A new, empty list.\<close>

definition paid_new :: "nat net" where
  "paid_new w = (nw_next w, w\<lparr>nw_paid := (nw_paid w)(nw_next w := []), nw_next := Suc (nw_next w)\<rparr>)"

text \<open>Running a call in a scope of its own; the scope's list leaves the shared set when it ends.\<close>

definition enter_scope :: "call_scope \<Rightarrow> lines_ref \<Rightarrow> nat option \<Rightarrow> (spend_frame \<times> bool) net" where
  "enter_scope sc ref given w =
     (let parent = sc_spend sc;
          ledger = (case given of Some i \<Rightarrow> Some i | None \<Rightarrow> Option.bind parent fr_ledger);
          (pending, w1) =
            (case parent of
               Some p \<Rightarrow> if fr_ledger p = ledger then (fr_pending p, w)
                         else (nw_next w, w\<lparr>nw_pending := (nw_pending w)(nw_next w := []), nw_next := Suc (nw_next w)\<rparr>)
             | None \<Rightarrow> (nw_next w, w\<lparr>nw_pending := (nw_pending w)(nw_next w := []), nw_next := Suc (nw_next w)\<rparr>));
          owned = (ref \<notin> set (nw_pending w1 pending));
          w2 = (if owned then w1\<lparr>nw_pending := (nw_pending w1)(pending := nw_pending w1 pending @ [ref])\<rparr> else w1)
      in ((\<lparr>fr_lines = ref, fr_ledger = ledger, fr_pending = pending\<rparr>, owned), w2))"

definition leave_scope :: "spend_frame \<Rightarrow> bool \<Rightarrow> unit net" where
  "leave_scope frame owned w =
     ((), if owned
          then w\<lparr>nw_pending := (nw_pending w)(fr_pending frame := filter (\<lambda>ref. ref \<noteq> fr_lines frame) (nw_pending w (fr_pending frame)))\<rparr>
          else w)"

definition jev_spend :: "call_scope \<Rightarrow> lines_ref \<Rightarrow> nat option \<Rightarrow> (call_scope \<Rightarrow> 'a net) \<Rightarrow> 'a net" where
  "jev_spend sc ref ledger f =
     net_bind (enter_scope sc ref ledger) (\<lambda>(frame, owned).
     net_bind (f (sc\<lparr>sc_spend := Some frame\<rparr>)) (\<lambda>x.
     net_bind (leave_scope frame owned) (\<lambda>_. net_ok x)))"

section \<open>Retries\<close>

definition RETRY_DELAYS_SECONDS :: "real list" where
  "RETRY_DELAYS_SECONDS = [1 / 2, 3 / 2, 4, 8, 8]"

definition retries :: nat where
  "retries = length RETRY_DELAYS_SECONDS"

definition MAX_BACKOFF_SECONDS :: real where
  "MAX_BACKOFF_SECONDS = 10"

definition JEV_ATTEMPT_SECONDS :: real where
  "JEV_ATTEMPT_SECONDS = 15"

definition clamp_wait :: "real \<Rightarrow> real \<Rightarrow> f64 \<Rightarrow> real" where
  "clamp_wait delay scale x =
     (case x of
        F_NaN \<Rightarrow> delay
      | F_Inf neg \<Rightarrow> if neg then 0 else MAX_BACKOFF_SECONDS
      | F_Num s \<Rightarrow> min MAX_BACKOFF_SECONDS (max 0 (s * scale)))"

definition backoff :: "http_response option \<Rightarrow> real \<Rightarrow> real" where
  "backoff response delay =
     (case response of
        None \<Rightarrow> delay
      | Some r \<Rightarrow>
          (case http_header (resp_headers r) (lit ''retry-after-ms'') of
             Some raw \<Rightarrow> (case float_of (JString raw) of Inr s \<Rightarrow> clamp_wait delay (1 / 1000) s | Inl _ \<Rightarrow> delay)
           | None \<Rightarrow>
               (case http_header (resp_headers r) (lit ''retry-after'') of
                  Some raw \<Rightarrow> (case float_of (JString raw) of Inr s \<Rightarrow> clamp_wait delay 1 s | Inl _ \<Rightarrow> delay)
                | None \<Rightarrow> delay)))"

text \<open>A request that came back unusable, and why.\<close>

definition count_failure :: "http_response option \<Rightarrow> str \<Rightarrow> request_usage \<Rightarrow> request_usage" where
  "count_failure response failure u =
     u\<lparr>ru_consecutive_5xx :=
         (if is_some_and response (\<lambda>r. resp_status r \<ge> 500) then ru_consecutive_5xx u + 1 else 0),
       ru_failures := ru_failures u @ [failure],
       ru_unaccounted := (if response = None then ru_unaccounted u + 1 else ru_unaccounted u)\<rparr>"

definition send_once ::
  "net_env \<Rightarrow> str \<Rightarrow> json \<Rightarrow> (str \<times> str) list \<Rightarrow> real \<Rightarrow> request_usage \<Rightarrow> ((str + http_response option) \<times> request_usage) net" where
  "send_once E url body headers seconds u0 =
     (let u = u0\<lparr>ru_requests := ru_requests u0 + 1\<rparr> in
      net_bind (post_json E url body headers seconds) (\<lambda>sent. net_ok
        (case sent of
           Inr r \<Rightarrow>
             if \<not> retryable (net_serde E) r then (Inr (Some r), u)
             else (Inr (Some r), count_failure (Some r) (describe_response (net_serde E) r) u)
         | Inl (Transport_Timeout name) \<Rightarrow>
             (Inr None, count_failure None (lit ''silent for '' @ fixed 0 seconds @ lit ''s ('' @ name @ lit '')'') u)
         | Inl (Transport_Transient name) \<Rightarrow> (Inr None, count_failure None (lit ''no response ('' @ name @ lit '')'') u)
         | Inl (Transport_Fatal name) \<Rightarrow> (Inl name, u\<lparr>ru_unaccounted := ru_unaccounted u + 1\<rparr>))))"

datatype retry_stop = Retry_Budget budget_exceeded | Retry_Fatal str | Retry_Split nat request_usage

record retry_call =
  rc_url :: str
  rc_body :: json
  rc_headers :: "(str \<times> str) list"
  rc_seconds :: real
  rc_before :: "(budget_exceeded + unit) net option"
  rc_start :: nat
  rc_split :: bool

text \<open>What a call does after a request that came back unusable.\<close>

datatype retry_next = Give_Up | Split_Batch nat | Wait_And_Repeat real

definition after_failure :: "retry_call \<Rightarrow> nat \<Rightarrow> http_response option \<Rightarrow> request_usage \<Rightarrow> retry_next" where
  "after_failure c attempt response u =
     (if 0 < rc_start c \<and> ru_requests u \<ge> int (retries + 1 - rc_start c) then Give_Up
      else if rc_split c \<and> ru_consecutive_5xx u \<ge> 2 \<and> attempt < retries
        then (if rc_start c + nat (ru_requests u) > retries then Give_Up else Split_Batch (rc_start c + nat (ru_requests u)))
      else if attempt < retries then Wait_And_Repeat (backoff response (RETRY_DELAYS_SECONDS ! attempt))
      else Give_Up)"

function retry_loop ::
  "net_env \<Rightarrow> retry_call \<Rightarrow> nat \<Rightarrow> request_usage \<Rightarrow> ((retry_stop + http_response option) \<times> request_usage) net" where
  "retry_loop E c attempt u =
     net_bind (if 0 < attempt then (case rc_before c of Some check \<Rightarrow> check | None \<Rightarrow> net_ok (Inr ())) else net_ok (Inr ()))
       (\<lambda>allowed.
          case allowed of
            Inl e \<Rightarrow> net_ok (Inl (Retry_Budget e), u)
          | Inr _ \<Rightarrow>
              net_bind (send_once E (rc_url c) (rc_body c) (rc_headers c) (rc_seconds c) u) (\<lambda>(sent, u').
                case sent of
                  Inl name \<Rightarrow> net_ok (Inl (Retry_Fatal name), u')
                | Inr response \<Rightarrow>
                    if is_some_and response (\<lambda>r. \<not> retryable (net_serde E) r) then net_ok (Inr response, u')
                    else
                      (case after_failure c attempt response u' of
                         Give_Up \<Rightarrow> net_ok (Inr response, u')
                       | Split_Batch next \<Rightarrow> net_ok (Inl (Retry_Split next u'), u')
                       | Wait_And_Repeat seconds \<Rightarrow>
                           if attempt < retries
                           then net_bind (net_sleep seconds) (\<lambda>_. retry_loop E c (Suc attempt) u')
                           else net_ok (Inr response, u'))))"
  by pat_completeness auto

termination retry_loop
  by (relation "measure (\<lambda>(_, _, attempt, _). retries - attempt)") auto

definition post_with_retry :: "net_env \<Rightarrow> retry_call \<Rightarrow> request_usage \<Rightarrow> ((retry_stop + http_response option) \<times> request_usage) net" where
  "post_with_retry E c u =
     (if rc_start c > retries then net_ok (Inr None, u) else retry_loop E c (rc_start c) u)"

declare retry_loop.simps [simp del]

section \<open>What a retried call did\<close>

text \<open>An answer a repeat may clear.\<close>

fun unusable :: "net_env \<Rightarrow> transport_error + http_response \<Rightarrow> bool" where
  "unusable E (Inl (Transport_Fatal _)) = False"
| "unusable E (Inl _) = True"
| "unusable E (Inr r) = retryable (net_serde E) r"

definition quiet :: "'a net \<Rightarrow> bool" where
  "quiet m \<longleftrightarrow> (\<forall>w. nw_posts (snd (m w)) = nw_posts w \<and> nw_waits (snd (m w)) = nw_waits w)"

text \<open>How the answers \<open>new\<close> of the requests a call sent from its attempt on stand to its result.\<close>

definition came_back ::
  "net_env \<Rightarrow> retry_call \<Rightarrow> nat \<Rightarrow> retry_stop + http_response option \<Rightarrow> (transport_error + http_response) list \<Rightarrow> request_usage \<Rightarrow> bool" where
  "came_back E c attempt result new u \<longleftrightarrow>
     (case result of
        Inr response \<Rightarrow>
          if is_some_and response (\<lambda>r. \<not> retryable (net_serde E) r)
          then new \<noteq> [] \<and> list_all (unusable E) (butlast new) \<and> map_option Inr response = Some (last new)
          else list_all (unusable E) new \<and> length new = retries + 1 - attempt
      | Inl (Retry_Fatal name) \<Rightarrow> new \<noteq> [] \<and> list_all (unusable E) (butlast new) \<and> last new = Inl (Transport_Fatal name)
      | Inl (Retry_Budget _) \<Rightarrow> list_all (unusable E) new \<and> length new < retries + 1 - attempt
      | Inl (Retry_Split next u') \<Rightarrow>
          rc_split c \<and> new \<noteq> [] \<and> list_all (unusable E) new \<and> u' = u \<and> next = attempt + length new \<and> next \<le> retries)"

definition call_counts :: "request_usage \<Rightarrow> request_usage \<Rightarrow> (transport_error + http_response) list \<Rightarrow> bool" where
  "call_counts u u' new \<longleftrightarrow>
     ru_requests u' = ru_requests u + int (length new)
     \<and> ru_unaccounted u' = ru_unaccounted u + int (length (filter isl new))"

definition retried ::
  "net_env \<Rightarrow> retry_call \<Rightarrow> nat \<Rightarrow> request_usage \<Rightarrow> net_world \<Rightarrow> retry_stop + http_response option \<Rightarrow> request_usage \<Rightarrow> net_world \<Rightarrow> bool" where
  "retried E c attempt u w result u' w' \<longleftrightarrow>
     (\<exists>new waits. map snd (nw_posts w') = map snd (nw_posts w) @ new \<and> nw_waits w' = nw_waits w @ waits
        \<and> length new \<le> retries + 1 - attempt \<and> length waits \<le> length new
        \<and> (\<forall>s\<in>set waits. 0 \<le> s \<and> s \<le> MAX_BACKOFF_SECONDS)
        \<and> call_counts u u' new \<and> came_back E c attempt result new u')"

lemma net_simps:
  "net_bind (net_ok x) f = f x" "net_bind m f w = f (fst (m w)) (snd (m w))" "net_ok x w = (x, w)"
  by (simp_all add: net_bind_def net_ok_def fun_eq_iff case_prod_beta)

lemma backoff_range: "0 \<le> delay \<Longrightarrow> delay \<le> MAX_BACKOFF_SECONDS \<Longrightarrow> 0 \<le> backoff r delay \<and> backoff r delay \<le> MAX_BACKOFF_SECONDS"
  by (auto simp: backoff_def clamp_wait_def MAX_BACKOFF_SECONDS_def split: option.splits sum.splits f64.splits)

lemma delay_range: "attempt < retries \<Longrightarrow> 0 \<le> RETRY_DELAYS_SECONDS ! attempt \<and> RETRY_DELAYS_SECONDS ! attempt \<le> MAX_BACKOFF_SECONDS"
  by (auto simp: retries_def RETRY_DELAYS_SECONDS_def MAX_BACKOFF_SECONDS_def less_Suc_eq)

text \<open>One attempt: its request, the answer that came back, and what it counts.\<close>

lemma send_once_cases:
  assumes "send_once E url body headers seconds u w = ((sent, u'), w')"
  obtains answer where "map snd (nw_posts w') = map snd (nw_posts w) @ [answer]" "nw_waits w' = nw_waits w"
    "call_counts u u' [answer]"
    "\<And>name. sent = Inl name \<longleftrightarrow> answer = Inl (Transport_Fatal name)"
    "\<And>r. sent = Inr (Some r) \<longleftrightarrow> answer = Inr r"
    "sent = Inr None \<Longrightarrow> unusable E answer"
    "u' = u\<lparr>ru_requests := ru_requests u + 1\<rparr> \<or> (\<forall>r. answer = Inr r \<longrightarrow> retryable (net_serde E) r)"
proof -
  let ?rq = "\<lparr>rq_method = Post, rq_url = url, rq_headers = headers @ [(lit ''content-type'', lit ''application/json'')],
                  rq_body = write_value body HTTPX 0, rq_max_bytes = None, rq_seconds = seconds\<rparr>"
  obtain answer where ans: "post_json E url body headers seconds w = (answer, w\<lparr>nw_posts := nw_posts w @ [(?rq, answer)]\<rparr>)"
    by (simp add: post_json_def http_send_def Let_def)
  note run = assms [unfolded send_once_def Let_def net_bind_def ans net_ok_def prod.case]
  show thesis
    by (rule that [of answer])
      (use run in \<open>cases answer; auto simp: call_counts_def count_failure_def split: transport_error.splits if_splits\<close>)+
qed

definition retry_ready :: "retry_call \<Rightarrow> nat \<Rightarrow> request_usage \<Rightarrow> bool" where
  "retry_ready c attempt u \<longleftrightarrow> rc_start c \<le> attempt \<and> attempt \<le> retries \<and> ru_requests u = int (attempt - rc_start c)"

lemma after_failure_cases:
  assumes "retry_ready c attempt u" and "ru_requests u' = ru_requests u + 1"
  shows "after_failure c attempt response u' = Give_Up \<Longrightarrow> attempt = retries"
    and "after_failure c attempt response u' = Split_Batch next \<Longrightarrow> rc_split c \<and> next = Suc attempt \<and> attempt < retries"
    and "after_failure c attempt response u' = Wait_And_Repeat s \<Longrightarrow> attempt < retries \<and> 0 \<le> s \<and> s \<le> MAX_BACKOFF_SECONDS"
proof -
  have req: "ru_requests u' = int (Suc attempt - rc_start c)" using assms by (simp add: retry_ready_def)
  show "after_failure c attempt response u' = Give_Up \<Longrightarrow> attempt = retries"
    using assms(1) req by (auto simp: after_failure_def retry_ready_def split: if_splits)
  show "after_failure c attempt response u' = Split_Batch next \<Longrightarrow> rc_split c \<and> next = Suc attempt \<and> attempt < retries"
    using assms(1) req by (auto simp: after_failure_def retry_ready_def split: if_splits)
  show "after_failure c attempt response u' = Wait_And_Repeat s \<Longrightarrow> attempt < retries \<and> 0 \<le> s \<and> s \<le> MAX_BACKOFF_SECONDS"
    using backoff_range delay_range by (auto simp: after_failure_def split: if_splits)
qed

lemma retried_one:
  assumes "map snd (nw_posts w') = map snd (nw_posts w) @ [answer]" and "nw_waits w' = nw_waits w"
    and "call_counts u u' [answer]" and "attempt \<le> retries" and "came_back E c attempt result [answer] u'"
  shows "retried E c attempt u w result u' w'"
  unfolding retried_def using assms by (intro exI [of _ "[answer]"] exI [of _ "[]"]) auto

text \<open>A request that came back unusable, a wait, and the rest of the call.\<close>

lemma retried_more:
  assumes "map snd (nw_posts w1) = map snd (nw_posts w) @ [answer]" and "nw_waits w1 = nw_waits w @ [s]"
    and "0 \<le> s" "s \<le> MAX_BACKOFF_SECONDS" and "call_counts u u1 [answer]" and "unusable E answer" and "attempt < retries"
    and "retried E c (Suc attempt) u1 w1 result u' w'"
  shows "retried E c attempt u w result u' w'"
proof -
  obtain new waits where rest: "map snd (nw_posts w') = map snd (nw_posts w1) @ new" "nw_waits w' = nw_waits w1 @ waits"
    "length new \<le> retries + 1 - Suc attempt" "length waits \<le> length new" "\<forall>s\<in>set waits. 0 \<le> s \<and> s \<le> MAX_BACKOFF_SECONDS"
    "call_counts u1 u' new" "came_back E c (Suc attempt) result new u'"
    using assms(8) by (auto simp: retried_def)
  have "came_back E c attempt result (answer # new) u'"
    using rest(7) assms(6,7) by (auto simp: came_back_def split: sum.splits retry_stop.splits if_splits)
  moreover have "call_counts u u' (answer # new)" using assms(5) rest(6) by (auto simp: call_counts_def split: if_splits)
  ultimately show ?thesis
    unfolding retried_def using assms(1-4,7) rest(1-5) by (intro exI [of _ "answer # new"] exI [of _ "s # waits"]) auto
qed

lemma quiet_posts: "quiet m \<Longrightarrow> m w = (x, w') \<Longrightarrow> nw_posts w' = nw_posts w \<and> nw_waits w' = nw_waits w"
  unfolding quiet_def by (metis snd_conv)

lemma retried_quiet:
  "nw_posts w1 = nw_posts w \<Longrightarrow> nw_waits w1 = nw_waits w \<Longrightarrow> retried E c attempt u w1 result u' w' \<Longrightarrow> retried E c attempt u w result u' w'"
  by (simp add: retried_def)

definition retry_check :: "retry_call \<Rightarrow> nat \<Rightarrow> (budget_exceeded + unit) net" where
  "retry_check c attempt = (if 0 < attempt then (case rc_before c of Some check \<Rightarrow> check | None \<Rightarrow> net_ok (Inr ())) else net_ok (Inr ()))"

lemma retry_loop_unfold:
  "retry_loop E c attempt u w =
     (case retry_check c attempt w of
        (Inl e, w1) \<Rightarrow> ((Inl (Retry_Budget e), u), w1)
      | (Inr _, w1) \<Rightarrow>
          (case send_once E (rc_url c) (rc_body c) (rc_headers c) (rc_seconds c) u w1 of
             ((Inl name, u'), w2) \<Rightarrow> ((Inl (Retry_Fatal name), u'), w2)
           | ((Inr response, u'), w2) \<Rightarrow>
               if is_some_and response (\<lambda>r. \<not> retryable (net_serde E) r) then ((Inr response, u'), w2)
               else
                 (case after_failure c attempt response u' of
                    Give_Up \<Rightarrow> ((Inr response, u'), w2)
                  | Split_Batch next \<Rightarrow> ((Inl (Retry_Split next u'), u'), w2)
                  | Wait_And_Repeat seconds \<Rightarrow>
                      if attempt < retries then retry_loop E c (Suc attempt) u' (snd (net_sleep seconds w2))
                      else ((Inr response, u'), w2))))"
proof -
  let ?send = "send_once E (rc_url c) (rc_body c) (rc_headers c) (rc_seconds c) u"
  obtain allowed w1 where check: "retry_check c attempt w = (allowed, w1)" by fastforce
  obtain sent u2 w2 where send: "?send w1 = ((sent, u2), w2)" by (metis prod.collapse)
  have one: "retry_loop E c attempt u w =
      (case allowed of
         Inl e \<Rightarrow> net_ok (Inl (Retry_Budget e), u)
       | Inr _ \<Rightarrow>
          net_bind ?send (\<lambda>(sent, u').
            case sent of
              Inl name \<Rightarrow> net_ok (Inl (Retry_Fatal name), u')
            | Inr response \<Rightarrow>
                if is_some_and response (\<lambda>r. \<not> retryable (net_serde E) r) then net_ok (Inr response, u')
                else
                  (case after_failure c attempt response u' of
                     Give_Up \<Rightarrow> net_ok (Inr response, u')
                   | Split_Batch next \<Rightarrow> net_ok (Inl (Retry_Split next u'), u')
                   | Wait_And_Repeat seconds \<Rightarrow>
                       if attempt < retries
                       then net_bind (net_sleep seconds) (\<lambda>_. retry_loop E c (Suc attempt) u')
                       else net_ok (Inr response, u')))) w1"
    unfolding retry_loop.simps [of E c attempt u] retry_check_def [symmetric] net_bind_def [of "retry_check c attempt"] check prod.case ..
  show ?thesis
  proof (cases allowed)
    case (Inl e)
    then show ?thesis unfolding one check by (simp add: net_ok_def)
  next
    case (Inr ok)
    show ?thesis
    proof (cases sent)
      case (Inl name)
      show ?thesis unfolding one check Inr sum.case prod.case net_bind_def [of ?send] send \<open>sent = Inl name\<close> net_ok_def ..
    next
      case resp: (Inr response)
      show ?thesis
        unfolding one check Inr sum.case prod.case net_bind_def [of ?send] send resp
        by (cases "after_failure c attempt response u2"; cases "is_some_and response (\<lambda>r. \<not> retryable (net_serde E) r)")
          (simp_all only: retry_next.case if_True if_False not_False_eq_True net_ok_def net_bind_def net_sleep_def prod.case snd_conv if_distribR)
    qed
  qed
qed

lemma retry_loop_retried:
  assumes "\<And>check. rc_before c = Some check \<Longrightarrow> quiet check" and "retry_ready c attempt u"
    and "retry_loop E c attempt u w = ((result, u'), w')"
  shows "retried E c attempt u w result u' w'"
  using assms(2,3)
proof (induction "retries - attempt" arbitrary: attempt u w rule: less_induct)
  case less
  have le: "attempt \<le> retries" using less.prems(1) by (simp add: retry_ready_def)
  obtain allowed w1 where check: "retry_check c attempt w = (allowed, w1)" by fastforce
  have "quiet (retry_check c attempt)"
    using assms(1) by (auto simp: retry_check_def quiet_def net_ok_def split: option.split)
  then have w1: "nw_posts w1 = nw_posts w" "nw_waits w1 = nw_waits w" using quiet_posts [of "retry_check c attempt" w allowed w1] check by simp_all
  show ?case
  proof (cases allowed)
    case (Inl e)
    then have "result = Inl (Retry_Budget e)" "u' = u" "w' = w1" using less.prems(2) check by (simp_all add: retry_loop_unfold [of E c attempt u w])
    then show ?thesis
      using w1 le unfolding retried_def by (intro exI [of _ "[]"]) (auto simp: call_counts_def came_back_def)
  next
    case (Inr ok)
    obtain sent u2 w2 where send: "send_once E (rc_url c) (rc_body c) (rc_headers c) (rc_seconds c) u w1 = ((sent, u2), w2)"
      by (metis prod.collapse)
    obtain answer where a: "map snd (nw_posts w2) = map snd (nw_posts w1) @ [answer]" "nw_waits w2 = nw_waits w1"
      "call_counts u u2 [answer]" "\<And>name. sent = Inl name \<longleftrightarrow> answer = Inl (Transport_Fatal name)"
      "\<And>r. sent = Inr (Some r) \<longleftrightarrow> answer = Inr r" "sent = Inr None \<Longrightarrow> unusable E answer"
      using send_once_cases [OF send] by metis
    have req: "ru_requests u2 = ru_requests u + 1" using a(3) by (simp add: call_counts_def)

    have one: "came_back E c attempt result [answer] u2 \<Longrightarrow> u' = u2 \<Longrightarrow> w' = w2 \<Longrightarrow> retried E c attempt u w result u' w'"
      using retried_quiet [OF w1 retried_one [OF a(1-3) le]] by simp
    note run = less.prems(2) [unfolded retry_loop_unfold [of E c attempt u w] check Inr prod.case sum.case send]
    show ?thesis
    proof (cases sent)
      case (Inl name)
      then have "result = Inl (Retry_Fatal name)" "u' = u2" "w' = w2" using run by simp_all
      moreover have "answer = Inl (Transport_Fatal name)" using a(4) [of name] Inl by simp
      ultimately show ?thesis by (intro one) (auto simp: came_back_def)
    next
      case resp: (Inr response)
      show ?thesis
      proof (cases "is_some_and response (\<lambda>r. \<not> retryable (net_serde E) r)")
        case True
        then have "result = Inr response" "u' = u2" "w' = w2" using run resp by simp_all
        moreover obtain r where "response = Some r" using True by (auto simp: is_some_and_iff)
        moreover from this have "answer = Inr r" using a(5) [of r] resp by simp
        ultimately show ?thesis
          using True by (intro one) (auto simp: came_back_def)
      next
        case False
        have un: "unusable E answer"
          using a(5) [of "the response"] a(6) False resp by (cases response) (auto simp: is_some_and_iff)
        note rest_run = run [unfolded resp sum.case prod.case if_not_P [OF False]]
        note cases = after_failure_cases [OF less.prems(1) req, of response]
        show ?thesis
        proof (cases "after_failure c attempt response u2")
          case Give_Up
          then have "result = Inr response" "u' = u2" "w' = w2" "attempt = retries" using rest_run cases(1) by simp_all
          then show ?thesis using False un by (intro one) (auto simp: came_back_def)
        next
          case (Split_Batch n)
          then have "result = Inl (Retry_Split n u2)" "u' = u2" "w' = w2" "rc_split c" "n = Suc attempt" "attempt < retries"
            using rest_run cases(2) by auto
          then show ?thesis using un by (intro one) (auto simp: came_back_def)
        next
          case (Wait_And_Repeat s)
          then have s: "attempt < retries" "0 \<le> s" "s \<le> MAX_BACKOFF_SECONDS"
            and rec: "retry_loop E c (Suc attempt) u2 (snd (net_sleep s w2)) = ((result, u'), w')"
            using rest_run cases(3) by simp_all
          have ready: "retry_ready c (Suc attempt) u2" using less.prems(1) req s(1) by (auto simp: retry_ready_def)
          have "retried E c (Suc attempt) u2 (snd (net_sleep s w2)) result u' w'"
            by (rule less.hyps [OF _ ready rec]) (use s(1) in simp)
          moreover have "map snd (nw_posts (snd (net_sleep s w2))) = map snd (nw_posts w1) @ [answer]"
            "nw_waits (snd (net_sleep s w2)) = nw_waits w1 @ [s]" using a(1,2) by (simp_all add: net_sleep_def)
          ultimately show ?thesis using retried_quiet [OF w1 retried_more] s a(3) un by blast
        qed
      qed
    qed
  qed
qed

lemma quiet_check: "quiet (check_jev_spend E sc estimate)"
  by (auto simp: quiet_def check_jev_spend_def Let_def net_bind_def net_now_def net_ok_def split: option.split)

text \<open>
  C17: A request to a provider is repeated until an answer comes or nothing is left to try.  Starting at its attempt, a call
  sends at most the requests it has left; it never waits longer than ten seconds between two; and whatever the transport
  does, it hands back the first answer a repeat would not clear.  It gives up without one only after every request it had
  left came back unusable, splits a batch only when it may and only while requests are left, stops for a fatal transport
  failure at that failure, and stops for the budget before the request it could not pay for.  Its usage counts every
  request it sent, and as unaccounted exactly those that got no answer.
\<close>

theorem retry_persists:
  assumes "rc_start c \<le> retries" and "ru_requests u = 0" and "rc_before c = Some (check_jev_spend E sc estimate)"
    and "post_with_retry E c u w = ((result, u'), w')"
  shows "retried E c (rc_start c) u w result u' w'"
proof (rule retry_loop_retried)
  show "quiet check" if "rc_before c = Some check" for check using that assms(3) quiet_check by auto
  show "retry_ready c (rc_start c) u" using assms(1,2) by (simp add: retry_ready_def)
  show "retry_loop E c (rc_start c) u w = ((result, u'), w')" using assms(1,4) by (simp add: post_with_retry_def)
qed

definition example_answered :: http_response where
  "example_answered = \<lparr>resp_status = 200, resp_headers = [], resp_body = [], resp_credential = []\<rparr>"

text \<open>A provider whose first connection times out.\<close>

definition example_net :: net_env where
  "example_net =
     \<lparr>net_serde = (\<lambda>_. Inr JNull), net_num = example_num, net_float = (\<lambda>_. []),
      net_transport = (\<lambda>w _. if nw_posts w = [] then Inl (Transport_Timeout (lit ''ReadTimeout'')) else Inr example_answered),
      net_clock = (\<lambda>w. real (nw_ticks w)), net_host = (\<lambda>_. None), net_credential_header = None\<rparr>"

definition example_net_world :: net_world where
  "example_net_world =
     \<lparr>nw_posts = [], nw_waits = [], nw_ticks = 0, nw_ledgers = (\<lambda>_. ledger_new \<lparr>max_steps = None, max_jev_calls = None, max_llm_calls = None, max_dollars = None, max_seconds = None\<rparr> 0), nw_paid = (\<lambda>_. []),
      nw_pending = (\<lambda>_. []), nw_next = 0, nw_on_backup = False\<rparr>"

definition example_call :: retry_call where
  "example_call =
     \<lparr>rc_url = lit ''u'', rc_body = JNull, rc_headers = [], rc_seconds = JEV_ATTEMPT_SECONDS,
      rc_before = Some (check_jev_spend example_net \<lparr>sc_spend = None, sc_purpose = None\<rparr> 0), rc_start = 0, rc_split = False\<rparr>"

lemma example_call_run:
  "\<exists>u' w'. post_with_retry example_net example_call usage_default example_net_world = ((Inr (Some example_answered), u'), w')
     \<and> length (nw_posts w') = 2 \<and> nw_waits w' = [1 / 2] \<and> ru_requests u' = 2 \<and> ru_unaccounted u' = 1"
proof -
  have "\<not> retryable (\<lambda>_. Inr JNull) example_answered" by code_simp
  moreover have "request_credential example_net [(lit ''content-type'', lit ''application/json'')] = []" by code_simp
  ultimately show ?thesis
    by (simp add: post_with_retry_def retry_loop_unfold [of _ _ 0] retry_loop_unfold [of _ _ "Suc 0"] retry_check_def net_ok_def
        send_once_def post_json_def http_send_def net_bind_def Let_def example_call_def example_net_def example_net_world_def
        count_failure_def usage_default_def after_failure_def retries_def RETRY_DELAYS_SECONDS_def backoff_def net_sleep_def
        check_jev_spend_def example_answered_def)
qed

theorem retry_persists_witness:
  "\<exists>u' w'. post_with_retry example_net example_call usage_default example_net_world = ((Inr (Some example_answered), u'), w')
     \<and> length (nw_posts w') = 2 \<and> retried example_net example_call 0 usage_default example_net_world (Inr (Some example_answered)) u' w'"
proof -
  obtain u' w' where run: "post_with_retry example_net example_call usage_default example_net_world = ((Inr (Some example_answered), u'), w')"
    and two: "length (nw_posts w') = 2" using example_call_run by blast
  have "rc_start example_call = 0" "ru_requests usage_default = 0"
    "rc_before example_call = Some (check_jev_spend example_net \<lparr>sc_spend = None, sc_purpose = None\<rparr> 0)"
    by (simp_all add: example_call_def usage_default_def)
  with retry_persists [OF _ _ _ run] two run show ?thesis by auto
qed

end
