(* ===== verification/Asking.thy ===== *)
theory Asking
  imports Sending
begin

text \<open>
  One call of a decision provider (the second half of \<^verbatim>\<open>crates/fastbrowse-clients/src/validation.rs\<close>): the request priced
  before it is sent, what its answer or its failure means, a batch asked again one question at a time once it failed twice,
  and the choices of one option answered without asking.  The provider's own request is the parameter \<open>ask\<close> of the last
  two.  The lemmas show that every question asked is answered by an answer that fits it, that a call counts exactly the
  requests it sent, and how many those are at most.
\<close>

section \<open>The request\<close>

datatype ask_error = Ask_Jev decision_error | Ask_Split nat request_usage

fun into_jev :: "ask_error \<Rightarrow> decision_error" where
  "into_jev (Ask_Jev e) = e"
| "into_jev (Ask_Split _ _) = Decision_Failed (lit ''Jev batch split outside asking_split'')"

text \<open>\<^verbatim>\<open>Instant::elapsed\<close>, which is zero for a clock that went back.\<close>

definition elapsed_since :: "net_env \<Rightarrow> real \<Rightarrow> real net" where
  "elapsed_since E began = net_bind (net_now E) (\<lambda>now. net_ok (max 0 (now - began)))"

definition history :: "request_usage \<Rightarrow> real \<Rightarrow> str" where
  "history u seconds = attempts_text (ru_requests u) seconds"

text \<open>The dropped guard of a call that got no answer: what its unanswered requests may have cost.\<close>

definition lost_requests :: "call_scope \<Rightarrow> cost_line \<Rightarrow> request_usage \<Rightarrow> unit net" where
  "lost_requests sc cost u = spend_record sc (replicate (nat (ru_unaccounted u)) cost)"

definition exhausted_error :: "serde \<Rightarrow> request_usage \<Rightarrow> real \<Rightarrow> http_response \<Rightarrow> decision_error" where
  "exhausted_error serde u seconds r =
     (let latest = describe_response serde r in
      Decision_RetriesExhausted
        \<lparr>re_message = exhausted_text (ru_requests u) seconds latest, re_seconds = seconds,
         re_unaccounted_requests = ru_unaccounted u, re_requests = ru_requests u, re_answered = [], re_last = latest\<rparr>)"

definition unreached_error :: "request_usage \<Rightarrow> real \<Rightarrow> decision_error" where
  "unreached_error u seconds =
     Decision_TransportFailed
       (lit ''Jev transport failed after '' @ history u seconds @ lit ''; last: ''
        @ (if ru_failures u = [] then [] else last (ru_failures u)))"

text \<open>What an answer a repeat would not clear means.\<close>

definition judged_reply :: "net_env \<Rightarrow> str \<Rightarrow> http_response \<Rightarrow> decision_error + http_response" where
  "judged_reply E url r =
     (let described = describe_response (net_serde E) r;
          too_large = list_ex (\<lambda>m. sublist m (resp_text r)) [lit ''max_tokens_exceeded'', lit ''request body too large'']
      in if resp_status r = 413 \<or> resp_status r = 400 \<and> too_large
           then Inl (Decision_InputTooLarge (lit ''Jev input too large; '' @ described))
         else if resp_status r \<in> {401, 403}
           then Inl (Decision_Rejected (lit ''Jev '' @ described @ lit '' ('' @ (case net_host E url of Some h \<Rightarrow> h | None \<Rightarrow> [])
                                        @ lit '' rejected the API key)''))
         else if \<not> is_success r then Inl (response_error (net_serde E) r (lit ''Jev request failed''))
         else Inr r)"

definition spend_estimate :: "cost_line \<Rightarrow> json \<Rightarrow> real option \<Rightarrow> int option \<Rightarrow> real" where
  "spend_estimate cost body price image_context =
     (if image_context \<noteq> None then (case line_dollars cost of Some d \<Rightarrow> d | None \<Rightarrow> 0)
      else real (dumped_chars body) / chars_per_token token_budget_default * (case price of Some p \<Rightarrow> p | None \<Rightarrow> 0))"

definition post ::
  "net_env \<Rightarrow> call_scope \<Rightarrow> str \<Rightarrow> str \<Rightarrow> json \<Rightarrow> (str \<times> str) list \<Rightarrow> request_usage \<Rightarrow> nat \<Rightarrow> bool \<Rightarrow> real option \<Rightarrow> int option
     \<Rightarrow> ((ask_error + http_response) \<times> request_usage) net" where
  "post E sc url api_key body headers u0 start_attempt split_batch price image_context =
     (let cost = input_cost (sc_purpose sc) body price image_context;
          check = check_jev_spend E sc (spend_estimate cost body price image_context);
          auth = (if api_key = [] then [] else [(lit ''Authorization'', lit ''Bearer '' @ api_key)]) @ headers
      in net_bind check (\<lambda>allowed.
        case allowed of
          Inl e \<Rightarrow> net_ok (Inl (Ask_Jev (Decision_Budget e)), u0)
        | Inr _ \<Rightarrow>
            net_bind (net_now E) (\<lambda>began.
            net_bind (post_with_retry E
                \<lparr>rc_url = url, rc_body = body, rc_headers = auth, rc_seconds = JEV_ATTEMPT_SECONDS, rc_before = Some check,
                 rc_start = start_attempt, rc_split = split_batch\<rparr> u0) (\<lambda>(sent, u).
              case sent of
                Inl (Retry_Budget e) \<Rightarrow>
                  net_bind (lost_requests sc cost u) (\<lambda>_. net_ok (Inl (Ask_Jev (Decision_Budget e)), u))
              | Inl (Retry_Fatal name) \<Rightarrow>
                  net_bind (lost_requests sc cost u) (\<lambda>_.
                    net_ok (Inl (Ask_Jev (Decision_Failed (lit ''Jev request could not be sent ('' @ name @ lit '')''))), u))
              | Inl (Retry_Split n u') \<Rightarrow> net_ok (Inl (Ask_Split n u'), u)
              | Inr None \<Rightarrow>
                  net_bind (elapsed_since E began) (\<lambda>seconds.
                  net_bind (lost_requests sc cost u) (\<lambda>_. net_ok (Inl (Ask_Jev (unreached_error u seconds)), u)))
              | Inr (Some r) \<Rightarrow>
                  net_bind (elapsed_since E began) (\<lambda>seconds.
                    if retryable (net_serde E) r
                    then net_bind (lost_requests sc cost u) (\<lambda>_. net_ok (Inl (Ask_Jev (exhausted_error (net_serde E) u seconds r)), u))
                    else net_ok (map_sum Ask_Jev id (judged_reply E url r), u))))))"

definition invalid_response :: "serde \<Rightarrow> http_response \<Rightarrow> str \<Rightarrow> str \<Rightarrow> ask_error" where
  "invalid_response serde r what detail = Ask_Jev (response_error serde r (what @ lit '' ('' @ detail @ lit '')''))"

section \<open>A batch and its questions\<close>

type_synonym asks = "call_scope \<Rightarrow> (str, question) index_map \<Rightarrow> nat \<Rightarrow> bool \<Rightarrow> (ask_error + evaluation) net"

definition im_extend :: "('k, 'v) index_map \<Rightarrow> ('k \<times> 'v) list \<Rightarrow> ('k, 'v) index_map" where
  "im_extend m kvs = foldl (\<lambda>m (k, v). im_insert k v m) m kvs"

text \<open>The questions one at a time.  Each request uses up a retry; later questions keep their first attempt.\<close>

fun ask_singles ::
  "asks \<Rightarrow> call_scope \<Rightarrow> (str, question) index_map \<Rightarrow> nat \<Rightarrow> evaluation list \<Rightarrow> ((decision_error + unit) \<times> evaluation list) net" where
  "ask_singles ask sc [] start_attempt answered = net_ok (Inr (), answered)"
| "ask_singles ask sc (question # rest) start_attempt answered =
     net_bind (ask sc [question] start_attempt False) (\<lambda>r.
       case r of
         Inl e \<Rightarrow> net_ok (Inl (into_jev e), answered)
       | Inr ev \<Rightarrow>
           net_bind (spend_record sc [eval_cost ev]) (\<lambda>_.
             ask_singles ask sc rest (min retries (start_attempt + nat (eval_requests ev) - 1)) (answered @ [ev])))"

definition sum_requests :: "evaluation list \<Rightarrow> int" where
  "sum_requests answered = (\<Sum>ev\<leftarrow>answered. eval_requests ev)"

definition split_exhausted :: "request_usage \<Rightarrow> evaluation list \<Rightarrow> retries_exhausted \<Rightarrow> real \<Rightarrow> decision_error" where
  "split_exhausted u answered e seconds =
     (let requests = ru_requests u + sum_requests answered + re_requests e in
      Decision_RetriesExhausted
        \<lparr>re_message = exhausted_text requests seconds (re_last e), re_seconds = seconds,
         re_unaccounted_requests = re_unaccounted_requests e + ru_unaccounted u, re_requests = requests,
         re_answered = answered, re_last = re_last e\<rparr>)"

definition split_evaluation :: "call_scope \<Rightarrow> real option \<Rightarrow> request_usage \<Rightarrow> evaluation list \<Rightarrow> real \<Rightarrow> evaluation" where
  "split_evaluation sc price u answered seconds =
     (let singles = merged_cost (sc_purpose sc) (map eval_cost answered);
          input_tokens = (\<Sum>ev\<leftarrow>answered. eval_input_tokens ev);
          cost = (if ru_unaccounted u > 0
                  then merged_cost (sc_purpose sc) [singles, estimated_cost (sc_purpose sc) price (input_tokens * ru_unaccounted u) 0]
                  else singles);
          requests = ru_requests u + sum_requests answered
      in \<lparr>eval_model = eval_model (hd answered), eval_answers = im_collect (concat (map eval_answers answered)),
          eval_input_tokens = input_tokens,
          eval_cost = cost\<lparr>line_physical_requests := Some requests, line_seconds := Some seconds\<rparr>,
          eval_requests = requests\<rparr>)"

definition asking_split :: "net_env \<Rightarrow> call_scope \<Rightarrow> (str, question) index_map \<Rightarrow> asks \<Rightarrow> real option \<Rightarrow> (decision_error + evaluation) net" where
  "asking_split E sc questions ask price =
     (if length questions < 2
      then net_bind (ask sc questions 0 False) (\<lambda>r. net_ok (map_sum into_jev id r))
      else
        net_bind (net_now E) (\<lambda>began.
        net_bind (ask sc questions 0 True) (\<lambda>first.
          case first of
            Inl (Ask_Split start_attempt u) \<Rightarrow>
              net_bind paid_new (\<lambda>paid.
              net_bind (jev_spend sc (Lines_Paid paid) None (\<lambda>sc'. ask_singles ask sc' questions start_attempt [])) (\<lambda>(singles, answered).
                case singles of
                  Inl error \<Rightarrow>
                    net_bind (\<lambda>w. spend_record sc (nw_paid w paid) w) (\<lambda>_.
                      case error of
                        Decision_RetriesExhausted e \<Rightarrow>
                          net_bind (elapsed_since E began) (\<lambda>seconds. net_ok (Inl (split_exhausted u answered e seconds)))
                      | _ \<Rightarrow> net_ok (Inl error))
                | Inr _ \<Rightarrow>
                    net_bind (elapsed_since E began) (\<lambda>seconds. net_ok (Inr (split_evaluation sc price u answered seconds)))))
          | Inl (Ask_Jev e) \<Rightarrow> net_ok (Inl e)
          | Inr ev \<Rightarrow> net_ok (Inr ev))))"

section \<open>Choices of one option\<close>

definition forced_answer :: "str \<times> question \<Rightarrow> (str \<times> answer) option" where
  "forced_answer kq =
     (case snd kq of
        Q_Choice c \<Rightarrow>
          (case im_keys (cq_criteria c) of
             [only] \<Rightarrow> Some (fst kq, A_Choice \<lparr>ca_choice = only, ca_probabilities = [(only, 1)], ca_confidence = 1\<rparr>)
           | _ \<Rightarrow> None)
      | _ \<Rightarrow> None)"

definition asking_open ::
  "call_scope \<Rightarrow> (str, question) index_map \<Rightarrow> ((str, question) index_map \<Rightarrow> (decision_error + evaluation) net) \<Rightarrow> str \<Rightarrow> real option
     \<Rightarrow> (decision_error + evaluation) net" where
  "asking_open sc questions ask model price =
     (let forced = im_collect (List.map_filter forced_answer questions);
          rest = filter (\<lambda>kq. im_get forced (fst kq) = None) questions
      in if forced = [] then ask questions
         else if rest = []
           then net_ok (Inr \<lparr>eval_model = model, eval_answers = forced, eval_input_tokens = 0,
                             eval_cost = estimated_cost (sc_purpose sc) price 0 0, eval_requests = 0\<rparr>)
         else net_try (ask rest) (\<lambda>ev. net_ok (Inr (ev\<lparr>eval_answers := im_extend (eval_answers ev) forced\<rparr>))))"

section \<open>Counting the requests of a call\<close>

text \<open>\<open>sends P m\<close>: running \<open>m\<close> sends some number \<open>n\<close> of requests and ends with a result \<open>x\<close> such that \<open>P n x\<close>.\<close>

definition sends :: "(nat \<Rightarrow> 'a \<Rightarrow> bool) \<Rightarrow> 'a net \<Rightarrow> bool" where
  "sends P m \<longleftrightarrow> (\<forall>w. \<exists>n. length (nw_posts (snd (m w))) = length (nw_posts w) + n \<and> P n (fst (m w)))"

lemma sends_run: "sends P m \<Longrightarrow> m w = (x, w') \<Longrightarrow> \<exists>n. length (nw_posts w') = length (nw_posts w) + n \<and> P n x"
  unfolding sends_def by (metis fst_conv snd_conv)

lemma sends_weaken: "sends Q m \<Longrightarrow> (\<And>n x. Q n x \<Longrightarrow> P n x) \<Longrightarrow> sends P m"
  unfolding sends_def by blast

lemma sends_ok [intro]: "P 0 x \<Longrightarrow> sends P (net_ok x)"
  by (simp add: sends_def net_ok_def)

lemma sends_bind:
  assumes "sends Q m" and "\<And>n x. Q n x \<Longrightarrow> sends (\<lambda>k. P (n + k)) (f x)"
  shows "sends P (net_bind m f)"
  unfolding sends_def
proof
  fix w
  obtain x w1 where m: "m w = (x, w1)" by fastforce
  obtain n where n: "length (nw_posts w1) = length (nw_posts w) + n" "Q n x" using sends_run [OF assms(1) m] by blast
  obtain y w2 where f: "f x w1 = (y, w2)" by fastforce
  obtain k where "length (nw_posts w2) = length (nw_posts w1) + k" "P (n + k) y" using sends_run [OF assms(2) [OF n(2)] f] by blast
  then show "\<exists>n. length (nw_posts (snd (net_bind m f w))) = length (nw_posts w) + n \<and> P n (fst (net_bind m f w))"
    using m f n(1) by (intro exI [of _ "n + k"]) (simp add: net_bind_def)
qed

abbreviation silent :: "'a net \<Rightarrow> bool" where
  "silent \<equiv> sends (\<lambda>n _. n = 0)"

lemma sends_silent: "silent m \<Longrightarrow> (\<And>x. sends P (f x)) \<Longrightarrow> sends P (net_bind m f)"
  by (rule sends_bind [where Q = "\<lambda>n _. n = 0"]) auto

lemma silent_steps [simp]:
  "silent (net_now E)" "silent (elapsed_since E t)" "silent (spend_record sc costs)" "silent (lost_requests sc cost u)"
  "silent paid_new" "silent (check_jev_spend E sc est)" "silent (enter_scope sc ref ledger)" "silent (leave_scope frame owned)"
  "silent (\<lambda>w. spend_record sc (f w) w)"
  using quiet_check [of E sc est]
  by (simp_all add: sends_def quiet_def elapsed_since_def net_bind_def net_now_def net_ok_def lost_requests_def spend_record_def
      lines_extend_def paid_new_def enter_scope_def leave_scope_def Let_def split: option.split lines_ref.split)

lemma sends_scope: "(\<And>sc'. sends P (f sc')) \<Longrightarrow> sends P (jev_spend sc ref ledger f)"
  unfolding jev_spend_def
  by (rule sends_silent, simp, simp only: case_prod_beta, rule sends_bind [where Q = P], assumption, rule sends_silent, auto)

text \<open>What \<open>retried\<close> says of the number of requests.\<close>

definition retry_outcome :: "net_env \<Rightarrow> retry_call \<Rightarrow> nat \<Rightarrow> (retry_stop + http_response option) \<times> request_usage \<Rightarrow> bool" where
  "retry_outcome E c n out \<longleftrightarrow>
     n \<le> retries + 1 - rc_start c \<and> ru_requests (snd out) = int n
     \<and> (case fst out of
          Inr (Some r) \<Rightarrow> 0 < n
        | Inl (Retry_Split m u) \<Rightarrow> rc_split c \<and> m = rc_start c + n \<and> m \<le> retries \<and> u = snd out
        | _ \<Rightarrow> True)"

lemma sends_retry:
  assumes "rc_start c \<le> retries" and "ru_requests u = 0" and "\<And>check. rc_before c = Some check \<Longrightarrow> quiet check"
  shows "sends (retry_outcome E c) (post_with_retry E c u)"
  unfolding sends_def
proof
  fix w
  obtain result u' w' where run: "post_with_retry E c u w = ((result, u'), w')" by (metis prod.collapse)
  have "retried E c (rc_start c) u w result u' w'"
    using retry_loop_retried [OF assms(3), where attempt = "rc_start c"] run assms(1,2) by (simp add: post_with_retry_def retry_ready_def)
  then obtain new where new: "map snd (nw_posts w') = map snd (nw_posts w) @ new" "length new \<le> retries + 1 - rc_start c"
    "call_counts u u' new" "came_back E c (rc_start c) result new u'" by (auto simp: retried_def)
  have "length (nw_posts w') = length (nw_posts w) + length new" using new(1) by (metis length_append length_map)
  moreover have "retry_outcome E c (length new) (result, u')"
    using new(2-4) assms(1,2)
    by (auto simp: retry_outcome_def call_counts_def came_back_def split: sum.splits retry_stop.splits option.splits if_splits)
  ultimately show "\<exists>n. length (nw_posts (snd (post_with_retry E c u w))) = length (nw_posts w) + n
      \<and> retry_outcome E c n (fst (post_with_retry E c u w))" using run by auto
qed

section \<open>What one request of a provider promises\<close>

text \<open>How the result of one request stands to the number \<open>n\<close> of times it was sent.\<close>

definition stop_outcome :: "nat \<Rightarrow> bool \<Rightarrow> nat \<Rightarrow> ask_error \<Rightarrow> bool" where
  "stop_outcome start_attempt split_batch n e \<longleftrightarrow>
     (case e of
        Ask_Split m u \<Rightarrow> split_batch \<and> m = start_attempt + n \<and> m \<le> retries \<and> ru_requests u = int n
      | Ask_Jev (Decision_RetriesExhausted x) \<Rightarrow> re_requests x = int n \<and> re_answered x = []
      | Ask_Jev (Decision_Rejected _) \<Rightarrow> 0 < n
      | Ask_Jev _ \<Rightarrow> True)"

definition post_outcome :: "nat \<Rightarrow> bool \<Rightarrow> nat \<Rightarrow> (ask_error + http_response) \<times> request_usage \<Rightarrow> bool" where
  "post_outcome start_attempt split_batch n out \<longleftrightarrow>
     n \<le> retries + 1 - start_attempt
     \<and> (case fst out of
          Inr r \<Rightarrow> 0 < n \<and> ru_requests (snd out) = int n
        | Inl e \<Rightarrow> stop_outcome start_attempt split_batch n e)"

lemma judged_reply_stops: "judged_reply E url r = Inl e \<Longrightarrow> 0 < n \<Longrightarrow> stop_outcome start_attempt split_batch n (Ask_Jev e)"
  by (auto simp: judged_reply_def response_error_def stop_outcome_def Let_def split: if_splits)

lemma invalid_response_stops: "stop_outcome start_attempt split_batch n (invalid_response serde r what detail)"
  by (simp add: invalid_response_def response_error_def stop_outcome_def)

lemma sends_post:
  assumes "start_attempt \<le> retries"
  shows "sends (post_outcome start_attempt split_batch)
           (post E sc url key body headers usage_default start_attempt split_batch price image_context)"
proof -
  define cost where "cost = input_cost (sc_purpose sc) body price image_context"
  define check where "check = check_jev_spend E sc (spend_estimate cost body price image_context)"
  define c where "c = \<lparr>rc_url = url, rc_body = body,
      rc_headers = (if key = [] then [] else [(lit ''Authorization'', lit ''Bearer '' @ key)]) @ headers,
      rc_seconds = JEV_ATTEMPT_SECONDS, rc_before = Some check, rc_start = start_attempt, rc_split = split_batch\<rparr>"
  have c: "rc_start c = start_attempt" "rc_split c = split_batch" "rc_before c = Some check" by (simp_all add: c_def)
  have retry: "sends (retry_outcome E c) (post_with_retry E c usage_default)"
    using assms quiet_check c by (intro sends_retry) (auto simp: check_def usage_default_def)
  have answered: "post_outcome start_attempt split_batch n (map_sum Ask_Jev id (judged_reply E url r), u)"
    if "retry_outcome E c n (Inr (Some r), u)" for n r u
    using that c judged_reply_stops [of E url r] by (cases "judged_reply E url r") (auto simp: post_outcome_def retry_outcome_def)
  note outcomes = retry_outcome_def post_outcome_def stop_outcome_def unreached_error_def exhausted_error_def Let_def c
  show ?thesis
    unfolding post_def Let_def cost_def [symmetric] check_def [symmetric] c_def [symmetric]
    by (rule sends_silent, simp add: check_def, split sum.split, intro conjI allI impI sends_ok, simp add: outcomes,
        rule sends_silent, simp, rule sends_bind [OF retry], simp only: case_prod_beta,
        auto split!: sum.split retry_stop.split option.split intro!: sends_silent sends_ok answered simp: outcomes)
qed

text \<open>Answers to questions: each fits a question of its key, and all of them are answered.\<close>

definition fits_some :: "(str, question) index_map \<Rightarrow> (str, answer) index_map \<Rightarrow> bool" where
  "fits_some qs answers \<longleftrightarrow> (\<forall>(k, a)\<in>set answers. \<exists>q. (k, q) \<in> set qs \<and> answer_fits q a)"

definition answered_all :: "(str, question) index_map \<Rightarrow> (str, answer) index_map \<Rightarrow> bool" where
  "answered_all qs answers \<longleftrightarrow> set (im_keys answers) = set (im_keys qs) \<and> fits_some qs answers"

lemma answers_fit_all: "answers_fit qs answers \<Longrightarrow> answered_all qs answers"
proof -
  assume "answers_fit qs answers"
  then have "list_all2 (\<lambda>(k, q) (k', a). k = k' \<and> answer_fits q a) qs answers" by (simp add: answers_fit_def)
  then show ?thesis by (induction rule: list_all2_induct) (auto simp: answered_all_def fits_some_def)
qed

lemma fits_some_mono: "fits_some qs answers \<Longrightarrow> set qs \<subseteq> set qs' \<Longrightarrow> set answers' \<subseteq> set answers \<Longrightarrow> fits_some qs' answers'"
  by (fastforce simp: fits_some_def)

lemma fits_some_Un: "set m \<subseteq> set m1 \<union> set m2 \<Longrightarrow> fits_some qs m1 \<Longrightarrow> fits_some qs m2 \<Longrightarrow> fits_some qs m"
  by (fastforce simp: fits_some_def)

lemma im_extend_facts:
  "set (im_keys (im_extend m kvs)) = set (im_keys m) \<union> fst ` set kvs" "set (im_extend m kvs) \<subseteq> set m \<union> set kvs"
proof -
  have insert: "set (im_insert k v m) \<subseteq> insert (k, v) (set m)" for k :: 'a and v :: 'b and m
    by (induction k v m rule: im_insert.induct) auto
  show "set (im_keys (im_extend m kvs)) = set (im_keys m) \<union> fst ` set kvs"
    unfolding im_extend_def by (induction kvs arbitrary: m) (simp_all add: im_insert_keys case_prod_beta)
  show "set (im_extend m kvs) \<subseteq> set m \<union> set kvs"
    unfolding im_extend_def by (induction kvs arbitrary: m) (simp, use insert in fastforce)
qed

text \<open>What the caller of a decision client may rely on, \<open>n\<close> requests having been sent.\<close>

definition counted :: "nat \<Rightarrow> decision_error + evaluation \<Rightarrow> bool" where
  "counted n r \<longleftrightarrow>
     (case r of
        Inr ev \<Rightarrow> eval_requests ev = int n
      | Inl (Decision_RetriesExhausted e) \<Rightarrow> re_requests e = int n
      | Inl (Decision_Rejected _) \<Rightarrow> 0 < n
      | Inl _ \<Rightarrow> True)"

definition call_outcome :: "(str, question) index_map \<Rightarrow> decision_error + evaluation \<Rightarrow> bool" where
  "call_outcome qs r \<longleftrightarrow>
     (case r of
        Inr ev \<Rightarrow> answered_all qs (eval_answers ev)
      | Inl (Decision_RetriesExhausted e) \<Rightarrow> \<forall>part\<in>set (re_answered e). fits_some qs (eval_answers part)
      | Inl _ \<Rightarrow> True)"

definition ask_outcome :: "(str, question) index_map \<Rightarrow> nat \<Rightarrow> bool \<Rightarrow> nat \<Rightarrow> ask_error + evaluation \<Rightarrow> bool" where
  "ask_outcome qs start_attempt split_batch n r \<longleftrightarrow>
     n \<le> retries + 1 - start_attempt
     \<and> (case r of
          Inr ev \<Rightarrow> 0 < n \<and> eval_requests ev = int n \<and> answered_all qs (eval_answers ev)
        | Inl e \<Rightarrow> stop_outcome start_attempt split_batch n e)"

lemma ask_outcome_jev:
  "ask_outcome qs start_attempt False n r \<Longrightarrow> counted n (map_sum into_jev id r) \<and> call_outcome qs (map_sum into_jev id r)"
  by (auto simp: ask_outcome_def stop_outcome_def counted_def call_outcome_def
      split: sum.splits ask_error.splits decision_error.splits)

text \<open>The questions asked one at a time, from a start attempt on.\<close>

definition singles_outcome ::
  "(str, question) index_map \<Rightarrow> nat \<Rightarrow> evaluation list \<Rightarrow> nat \<Rightarrow> (decision_error + unit) \<times> evaluation list \<Rightarrow> bool" where
  "singles_outcome qs start_attempt before n out \<longleftrightarrow>
     start_attempt + n \<le> retries + length qs
     \<and> (\<exists>new. snd out = before @ new \<and> (\<forall>ev\<in>set new. fits_some qs (eval_answers ev))
          \<and> (case fst out of
               Inr _ \<Rightarrow> sum_requests new = int n \<and> (\<Union>ev\<in>set new. set (im_keys (eval_answers ev))) = set (im_keys qs)
                        \<and> length new = length qs
             | Inl (Decision_RetriesExhausted e) \<Rightarrow> sum_requests new + re_requests e = int n
             | Inl (Decision_Rejected _) \<Rightarrow> 0 < n
             | Inl _ \<Rightarrow> True))"

text \<open>The interface of a provider: one request for a batch of questions.\<close>

locale provider =
  fixes ask :: asks
  assumes ask_sends: "start_attempt \<le> retries \<Longrightarrow> sends (ask_outcome qs start_attempt split_batch) (ask sc qs start_attempt split_batch)"
begin

lemma singles_sends:
  "start_attempt \<le> retries \<Longrightarrow> sends (singles_outcome qs start_attempt before) (ask_singles ask sc qs start_attempt before)"
proof (induction qs arbitrary: start_attempt before)
  case Nil
  then show ?case by (auto simp: singles_outcome_def sum_requests_def)
next
  case (Cons kq qs)
  show ?case
    unfolding ask_singles.simps
  proof (rule sends_bind [OF ask_sends [OF Cons.prems]])
    fix n r
    assume r: "ask_outcome [kq] start_attempt False n r"
    show "sends (\<lambda>k. singles_outcome (kq # qs) start_attempt before (n + k)) (case r of
        Inl e \<Rightarrow> net_ok (Inl (into_jev e), before)
      | Inr ev \<Rightarrow> net_bind (spend_record sc [eval_cost ev]) (\<lambda>_.
          ask_singles ask sc qs (min retries (start_attempt + nat (eval_requests ev) - 1)) (before @ [ev])))"
    proof (cases r)
      case (Inl e)
      then show ?thesis
        using r Cons.prems by (cases e rule: into_jev.cases)
          (auto simp: ask_outcome_def stop_outcome_def singles_outcome_def sum_requests_def split: decision_error.splits)
    next
      case (Inr ev)
      then have ev: "0 < n" "eval_requests ev = int n" "n \<le> retries + 1 - start_attempt" "answered_all [kq] (eval_answers ev)"
        using r by (auto simp: ask_outcome_def)
      then have least: "min retries (start_attempt + nat (eval_requests ev) - 1) = start_attempt + n - 1" using Cons.prems by simp
      have grow: "singles_outcome (kq # qs) start_attempt before (n + k) out"
        if out: "singles_outcome qs (start_attempt + n - 1) (before @ [ev]) k out" for k out
      proof -
        obtain new where new: "snd out = before @ ev # new" "\<forall>e\<in>set new. fits_some qs (eval_answers e)"
          and res: "case fst out of
               Inr _ \<Rightarrow> sum_requests new = int k \<and> (\<Union>e\<in>set new. set (im_keys (eval_answers e))) = set (im_keys qs) \<and> length new = length qs
             | Inl (Decision_RetriesExhausted e) \<Rightarrow> sum_requests new + re_requests e = int k | Inl (Decision_Rejected _) \<Rightarrow> 0 < k | Inl _ \<Rightarrow> True"
          using out by (auto simp: singles_outcome_def)
        have "fits_some (kq # qs) (eval_answers e)" if "e \<in> set (ev # new)" for e
          using that new(2) ev(4) fits_some_mono [of "[kq]" "eval_answers e" "kq # qs"] fits_some_mono [of qs "eval_answers e" "kq # qs"]
          by (auto simp: answered_all_def)
        then show ?thesis
          unfolding singles_outcome_def using new res ev out
          by (intro conjI exI [of _ "ev # new"])
            (auto simp: singles_outcome_def sum_requests_def answered_all_def split: sum.splits decision_error.splits)
      qed
      show ?thesis
        unfolding Inr sum.case least
        using ev(3) Cons.prems by (intro sends_silent sends_weaken [OF Cons.IH]) (auto intro: grow)
    qed
  qed
qed

end

definition client_outcome :: "(str, question) index_map \<Rightarrow> nat \<Rightarrow> decision_error + evaluation \<Rightarrow> bool" where
  "client_outcome qs n r \<longleftrightarrow> n \<le> retries + max 1 (length qs) \<and> counted n r \<and> call_outcome qs r"

lemma answered_extend:
  assumes "set (im_keys m) \<union> set (im_keys kvs) = set (im_keys qs)" and "fits_some qs m" and "fits_some qs kvs"
  shows "answered_all qs (im_extend m kvs)"
proof -
  have "set (im_keys (im_extend m kvs)) = set (im_keys qs)" unfolding im_extend_facts(1) using assms(1) by simp
  then show ?thesis using fits_some_Un [OF im_extend_facts(2)] assms(2,3) by (simp only: answered_all_def)
qed

lemma ask_outcome_client: "ask_outcome qs 0 False n r \<Longrightarrow> client_outcome qs n (map_sum into_jev id r)"
  using ask_outcome_jev [of qs 0 n r] by (auto simp: client_outcome_def ask_outcome_def)

lemma split_evaluation_outcome:
  assumes "singles_outcome qs start_attempt [] k (Inr x, answered)" and "start_attempt = n" and "ru_requests u = int n"
  shows "client_outcome qs (n + k) (Inr (split_evaluation sc price u answered seconds))"
proof -
  let ?kvs = "concat (map eval_answers answered)"
  have a: "\<forall>ev\<in>set answered. fits_some qs (eval_answers ev)" "(\<Union>ev\<in>set answered. set (im_keys (eval_answers ev))) = set (im_keys qs)"
    "sum_requests answered = int k" "n + k \<le> retries + length qs"
    using assms by (auto simp: singles_outcome_def)
  have "set (im_keys (im_collect ?kvs)) = set (im_keys qs)" unfolding im_collect_keys a(2) [symmetric] by force
  moreover have "fits_some qs (im_collect ?kvs)" using a(1) im_collect_subset [of ?kvs] by (fastforce simp: fits_some_def)
  ultimately show ?thesis
    using a(3,4) assms(3) by (simp add: client_outcome_def counted_def call_outcome_def answered_all_def split_evaluation_def Let_def)
qed

lemma split_exhausted_outcome:
  assumes "singles_outcome qs start_attempt [] k (Inl (Decision_RetriesExhausted e), answered)" and "start_attempt = n"
    and "ru_requests u = int n"
  shows "client_outcome qs (n + k) (Inl (split_exhausted u answered e seconds))"
  using assms by (auto simp: client_outcome_def counted_def call_outcome_def split_exhausted_def singles_outcome_def Let_def)

lemma forced_answer_fits: "forced_answer (k, q) = Some (k', a) \<Longrightarrow> k' = k \<and> answer_fits q a"
  by (auto simp: forced_answer_def distribution_def unit_interval_def tolerance_def split: question.splits list.splits)

lemma forced_fits: "fits_some qs (im_collect (List.map_filter forced_answer qs))"
proof -
  have "fits_some qs (List.map_filter forced_answer qs)"
    using forced_answer_fits by (fastforce simp: fits_some_def List.map_filter_def)
  then show ?thesis by (rule fits_some_mono) (auto dest: subsetD [OF im_collect_subset])
qed

context provider
begin

lemma split_sends: "sends (client_outcome qs) (asking_split E sc qs ask price)"
proof (cases "length qs < 2")
  case True
  show ?thesis
    unfolding asking_split_def if_P [OF True]
    by (rule sends_bind [OF ask_sends]) (auto simp: ask_outcome_client)
next
  case False
  have stopped: "client_outcome qs n (Inl e)" if "stop_outcome 0 True n (Ask_Jev e)" "n \<le> retries + 1" for n e
    using that False by (auto simp: client_outcome_def counted_def call_outcome_def stop_outcome_def split: decision_error.splits)
  show ?thesis
    unfolding asking_split_def if_not_P [OF False]
  proof (rule sends_silent, simp, rule sends_bind [OF ask_sends])
    fix began n r
    assume r: "ask_outcome qs 0 True n r"
    show "sends (\<lambda>k. client_outcome qs (n + k)) (case r of
        Inl (Ask_Split start_attempt u) \<Rightarrow>
          net_bind paid_new (\<lambda>paid.
          net_bind (jev_spend sc (Lines_Paid paid) None (\<lambda>sc'. ask_singles ask sc' qs start_attempt [])) (\<lambda>(singles, answered).
            case singles of
              Inl error \<Rightarrow>
                net_bind (\<lambda>w. spend_record sc (nw_paid w paid) w) (\<lambda>_.
                  case error of
                    Decision_RetriesExhausted e \<Rightarrow>
                      net_bind (elapsed_since E began) (\<lambda>seconds. net_ok (Inl (split_exhausted u answered e seconds)))
                  | _ \<Rightarrow> net_ok (Inl error))
            | Inr _ \<Rightarrow>
                net_bind (elapsed_since E began) (\<lambda>seconds. net_ok (Inr (split_evaluation sc price u answered seconds)))))
      | Inl (Ask_Jev e) \<Rightarrow> net_ok (Inl e)
      | Inr ev \<Rightarrow> net_ok (Inr ev))"
    proof (cases "\<exists>m u. r = Inl (Ask_Split m u)")
      case True
      then obtain m u where split: "r = Inl (Ask_Split m u)" by blast
      then have m: "m = n" "m \<le> retries" "ru_requests u = int n" using r by (auto simp: ask_outcome_def stop_outcome_def)
      note finish = split_evaluation_outcome [OF _ m(1,3)] split_exhausted_outcome [OF _ m(1,3)]
      have other: "client_outcome qs (n + k) (Inl e)"
        if "singles_outcome qs m [] k (Inl e, b)" "\<nexists>x. e = Decision_RetriesExhausted x" for k e b
        using that m(1) by (cases e) (auto simp: singles_outcome_def client_outcome_def counted_def call_outcome_def)
      show ?thesis
        unfolding split sum.case ask_error.case
        by (rule sends_silent, simp, rule sends_bind [OF sends_scope [OF singles_sends [OF m(2)]]], simp only: case_prod_beta,
            auto split!: sum.split decision_error.split intro!: sends_silent sends_ok intro: finish other)
    next
      case False
      then show ?thesis
        using r stopped by (auto simp: ask_outcome_def client_outcome_def counted_def call_outcome_def split!: sum.split ask_error.split)
    qed
  qed simp
qed

text \<open>A client of the provider: the choices of one option answered here, the rest asked.\<close>

lemma open_sends: "sends (client_outcome qs) (asking_open sc qs (\<lambda>asked. asking_split E sc asked ask price) model price)"
proof -
  define forced where "forced = im_collect (List.map_filter forced_answer qs)"
  define rest where "rest = filter (\<lambda>kq. im_get forced (fst kq) = None) qs"
  have fits: "fits_some qs forced" by (simp add: forced_def forced_fits)
  have rest: "set rest \<subseteq> set qs" "length rest \<le> length qs" by (auto simp: rest_def)
  have "set (im_keys forced) \<subseteq> set (im_keys qs)" using fits by (force simp: fits_some_def)
  then have keys: "set (im_keys rest) \<union> set (im_keys forced) = set (im_keys qs)"
    by (auto simp: rest_def map_of_eq_None_iff)
  have extended: "client_outcome qs n (Inr (ev\<lparr>eval_answers := im_extend (eval_answers ev) forced\<rparr>))"
    if ev: "client_outcome rest n (Inr ev)" for n ev
  proof -
    have "fits_some qs (eval_answers ev)" "set (im_keys (eval_answers ev)) = set (im_keys rest)"
      using ev rest(1) fits_some_mono [of rest _ qs] by (auto simp: client_outcome_def call_outcome_def answered_all_def)
    then have "answered_all qs (im_extend (eval_answers ev) forced)"
      using keys fits by (intro answered_extend) simp_all
    then show ?thesis using ev rest(2) by (auto simp: client_outcome_def counted_def call_outcome_def)
  qed
  have passed: "client_outcome qs n (Inl e)" if "client_outcome rest n (Inl e)" for n e
    using that rest fits_some_mono [of rest _ qs]
    by (auto simp: client_outcome_def counted_def call_outcome_def split: decision_error.splits)
  have unasked: "client_outcome qs 0 (Inr \<lparr>eval_model = model, eval_answers = forced, eval_input_tokens = 0, eval_cost = c, eval_requests = 0\<rparr>)"
    if "rest = []" for c
    using that keys fits by (simp add: client_outcome_def counted_def call_outcome_def answered_all_def)
  show ?thesis
    unfolding asking_open_def Let_def forced_def [symmetric] rest_def [symmetric] net_try_def
    by (auto intro!: sends_ok sends_bind [OF split_sends] split_sends split!: sum.split intro: extended passed unasked)
qed

end

end
