(* ===== verification/Base64.thy ===== *)
theory Base64
  imports PyText
begin

text \<open>
  \<^verbatim>\<open>crates/fastbrowse-core/src/py/base64.rs\<close>: the standard alphabet written, and CPython's
  \<^verbatim>\<open>b64decode\<close> read, at the widths of the source: bytes are \<^verbatim>\<open>u8\<close>, a group of three is
  assembled in a \<^verbatim>\<open>u32\<close>.
\<close>

unbundle bit_operations_syntax

type_synonym byte = "8 word"

definition ALPHABET :: str where
  "ALPHABET = lit ''ABCDEFGHIJKLMNOPQRSTUVWXYZabcdefghijklmnopqrstuvwxyz0123456789+/''"

section \<open>Writing\<close>

text \<open>\<^verbatim>\<open>slice::chunks(3)\<close>.\<close>

fun chunks3 :: "'a list \<Rightarrow> 'a list list" where
  "chunks3 [] = []"
| "chunks3 [a] = [[a]]"
| "chunks3 [a, b] = [[a, b]]"
| "chunks3 (a # b # c # r) = [a, b, c] # chunks3 r"

definition get_or_zero :: "byte list \<Rightarrow> nat \<Rightarrow> 32 word" where
  "get_or_zero chunk i = (if i < length chunk then ucast (chunk ! i) else 0)"

definition chunk_word :: "byte list \<Rightarrow> 32 word" where
  "chunk_word chunk =
     (push_bit 16 (get_or_zero chunk 0) OR push_bit 8 (get_or_zero chunk 1)) OR get_or_zero chunk 2"

definition encode_chunk :: "byte list \<Rightarrow> str" where
  "encode_chunk chunk =
     map (\<lambda>(index, shift).
            if index \<le> length chunk
            then ALPHABET ! unat (drop_bit shift (chunk_word chunk) AND 63)
            else ch (CHR ''=''))
       [(0, 18), (1, 12), (2, 6), (3, 0)]"

definition encode :: "byte list \<Rightarrow> str" where
  "encode bytes = concat (map encode_chunk (chunks3 bytes))"

section \<open>Reading\<close>

definition sextet :: "nat \<Rightarrow> byte option" where
  "sextet b = map_option of_nat (find_pos (\<lambda>a. a = b) ALPHABET)"

record decoder =
  dec_out :: "byte list"
  quad :: nat
  pads :: nat
  left_bits :: "32 word"
  data_chars :: nat

definition decoder_start :: decoder where
  "decoder_start = \<lparr>dec_out = [], quad = 0, pads = 0, left_bits = 0, data_chars = 0\<rparr>"

text \<open>What one character of the alphabet does: the \<^verbatim>\<open>match quad\<close> of the loop.\<close>

definition take_sextet :: "byte \<Rightarrow> decoder \<Rightarrow> decoder" where
  "take_sextet v d =
     (let w = ucast v :: 32 word;
          d' = d\<lparr>pads := 0, data_chars := data_chars d + 1, quad := (quad d + 1) mod 4\<rparr>
      in if quad d = 0 then d'\<lparr>left_bits := w\<rparr>
         else if quad d = 1 then
           d'\<lparr>dec_out := dec_out d @ [ucast (push_bit 2 (left_bits d) OR drop_bit 4 w)], left_bits := w AND 0x0f\<rparr>
         else if quad d = 2 then
           d'\<lparr>dec_out := dec_out d @ [ucast (push_bit 4 (left_bits d) OR drop_bit 2 w)], left_bits := w AND 0x03\<rparr>
         else d'\<lparr>dec_out := dec_out d @ [ucast (push_bit 6 (left_bits d) OR w)], left_bits := 0\<rparr>)"

definition decode_end :: "decoder \<Rightarrow> str + byte list" where
  "decode_end d =
     (if quad d = 0 then Inr (dec_out d)
      else if quad d = 1 then
        Inl (lit ''Invalid base64-encoded string: number of data characters ('' @ dec (data_chars d)
             @ lit '') cannot be 1 more than a multiple of 4'')
      else Inl (lit ''Incorrect padding''))"

fun decode_loop :: "nat list \<Rightarrow> decoder \<Rightarrow> str + byte list" where
  "decode_loop [] d = decode_end d"
| "decode_loop (b # rest) d =
     (if b = ch (CHR ''='') then
        (let d' = d\<lparr>pads := pads d + 1\<rparr> in
         if quad d' \<ge> 2 \<and> quad d' + pads d' \<ge> 4 \<and> \<not> list_ex (\<lambda>x. sextet x \<noteq> None) rest
         then Inr (dec_out d')
         else decode_loop rest d')
      else (case sextet b of
              None \<Rightarrow> decode_loop rest d
            | Some v \<Rightarrow> decode_loop rest (take_sextet v d)))"

definition decode :: "str \<Rightarrow> str + byte list" where
  "decode s = decode_loop (utf8 s) decoder_start"

section \<open>The alphabet\<close>

lemma length_ALPHABET [simp]: "length ALPHABET = 64"
  by (simp add: ALPHABET_def)

lemma alphabet_sextets: "list_all (\<lambda>i. sextet (ALPHABET ! i) = Some (of_nat i)) [0..<64]"
  by code_simp

lemma sextet_ALPHABET [simp]: "i < 64 \<Longrightarrow> sextet (ALPHABET ! i) = Some (of_nat i)"
  using alphabet_sextets by (simp add: list_all_iff)

lemma alphabet_ascii: "list_all (\<lambda>c. c < 128 \<and> c \<noteq> 61) ALPHABET"
  by code_simp

lemma ALPHABET_nth: "i < 64 \<Longrightarrow> ALPHABET ! i < 128 \<and> ALPHABET ! i \<noteq> 61"
  using alphabet_ascii by (simp add: list_all_length)

lemma mask_63: "(x :: 32 word) AND 63 = take_bit 6 x"
  by (simp add: take_bit_eq_mask mask_eq_exp_minus_1)

lemma and_63_less: "unat ((x :: 32 word) AND 63) < 64"
  using take_bit_nat_less_exp [of 6 "unat x"] by (simp add: mask_63 unsigned_take_bit_eq)

lemma sextet_pad [simp]: "sextet 61 = None"
  by code_simp

lemma sextet_value: "ucast (of_nat (unat ((x :: 32 word) AND 63)) :: byte) = x AND 63"
proof -
  have "ucast (ucast (x AND 63) :: byte) = x AND 63"
    by (rule bit_word_eqI) (auto simp: mask_63 bit_simps)
  then show ?thesis by simp
qed

section \<open>Reading back a group\<close>

text \<open>The four sextets of a group, and the bytes the decoder reassembles from them.\<close>

definition group_sextet :: "byte list \<Rightarrow> nat \<Rightarrow> 32 word" where
  "group_sextet chunk shift = drop_bit shift (chunk_word chunk) AND 63"

lemma byte_eqI:
  "bit a 0 = bit b 0 \<Longrightarrow> bit a 1 = bit b 1 \<Longrightarrow> bit a 2 = bit b 2 \<Longrightarrow> bit a 3 = bit b 3 \<Longrightarrow>
   bit a 4 = bit b 4 \<Longrightarrow> bit a 5 = bit b 5 \<Longrightarrow> bit a 6 = bit b 6 \<Longrightarrow> bit a 7 = bit b 7 \<Longrightarrow> a = (b :: byte)"
  by (rule bit_word_eqI) (auto simp: numeral_eq_Suc less_Suc_eq)

lemma byte_bit_high [simp]: "8 \<le> n \<Longrightarrow> \<not> bit (a :: byte) n"
  using bit_imp_le_length [of a n] by auto

lemma get_or_zero_bit: "bit (get_or_zero chunk i) n \<longleftrightarrow> i < length chunk \<and> n < 8 \<and> bit (chunk ! i) n"
  by (auto simp: get_or_zero_def bit_simps dest: bit_imp_le_length [where ?'a = 8])

lemmas group_bits =
  group_sextet_def mask_63 chunk_word_def bit_simps get_or_zero_bit

lemma mask_15: "(x :: 32 word) AND 15 = take_bit 4 x"
  by (simp add: take_bit_eq_mask mask_eq_exp_minus_1)

lemma mask_3: "(x :: 32 word) AND 3 = take_bit 2 x"
  by (simp add: take_bit_eq_mask mask_eq_exp_minus_1)

lemma group_byte_0: "ucast (push_bit 2 (group_sextet (a # r) 18) OR drop_bit 4 (group_sextet (a # r) 12)) = a"
  by (rule byte_eqI) (simp_all add: group_bits)

lemma group_byte_1:
  "ucast (push_bit 4 (group_sextet (a # b # r) 12 AND 15) OR drop_bit 2 (group_sextet (a # b # r) 6)) = b"
  by (rule byte_eqI) (simp_all add: group_bits mask_15)

lemma group_byte_2:
  "ucast (push_bit 6 (group_sextet (a # b # c # r) 6 AND 3) OR group_sextet (a # b # c # r) 0) = c"
  by (rule byte_eqI) (simp_all add: group_bits mask_3)

section \<open>The round trip\<close>

lemma group_char:
  "ALPHABET ! unat (group_sextet chunk k) \<noteq> 61"
  "sextet (ALPHABET ! unat (group_sextet chunk k)) = Some (of_nat (unat (group_sextet chunk k)))"
  using ALPHABET_nth [OF and_63_less, of "drop_bit k (chunk_word chunk)"]
  by (simp_all add: group_sextet_def and_63_less del: of_nat_unat)

lemma ucast_group_sextet: "ucast (of_nat (unat (group_sextet chunk k)) :: byte) = group_sextet chunk k"
  unfolding group_sextet_def by (rule sextet_value)

lemma encode_chunk_sextets:
  "encode_chunk [a] =
     [ALPHABET ! unat (group_sextet [a] 18), ALPHABET ! unat (group_sextet [a] 12), 61, 61]"
  "encode_chunk [a, b] =
     [ALPHABET ! unat (group_sextet [a, b] 18), ALPHABET ! unat (group_sextet [a, b] 12),
      ALPHABET ! unat (group_sextet [a, b] 6), 61]"
  "encode_chunk [a, b, c] =
     [ALPHABET ! unat (group_sextet [a, b, c] 18), ALPHABET ! unat (group_sextet [a, b, c] 12),
      ALPHABET ! unat (group_sextet [a, b, c] 6), ALPHABET ! unat (group_sextet [a, b, c] 0)]"
  by (simp_all add: encode_chunk_def group_sextet_def)

lemmas decode_group =
  group_char take_sextet_def ucast_group_sextet group_byte_0 group_byte_1 [simplified]
  group_byte_2 [simplified] Let_def

lemma decode_loop_encode:
  "quad d = 0 \<Longrightarrow> pads d = 0 \<Longrightarrow> decode_loop (encode bytes) d = Inr (dec_out d @ bytes)"
proof (induction bytes arbitrary: d rule: chunks3.induct)
  case 1
  then show ?case by (simp add: encode_def decode_end_def)
next
  case (2 a)
  then show ?case by (simp add: encode_def encode_chunk_sextets decode_group del: of_nat_unat)
next
  case (3 a b)
  then show ?case by (simp add: encode_def encode_chunk_sextets decode_group del: of_nat_unat)
next
  case (4 a b c r)
  then show ?case by (simp add: encode_def encode_chunk_sextets decode_group del: of_nat_unat)
qed

lemma encode_chars: "c \<in> set (encode bytes) \<Longrightarrow> c < 128"
proof -
  assume "c \<in> set (encode bytes)"
  then obtain chunk where "c \<in> set (encode_chunk chunk)" by (auto simp: encode_def)
  then show ?thesis
    using ALPHABET_nth [OF and_63_less] by (auto simp: encode_chunk_def split: if_splits)
qed

lemma utf8_ascii: "\<forall>c\<in>set s. c < 128 \<Longrightarrow> utf8 s = s"
  by (induction s) (auto simp: utf8_def utf8_char_def)

lemma length_encode: "length (encode bytes) = 4 * ((length bytes + 2) div 3)"
proof (induction bytes rule: chunks3.induct)
  case (4 a b c r)
  have "Suc (Suc (Suc (Suc (Suc (length r))))) div 3 = Suc (Suc (Suc (length r)) div 3)" by simp
  with 4 show ?case by (simp add: encode_def encode_chunk_sextets)
qed (simp_all add: encode_def encode_chunk_sextets)

text \<open>
  C23: decoding what was encoded gives the bytes back, for every byte string, and the
  encoding has the length reserved for it, four characters for every three bytes begun.
\<close>
theorem base64_roundtrip:
  "decode (encode bytes) = Inr bytes \<and> length (encode bytes) = 4 * ((length bytes + 2) div 3)"
  using decode_loop_encode [of decoder_start bytes] encode_chars [of _ bytes]
  by (simp add: decode_def utf8_ascii decoder_start_def length_encode)

end
