(* ===== verification/Failures.thy ===== *)
theory Failures
  imports Decision
begin

text \<open>
  \<^verbatim>\<open>crates/fastbrowse-core/src/llm.rs\<close> (the error type) and \<^verbatim>\<open>crates/fastbrowse-agent/src/error.rs\<close>: the
  errors a step of the agent can raise, as one type.
\<close>

datatype llm_error =
    LLM_Failed str
  | LLM_RetriesExhausted str
  | LLM_Rejected str
  | LLM_Budget budget_exceeded

fun llm_unavailable :: "llm_error \<Rightarrow> bool" where
  "llm_unavailable (LLM_RetriesExhausted _) = True"
| "llm_unavailable _ = False"

datatype agent_error =
    Agent_Jev decision_error
  | Agent_Llm llm_error
  | Agent_Budget budget_exceeded
  | Agent_ObservationTooLarge str
  | Agent_NotesTooLarge str
  | Agent_Invalid str

fun agent_error_of_llm :: "llm_error \<Rightarrow> agent_error" where
  "agent_error_of_llm (LLM_Budget budget) = Agent_Budget budget"
| "agent_error_of_llm other = Agent_Llm other"

fun agent_unavailable :: "agent_error \<Rightarrow> bool" where
  "agent_unavailable (Agent_Jev e) = decision_unavailable e"
| "agent_unavailable (Agent_Llm e) = llm_unavailable e"
| "agent_unavailable _ = False"

text \<open>A budget stop reached inside a client stays a budget stop and is never taken for an outage.\<close>

lemma budget_never_unavailable:
  "agent_error_of_llm (LLM_Budget b) = Agent_Budget b" "\<not> agent_unavailable (agent_error_of_llm (LLM_Budget b))"
  "agent_error_of_llm e \<noteq> Agent_Llm (LLM_Budget b)"
  by (simp, simp, cases e) simp_all

end
