(* ===== verification/Clients.thy ===== *)
theory Clients
  imports Asking Base64 Failures
begin

text \<open>
  The decision clients of \<^verbatim>\<open>crates/fastbrowse-clients\<close>: System One (\<^verbatim>\<open>system_one.rs\<close>), the Vercel gateway
  (\<^verbatim>\<open>vercel.rs\<close>), OpenAI's decisions (\<^verbatim>\<open>openai_decisions.rs\<close>), and the clients that keep a run on its backup
  (\<^verbatim>\<open>failover.rs\<close>).  Each writes its request, reads the reply through the same validation, and is asked through
  \<open>asking_open\<close> and \<open>asking_split\<close>; the locale \<open>decision_client\<close> states what the agent relies on, and every client
  is shown to meet it.  A trace span around a call is left out.
\<close>

type_synonym images = "(str, byte list) index_map"

text \<open>A model name a reply carries, else the one asked.\<close>

definition reply_model :: "(str \<times> json) list \<Rightarrow> str \<Rightarrow> str + str" where
  "reply_model payload asked =
     (case im_get payload (lit ''model'') of
        None \<Rightarrow> Inr asked
      | Some (JString model) \<Rightarrow> Inr model
      | Some _ \<Rightarrow> Inl (lit ''invalid model name''))"

text \<open>What a request sent and read gives: the parse of the reply, then the wall time of the call.\<close>

definition read_reply ::
  "net_env \<Rightarrow> real \<Rightarrow> str \<Rightarrow> (http_response \<Rightarrow> str + str \<times> (str, answer) index_map \<times> int \<times> cost_line)
     \<Rightarrow> (ask_error + http_response) \<times> request_usage \<Rightarrow> (ask_error + evaluation) net" where
  "read_reply E began what parse out =
     (case fst out of
        Inl e \<Rightarrow> net_ok (Inl e)
      | Inr response \<Rightarrow>
          (case parse response of
             Inl detail \<Rightarrow> net_ok (Inl (invalid_response (net_serde E) response what detail))
           | Inr (model, answers, input, cost) \<Rightarrow>
               net_bind (elapsed_since E began) (\<lambda>seconds. net_ok (Inr
                 \<lparr>eval_model = model, eval_answers = answers, eval_input_tokens = input,
                  eval_cost = timed cost (snd out) seconds, eval_requests = ru_requests (snd out)\<rparr>))))"

section \<open>System One\<close>

record system_one_client =
  so_api_key :: str
  so_base_url :: str
  so_model :: str
  so_profile :: decision_profile
  so_path :: str
  so_headers :: "(str \<times> str) list"

definition SYSTEM_ONE_PATH :: str where
  "SYSTEM_ONE_PATH = lit ''/v1/systemone''"

definition LONG_CONTEXT_HEADER :: "str \<times> str" where
  "LONG_CONTEXT_HEADER = (lit ''TypeSafe-Danger-Zone-Long-Context'', lit ''true'')"

definition IMAGES_HEADER :: "str \<times> str" where
  "IMAGES_HEADER = (lit ''TypeSafe-Danger-Zone-Images'', lit ''true'')"

definition system_one_new :: "str \<Rightarrow> str \<Rightarrow> str \<Rightarrow> system_one_client" where
  "system_one_new api_key base_url model =
     \<lparr>so_api_key = api_key, so_base_url = trim_end (\<lambda>c. c = 47) base_url, so_model = model, so_profile = for_model model,
      so_path = SYSTEM_ONE_PATH, so_headers = []\<rparr>"

definition so_long_context :: "system_one_client \<Rightarrow> system_one_client" where
  "so_long_context c = c\<lparr>so_profile := long_context (so_profile c)\<rparr>"

definition so_images :: "system_one_client \<Rightarrow> system_one_client" where
  "so_images c = c\<lparr>so_profile := (so_profile c)\<lparr>profile_images := True\<rparr>\<rparr>"

definition so_typesafe :: "system_one_client \<Rightarrow> system_one_client" where
  "so_typesafe c = so_long_context (so_images (c\<lparr>so_headers := so_headers c @ [LONG_CONTEXT_HEADER]\<rparr>))"

definition so_at :: "str \<Rightarrow> system_one_client \<Rightarrow> system_one_client" where
  "so_at path c = c\<lparr>so_path := path\<rparr>"

definition so_unpriced :: "system_one_client \<Rightarrow> system_one_client" where
  "so_unpriced c = c\<lparr>so_profile := (so_profile c)\<lparr>dollars_per_input_token := None\<rparr>\<rparr>"

definition image_assets :: "images \<Rightarrow> json" where
  "image_assets images =
     JObject (map (\<lambda>(key, png). (key, JObject [(lit ''type'', JString (lit ''image'')), (lit ''format'', JString (lit ''png'')),
                                              (lit ''data_base64'', JString (encode png))])) images)"

definition system_one_parse ::
  "net_env \<Rightarrow> call_scope \<Rightarrow> system_one_client \<Rightarrow> (str, question) index_map \<Rightarrow> http_response
     \<Rightarrow> str + str \<times> (str, answer) index_map \<times> int \<times> cost_line" where
  "system_one_parse E sc c questions response =
     and_then (json_object (net_serde E) response) (\<lambda>payload.
     and_then (object_value (im_get payload (lit ''usage''))) (\<lambda>usage.
     and_then (token_count (im_get usage (lit ''input_tokens''))) (\<lambda>tokens.
     and_then (case im_get usage (lit ''output_tokens'') of None \<Rightarrow> Inr 0 | v \<Rightarrow> token_count v) (\<lambda>output_tokens.
     and_then (reported_cost (sc_purpose sc) (im_get usage (lit ''cost'')) tokens output_tokens (dollars_per_input_token (so_profile c))) (\<lambda>cost.
     and_then (reply_model payload (so_model c)) (\<lambda>model.
     and_then (parse_answers (net_num E) (im_get payload (lit ''answers'')) questions False None) (\<lambda>answers.
       Inr (model, answers, tokens, cost))))))))"

definition system_one_request ::
  "net_env \<Rightarrow> system_one_client \<Rightarrow> json \<Rightarrow> images \<Rightarrow> call_scope \<Rightarrow> (str, question) index_map \<Rightarrow> nat \<Rightarrow> bool
     \<Rightarrow> (ask_error + evaluation) net" where
  "system_one_request E c state images sc questions start_attempt split_batch =
     net_bind (net_now E) (\<lambda>began.
       let plain = [(lit ''model'', JString (so_model c)), (lit ''state'', state), (lit ''questions'', wire_questions questions False)];
           body = JObject (if images = [] then plain else plain @ [(lit ''assets'', image_assets images)]);
           headers = so_headers c @ (if images = [] then [] else [IMAGES_HEADER])
       in net_bind (post E sc (so_base_url c @ so_path c) (so_api_key c) body headers usage_default start_attempt split_batch
                      (dollars_per_input_token (so_profile c)) (if images = [] then None else Some (max_total_tokens (so_profile c))))
            (read_reply E began (lit ''Invalid Jev response'') (system_one_parse E sc c questions)))"

definition system_one_answer ::
  "net_env \<Rightarrow> system_one_client \<Rightarrow> call_scope \<Rightarrow> json \<Rightarrow> (str, question) index_map \<Rightarrow> images \<Rightarrow> (decision_error + evaluation) net" where
  "system_one_answer E c sc state questions images =
     (let price = dollars_per_input_token (so_profile c) in
      asking_open sc questions (\<lambda>asked. asking_split E sc asked (system_one_request E c state images) price) (so_model c) price)"

definition system_one_evaluate_images ::
  "net_env \<Rightarrow> system_one_client \<Rightarrow> call_scope \<Rightarrow> json \<Rightarrow> (str, question) index_map \<Rightarrow> images \<Rightarrow> (decision_error + evaluation) net" where
  "system_one_evaluate_images E c sc state questions images =
     (if profile_images (so_profile c) then system_one_answer E c sc state questions images
      else system_one_answer E c sc (without_images state (set (im_keys images))) questions [])"

section \<open>The Vercel gateway\<close>

record vercel_client =
  vc_api_key :: str
  vc_base_url :: str

definition vercel_new :: "str \<Rightarrow> str \<Rightarrow> vercel_client" where
  "vercel_new api_key base_url = \<lparr>vc_api_key = api_key, vc_base_url = trim_end (\<lambda>c. c = 47) base_url\<rparr>"

definition VERCEL_MODEL :: str where
  "VERCEL_MODEL = lit ''typesafe-ai/jev-1.14.0''"

definition VERCEL_PRICE :: "real option" where
  "VERCEL_PRICE = Some (42 / 1000 / 1000000)"

definition object_or_empty :: "(str \<times> json) list \<Rightarrow> str \<Rightarrow> str + (str \<times> json) list" where
  "object_or_empty m key = object_value (Some (case im_get m key of Some v \<Rightarrow> v | None \<Rightarrow> JObject []))"

definition vercel_parse ::
  "net_env \<Rightarrow> call_scope \<Rightarrow> (str, question) index_map \<Rightarrow> http_response \<Rightarrow> str + str \<times> (str, answer) index_map \<times> int \<times> cost_line" where
  "vercel_parse E sc questions response =
     and_then (json_object (net_serde E) response) (\<lambda>payload.
     and_then (object_value (im_get payload (lit ''usage''))) (\<lambda>usage.
     and_then (token_count (im_get usage (lit ''inputTokens''))) (\<lambda>tokens.
     and_then (case im_get usage (lit ''outputTokens'') of None \<Rightarrow> Inr 0 | v \<Rightarrow> token_count v) (\<lambda>output_tokens.
     and_then (object_or_empty payload (lit ''providerMetadata'')) (\<lambda>metadata.
     and_then (object_or_empty metadata (lit ''typesafe'')) (\<lambda>typesafe.
     and_then (object_or_empty typesafe (lit ''confidence'')) (\<lambda>confidence.
     and_then (object_or_empty metadata (lit ''gateway'')) (\<lambda>gateway.
     and_then (reported_cost (sc_purpose sc) (im_get gateway (lit ''cost'')) tokens output_tokens VERCEL_PRICE) (\<lambda>cost.
     and_then (parse_answers (net_num E) (im_get payload (lit ''answers'')) questions True (Some confidence)) (\<lambda>answers.
       Inr (VERCEL_MODEL, answers, tokens, cost)))))))))))"

definition vercel_request ::
  "net_env \<Rightarrow> vercel_client \<Rightarrow> json \<Rightarrow> call_scope \<Rightarrow> (str, question) index_map \<Rightarrow> nat \<Rightarrow> bool \<Rightarrow> (ask_error + evaluation) net" where
  "vercel_request E c state sc questions start_attempt split_batch =
     net_bind (net_now E) (\<lambda>began.
       let body = JObject [(lit ''state'', state), (lit ''questions'', wire_questions questions True)];
           headers = [(lit ''ai-gateway-auth-method'', lit ''api-key''), (lit ''ai-gateway-protocol-version'', lit ''0.0.1''),
                      (lit ''ai-model-id'', VERCEL_MODEL), (lit ''ai-evaluation-model-specification-version'', lit ''4'')]
       in net_bind (post E sc (vc_base_url c @ lit ''/v4/ai/evaluation-model'') (vc_api_key c) body headers usage_default
                      start_attempt split_batch VERCEL_PRICE None)
            (read_reply E began (lit ''Invalid gateway response'') (vercel_parse E sc questions)))"

definition vercel_evaluate ::
  "net_env \<Rightarrow> vercel_client \<Rightarrow> call_scope \<Rightarrow> json \<Rightarrow> (str, question) index_map \<Rightarrow> (decision_error + evaluation) net" where
  "vercel_evaluate E c sc state questions =
     asking_open sc questions (\<lambda>asked. asking_split E sc asked (vercel_request E c state) VERCEL_PRICE) VERCEL_MODEL VERCEL_PRICE"

section \<open>OpenAI's decisions\<close>

record openai_client =
  oc_api_key :: str
  oc_base_url :: str
  oc_model :: str
  oc_profile :: decision_profile

definition criterion_description :: "str \<Rightarrow> json \<Rightarrow> str" where
  "criterion_description key criterion =
     (case criterion of JString s \<Rightarrow> s | JNull \<Rightarrow> key | v \<Rightarrow> dumps v)"

definition predicate_instructions :: "noul_question \<Rightarrow> str" where
  "predicate_instructions q =
     nq_instructions q
     @ (case nq_true q of Some meaning \<Rightarrow> [10] @ lit ''Yes means: '' @ meaning | None \<Rightarrow> [])
     @ (case nq_false q of Some meaning \<Rightarrow> [10] @ lit ''No means: '' @ meaning | None \<Rightarrow> [])"

definition decisions_wire_question :: "str \<times> question \<Rightarrow> json" where
  "decisions_wire_question kq =
     (case kq of (name, question) \<Rightarrow>
        (case question of
           Q_Noul q \<Rightarrow>
             JObject [(lit ''type'', JString (lit ''predicate'')), (lit ''name'', JString name),
                      (lit ''instructions'', JString (predicate_instructions q))]
         | Q_Choice q \<Rightarrow>
             JObject [(lit ''type'', JString (lit ''choice'')), (lit ''name'', JString name),
                      (lit ''instructions'', JString (cq_instructions q)),
                      (lit ''choices'', JArray (map (\<lambda>(key, criterion).
                         JObject [(lit ''value'', JString key), (lit ''description'', JString (criterion_description key criterion))])
                         (cq_criteria q)))]
         | Q_Score q \<Rightarrow>
             JObject [(lit ''type'', JString (lit ''score'')), (lit ''name'', JString name),
                      (lit ''instructions'', JString (sq_instructions q)),
                      (lit ''levels'', JArray (map (\<lambda>(i, level).
                         JObject [(lit ''label'', JString (dec i)), (lit ''description'', JString level)])
                         (zip [0..<length (sq_criteria q)] (sq_criteria q))))]
         | Q_Box instructions \<Rightarrow>
             JObject [(lit ''type'', JString (lit ''box'')), (lit ''name'', JString name),
                      (lit ''instructions'', JString instructions)]))"

definition decisions_wire_questions :: "(str, question) index_map \<Rightarrow> json" where
  "decisions_wire_questions questions = JArray (map decisions_wire_question questions)"

definition or_null :: "json option \<Rightarrow> json" where
  "or_null v = (case v of Some x \<Rightarrow> x | None \<Rightarrow> JNull)"

fun keyed_items :: "net_env \<Rightarrow> str \<Rightarrow> json list \<Rightarrow> (str, json) index_map \<Rightarrow> str + (str, json) index_map" where
  "keyed_items E name [] keyed = Inr keyed"
| "keyed_items E name (item # items) keyed =
     and_then (object_value (Some item)) (\<lambda>m.
     and_then (case im_get m name of
                 Some (JString key) \<Rightarrow> Inr key
               | Some (JInt i) \<Rightarrow> Inr (dec_int i)
               | Some (JFloat f) \<Rightarrow> Inr (net_float E f)
               | _ \<Rightarrow> Inl (lit ''a probability without its '' @ name)) (\<lambda>key.
       keyed_items E name items (im_insert key (or_null (im_get m (lit ''probability''))) keyed)))"

definition keyed_probabilities :: "net_env \<Rightarrow> json option \<Rightarrow> str \<Rightarrow> str + json" where
  "keyed_probabilities E v name =
     (case v of
        Some (JArray items) \<Rightarrow> map_sum id JObject (keyed_items E name items [])
      | _ \<Rightarrow> Inl (lit ''probabilities are not a list''))"

definition decision_answer :: "net_env \<Rightarrow> str \<Rightarrow> (str \<times> json) list \<Rightarrow> str + json" where
  "decision_answer E name item =
     (let kind = Option.bind (im_get item (lit ''type'')) as_str;
          get = (\<lambda>key. or_null (im_get item key))
      in if kind = Some (lit ''predicate'')
           then Inr (JObject [(lit ''type'', JString (lit ''noul'')), (lit ''noul'', get (lit ''probability''))])
         else if kind = Some (lit ''choice'')
           then and_then (keyed_probabilities E (im_get item (lit ''probabilities'')) (lit ''value'')) (\<lambda>ps.
             Inr (JObject [(lit ''type'', JString (lit ''choice'')), (lit ''choice'', get (lit ''choice'')),
                           (lit ''probabilities'', ps), (lit ''confidence'', get (lit ''confidence''))]))
         else if kind = Some (lit ''score'')
           then and_then (keyed_probabilities E (im_get item (lit ''probabilities'')) (lit ''label'')) (\<lambda>ps.
             Inr (JObject [(lit ''type'', JString (lit ''score'')), (lit ''score'', get (lit ''score'')),
                           (lit ''probabilities'', ps), (lit ''confidence'', get (lit ''confidence''))]))
         else if kind = Some (lit ''refusal'') then Inl (lit ''the model refused '' @ name)
         else Inl (lit ''incorrect answer type for '' @ name))"

fun decision_items :: "net_env \<Rightarrow> json list \<Rightarrow> (str, json) index_map \<Rightarrow> str + (str, json) index_map" where
  "decision_items E [] answers = Inr answers"
| "decision_items E (item # items) answers =
     and_then (object_value (Some item)) (\<lambda>m.
       case im_get m (lit ''name'') of
         Some (JString name) \<Rightarrow>
           and_then (decision_answer E name m) (\<lambda>a.
             if im_get answers name \<noteq> None then Inl (lit ''two answers for '' @ name)
             else decision_items E items (im_insert name a answers))
       | _ \<Rightarrow> Inl (lit ''an answer without its name''))"

definition system_one_answers :: "net_env \<Rightarrow> json option \<Rightarrow> str + json" where
  "system_one_answers E v =
     (case v of
        Some (JArray items) \<Rightarrow> map_sum id JObject (decision_items E items [])
      | _ \<Rightarrow> Inl (lit ''answers are not a list''))"

definition decisions_input :: "json \<Rightarrow> json" where
  "decisions_input state =
     (case state of
        JString s \<Rightarrow> JString s
      | v \<Rightarrow> JArray [JObject [(lit ''role'', JString (lit ''user'')),
               (lit ''content'', JArray [JObject [(lit ''type'', JString (lit ''input_json'')), (lit ''data'', v)]])]])"

definition openai_new :: "str \<Rightarrow> str \<Rightarrow> str \<Rightarrow> openai_client" where
  "openai_new api_key base_url model =
     \<lparr>oc_api_key = api_key, oc_base_url = trim_end (\<lambda>c. c = 47) base_url, oc_model = model, oc_profile = for_model model\<rparr>"

definition oc_unpriced :: "openai_client \<Rightarrow> openai_client" where
  "oc_unpriced c = c\<lparr>oc_profile := (oc_profile c)\<lparr>dollars_per_input_token := None\<rparr>\<rparr>"

definition openai_parse ::
  "net_env \<Rightarrow> call_scope \<Rightarrow> openai_client \<Rightarrow> (str, question) index_map \<Rightarrow> http_response
     \<Rightarrow> str + str \<times> (str, answer) index_map \<times> int \<times> cost_line" where
  "openai_parse E sc c questions response =
     and_then (json_object (net_serde E) response) (\<lambda>payload.
     and_then (object_value (im_get payload (lit ''usage''))) (\<lambda>usage.
     and_then (token_count (im_get usage (lit ''input_tokens''))) (\<lambda>tokens.
     and_then (reply_model payload (oc_model c)) (\<lambda>model.
     and_then (system_one_answers E (im_get payload (lit ''answers''))) (\<lambda>rewritten.
     and_then (parse_answers (net_num E) (Some rewritten) questions False None) (\<lambda>answers.
       Inr (model, answers, tokens, estimated_cost (sc_purpose sc) (dollars_per_input_token (oc_profile c)) tokens 0)))))))"

definition openai_request ::
  "net_env \<Rightarrow> openai_client \<Rightarrow> json \<Rightarrow> call_scope \<Rightarrow> (str, question) index_map \<Rightarrow> nat \<Rightarrow> bool \<Rightarrow> (ask_error + evaluation) net" where
  "openai_request E c state sc questions start_attempt split_batch =
     net_bind (net_now E) (\<lambda>began.
       let body = JObject [(lit ''model'', JString (oc_model c)), (lit ''input'', decisions_input state),
                           (lit ''questions'', decisions_wire_questions questions)]
       in net_bind (post E sc (oc_base_url c @ lit ''/v1/decisions'') (oc_api_key c) body [] usage_default start_attempt split_batch
                      (dollars_per_input_token (oc_profile c)) None)
            (read_reply E began (lit ''Invalid decisions response'') (openai_parse E sc c questions)))"

definition openai_evaluate ::
  "net_env \<Rightarrow> openai_client \<Rightarrow> call_scope \<Rightarrow> json \<Rightarrow> (str, question) index_map \<Rightarrow> (decision_error + evaluation) net" where
  "openai_evaluate E c sc state questions =
     (let price = dollars_per_input_token (oc_profile c) in
      asking_open sc questions (\<lambda>asked. asking_split E sc asked (openai_request E c state) price) (oc_model c) price)"

text \<open>\<^verbatim>\<open>evaluate_images\<close> of a client whose route takes no image.\<close>

definition evaluate_images ::
  "(call_scope \<Rightarrow> json \<Rightarrow> (str, question) index_map \<Rightarrow> (decision_error + evaluation) net)
     \<Rightarrow> call_scope \<Rightarrow> json \<Rightarrow> (str, question) index_map \<Rightarrow> images \<Rightarrow> (decision_error + evaluation) net" where
  "evaluate_images evaluate sc state questions images = evaluate sc (without_images state (set (im_keys images))) questions"

section \<open>Failover\<close>

type_synonym decision_call = "call_scope \<Rightarrow> json \<Rightarrow> (str, question) index_map \<Rightarrow> images \<Rightarrow> (decision_error + evaluation) net"

text \<open>The exhaustion a refused key counts as.\<close>

definition refused_exhausted :: "str \<Rightarrow> retries_exhausted" where
  "refused_exhausted reason =
     \<lparr>re_message = reason, re_seconds = 0, re_unaccounted_requests = 0, re_requests = 1, re_answered = [], re_last = reason\<rparr>"

definition moved_exhausted :: "retries_exhausted \<Rightarrow> retries_exhausted \<Rightarrow> retries_exhausted" where
  "moved_exhausted error backup_error =
     (let requests = re_requests error + re_requests backup_error;
          seconds = re_seconds error + re_seconds backup_error
      in \<lparr>re_message = exhausted_text requests seconds (re_last backup_error), re_seconds = seconds,
          re_unaccounted_requests = re_unaccounted_requests error + re_unaccounted_requests backup_error,
          re_requests = requests, re_answered = re_answered error @ re_answered backup_error, re_last = re_last backup_error\<rparr>)"

definition held_answers :: "retries_exhausted \<Rightarrow> (str, answer) index_map" where
  "held_answers error = im_collect (concat (map eval_answers (re_answered error)))"

definition moved_evaluation :: "retries_exhausted \<Rightarrow> evaluation \<Rightarrow> evaluation" where
  "moved_evaluation error result =
     (let requests = eval_requests result + re_requests error in
      \<lparr>eval_model = eval_model result, eval_answers = im_extend (held_answers error) (eval_answers result),
       eval_input_tokens = eval_input_tokens result + (\<Sum>part\<leftarrow>re_answered error. eval_input_tokens part),
       eval_cost = (eval_cost result)\<lparr>line_physical_requests := Some requests,
         line_seconds := Some (re_seconds error + (case line_seconds (eval_cost result) of Some s \<Rightarrow> s | None \<Rightarrow> 0))\<rparr>,
       eval_requests = requests\<rparr>)"

definition move_to_backup :: "unit net" where
  "move_to_backup w = ((), w\<lparr>nw_on_backup := True\<rparr>)"

text \<open>The failure of the first client asked that moves the run.\<close>

definition moving_error :: "bool \<Rightarrow> decision_error + evaluation \<Rightarrow> retries_exhausted option" where
  "moving_error on_backup first =
     (case first of
        Inl (Decision_RetriesExhausted e) \<Rightarrow> if on_backup then None else Some e
      | Inl (Decision_Rejected reason) \<Rightarrow> if on_backup then None else Some (refused_exhausted reason)
      | _ \<Rightarrow> None)"

definition switching :: "decision_call \<Rightarrow> decision_call \<Rightarrow> decision_call" where
  "switching primary backup sc state questions images =
     net_bind (\<lambda>w. (nw_on_backup w, w)) (\<lambda>on_backup.
     net_bind ((if on_backup then backup else primary) sc state questions images) (\<lambda>first.
       case moving_error on_backup first of
         None \<Rightarrow> net_ok first
       | Some error \<Rightarrow>
           net_bind move_to_backup (\<lambda>_.
           net_bind (backup sc state (filter (\<lambda>kq. im_get (held_answers error) (fst kq) = None) questions) images) (\<lambda>second.
             net_ok (case second of
               Inr result \<Rightarrow> Inr (moved_evaluation error result)
             | Inl (Decision_RetriesExhausted e) \<Rightarrow> Inl (Decision_RetriesExhausted (moved_exhausted error e))
             | Inl other \<Rightarrow> Inl other)))))"

definition evaluate_paid :: "decision_call \<Rightarrow> decision_call \<Rightarrow> decision_call" where
  "evaluate_paid primary backup sc state questions images =
     net_bind paid_new (\<lambda>paid.
     net_bind (jev_spend sc (Lines_Paid paid) None (\<lambda>sc'. switching primary backup sc' state questions images)) (\<lambda>result.
       case result of
         Inl error \<Rightarrow> net_bind (\<lambda>w. spend_record sc (nw_paid w paid) w) (\<lambda>_. net_ok (Inl error))
       | Inr ev \<Rightarrow>
           net_bind (\<lambda>w. (nw_paid w paid, w)) (\<lambda>held.
             let merged = (if held = [] then eval_cost ev
                           else (merged_cost (sc_purpose sc) (held @ [eval_cost ev]))\<lparr>line_seconds := line_seconds (eval_cost ev)\<rparr>)
             in net_ok (Inr (ev\<lparr>eval_cost := merged\<lparr>line_physical_requests := Some (eval_requests ev)\<rparr>\<rparr>)))))"

text \<open>The LLM on its backup once the primary refused its key.  \<open>generate\<close> of a client is a function of its world.\<close>

definition failover_generate ::
  "('w \<Rightarrow> (llm_error + 'g) \<times> 'w) \<Rightarrow> ('w \<Rightarrow> (llm_error + 'g) \<times> 'w) \<Rightarrow> bool \<times> 'w \<Rightarrow> (llm_error + 'g) \<times> bool \<times> 'w" where
  "failover_generate primary backup sw =
     (case sw of (on_backup, w) \<Rightarrow>
        if on_backup then (case backup w of (r, w') \<Rightarrow> (r, True, w'))
        else
          (case primary w of
             (Inl (LLM_Rejected _), w1) \<Rightarrow> (case backup w1 of (r, w') \<Rightarrow> (r, True, w'))
           | (r, w1) \<Rightarrow> (r, False, w1)))"

definition failover_context_tokens :: "int option \<Rightarrow> int option \<Rightarrow> int option" where
  "failover_context_tokens primary backup =
     (case (primary, backup) of
        (Some p, Some b) \<Rightarrow> Some (min p b)
      | (Some p, None) \<Rightarrow> Some p
      | (None, b) \<Rightarrow> b)"

section \<open>Any client\<close>

text \<open>The clients a run may hold behind \<^verbatim>\<open>dyn DecisionClient\<close>: one provider, or one with another as its backup.\<close>

datatype provider_client = System_One system_one_client | Vercel vercel_client | OpenAI openai_client

datatype run_client = Direct provider_client | Failover provider_client provider_client

fun provider_evaluate :: "net_env \<Rightarrow> provider_client \<Rightarrow> decision_call" where
  "provider_evaluate E (System_One c) = system_one_evaluate_images E c"
| "provider_evaluate E (Vercel c) = evaluate_images (vercel_evaluate E c)"
| "provider_evaluate E (OpenAI c) = evaluate_images (openai_evaluate E c)"

fun client_evaluate :: "net_env \<Rightarrow> run_client \<Rightarrow> decision_call" where
  "client_evaluate E (Direct p) = provider_evaluate E p"
| "client_evaluate E (Failover p b) = evaluate_paid (provider_evaluate E p) (provider_evaluate E b)"

section \<open>What a client promises\<close>

text \<open>A client never claims more requests than were sent, and a refused key was refused by an answer.\<close>

definition billed :: "nat \<Rightarrow> decision_error + evaluation \<Rightarrow> bool" where
  "billed n r \<longleftrightarrow>
     (case r of
        Inr ev \<Rightarrow> eval_requests ev \<le> int n
      | Inl (Decision_RetriesExhausted e) \<Rightarrow> re_requests e \<le> int n
      | Inl (Decision_Rejected _) \<Rightarrow> 0 < n
      | Inl _ \<Rightarrow> True)"

lemma counted_billed: "counted n r \<Longrightarrow> billed n r"
  by (auto simp: counted_def billed_def split: sum.splits decision_error.splits)

definition promised :: "(str, question) index_map \<Rightarrow> nat \<Rightarrow> decision_error + evaluation \<Rightarrow> bool" where
  "promised qs n r \<longleftrightarrow> billed n r \<and> call_outcome qs r"

locale decision_client =
  fixes evaluate :: decision_call
  assumes evaluate_sends: "sends (promised qs) (evaluate sc state qs images)"
begin

lemma answers_exactly: "evaluate sc state qs images w = (Inr ev, w') \<Longrightarrow> answered_all qs (eval_answers ev)"
  using sends_run [OF evaluate_sends] by (fastforce simp: promised_def call_outcome_def)

lemma requests_sent:
  "evaluate sc state qs images w = (Inr ev, w') \<Longrightarrow> length (nw_posts w) + nat (eval_requests ev) \<le> length (nw_posts w')"
  using sends_run [OF evaluate_sends] by (fastforce simp: promised_def billed_def)

end

text \<open>A client of one provider also counts its requests exactly and keeps to its share of retries.\<close>

locale direct_client =
  fixes evaluate :: decision_call
  assumes direct_sends: "sends (client_outcome qs) (evaluate sc state qs images)"

sublocale direct_client \<subseteq> decision_client
  by unfold_locales (rule sends_weaken [OF direct_sends], simp add: client_outcome_def promised_def counted_billed)

text \<open>Reading a reply keeps what sending it counted.\<close>

lemma sends_read_reply:
  assumes "post_outcome start_attempt split_batch n out"
    and "\<And>r model answers input cost. parse r = Inr (model, answers, input, cost) \<Longrightarrow> answered_all qs answers"
  shows "sends (\<lambda>k. ask_outcome qs start_attempt split_batch (n + k)) (read_reply E began what parse out)"
proof (cases "fst out")
  case (Inl e)
  then show ?thesis using assms(1) by (auto simp: read_reply_def post_outcome_def ask_outcome_def)
next
  case (Inr response)
  then have n: "n \<le> retries + 1 - start_attempt" "0 < n" "ru_requests (snd out) = int n"
    using assms(1) by (auto simp: post_outcome_def)
  show ?thesis
    unfolding read_reply_def Inr sum.case using n assms(2) [of response]
    by (auto split!: sum.split prod.split intro!: sends_ok sends_silent simp: ask_outcome_def invalid_response_stops)
qed

lemma sends_request:
  assumes "start_attempt \<le> retries"
    and "\<And>r model answers input cost. parse r = Inr (model, answers, input, cost) \<Longrightarrow> answered_all qs answers"
  shows "sends (ask_outcome qs start_attempt split_batch)
           (net_bind (post E sc url key body headers usage_default start_attempt split_batch price image_context) (read_reply E began what parse))"
  using sends_bind [OF sends_post [OF assms(1)] sends_read_reply [OF _ assms(2)]] .

lemma parse_answered:
  "system_one_parse E sc c qs r = Inr (model, answers, input, cost) \<Longrightarrow> answered_all qs answers"
  "vercel_parse E sc qs r = Inr (model, answers, input, cost) \<Longrightarrow> answered_all qs answers"
  "openai_parse E sc c' qs r = Inr (model, answers, input, cost) \<Longrightarrow> answered_all qs answers"
  by (auto simp: system_one_parse_def vercel_parse_def openai_parse_def and_then_def split: sum.splits
      intro!: answers_fit_all dest: parse_answers_fit)

interpretation system_one: provider "system_one_request E c state images" for E c state images
  unfolding provider_def system_one_request_def Let_def
  by (intro allI impI sends_silent sends_request parse_answered(1)) simp_all

interpretation vercel: provider "vercel_request E c state" for E c state
  unfolding provider_def vercel_request_def Let_def
  by (intro allI impI sends_silent sends_request parse_answered(2)) simp_all

interpretation openai: provider "openai_request E c state" for E c state
  unfolding provider_def openai_request_def Let_def
  by (intro allI impI sends_silent sends_request parse_answered(3)) simp_all

interpretation provider_client: direct_client "provider_evaluate E p" for E p
  by unfold_locales
    (cases p; simp add: system_one_evaluate_images_def system_one_answer_def evaluate_images_def vercel_evaluate_def openai_evaluate_def
      Let_def system_one.open_sends vercel.open_sends openai.open_sends)

text \<open>A client with a backup.\<close>

locale failover = primary: decision_client primary + backup: decision_client backup
  for primary :: decision_call and backup :: decision_call
begin

lemma moved_sends:
  assumes "\<forall>part\<in>set (re_answered error). fits_some qs (eval_answers part)" and "re_requests error \<le> int n"
  shows "sends (\<lambda>k. promised qs (n + k))
           (net_bind (backup sc state (filter (\<lambda>kq. im_get (held_answers error) (fst kq) = None) qs) images) (\<lambda>second.
              net_ok (case second of
                Inr result \<Rightarrow> Inr (moved_evaluation error result)
              | Inl (Decision_RetriesExhausted e) \<Rightarrow> Inl (Decision_RetriesExhausted (moved_exhausted error e))
              | Inl other \<Rightarrow> Inl other)))"
proof -
  define remaining where "remaining = filter (\<lambda>kq. im_get (held_answers error) (fst kq) = None) qs"
  have held: "fits_some qs (held_answers error)"
    using assms(1) im_collect_subset [of "concat (map eval_answers (re_answered error))"]
    by (fastforce simp: held_answers_def fits_some_def)
  then have "set (im_keys (held_answers error)) \<subseteq> set (im_keys qs)" by (force simp: fits_some_def)
  then have keys: "set (im_keys (held_answers error)) \<union> set (im_keys remaining) = set (im_keys qs)"
    by (auto simp: remaining_def map_of_eq_None_iff)
  have fits: "fits_some remaining m \<Longrightarrow> fits_some qs m" for m by (erule fits_some_mono) (auto simp: remaining_def)
  have moved: "promised qs (n + k) (Inr (moved_evaluation error ev))" if "promised remaining k (Inr ev)" for k ev
    using that assms(2) held keys fits answered_extend [of "held_answers error" "eval_answers ev" qs]
    by (simp add: promised_def billed_def call_outcome_def moved_evaluation_def answered_all_def Let_def)
  have lost: "promised qs (n + k) (Inl (Decision_RetriesExhausted (moved_exhausted error e)))"
    if "promised remaining k (Inl (Decision_RetriesExhausted e))" for k e
    using that assms fits by (auto simp: promised_def billed_def call_outcome_def moved_exhausted_def Let_def)
  show ?thesis
    unfolding remaining_def [symmetric]
    by (rule sends_bind [OF backup.evaluate_sends])
      (auto split!: sum.split decision_error.split intro!: sends_ok simp: moved lost, auto simp: promised_def billed_def call_outcome_def)
qed

lemma switching_sends: "sends (promised qs) (switching primary backup sc state qs images)"
proof -
  have read: "silent (\<lambda>w. (nw_on_backup w, w))" "silent move_to_backup" by (simp_all add: sends_def move_to_backup_def)
  have first: "sends (promised qs) ((if on_backup then backup else primary) sc state qs images)" for on_backup
    by (simp add: primary.evaluate_sends backup.evaluate_sends)
  have error: "(\<forall>part\<in>set (re_answered e). fits_some qs (eval_answers part)) \<and> re_requests e \<le> int n"
    if "moving_error on_backup r = Some e" "promised qs n r" for on_backup r e n
    using that by (auto simp: moving_error_def promised_def billed_def call_outcome_def refused_exhausted_def
        split: sum.splits decision_error.splits if_splits)
  show ?thesis
    unfolding switching_def
    by (rule sends_silent [OF read(1)], rule sends_bind [OF first])
      (auto split!: option.split intro!: sends_ok sends_silent [OF read(2)] moved_sends dest: error)
qed

lemma paid_sends: "sends (promised qs) (evaluate_paid primary backup sc state qs images)"
proof -
  have read: "silent (\<lambda>w. (nw_paid w paid, w))" for paid by (simp add: sends_def)
  show ?thesis
    unfolding evaluate_paid_def Let_def
    by (rule sends_silent, simp, rule sends_bind [OF sends_scope [OF switching_sends]])
      (auto split!: sum.split intro!: sends_ok sends_silent [OF read] sends_silent simp: promised_def billed_def call_outcome_def)
qed

end

sublocale failover \<subseteq> decision_client "evaluate_paid primary backup"
  by unfold_locales (rule paid_sends)

interpretation provider_failover: failover "provider_evaluate E p" "provider_evaluate E b" for E p b
  by unfold_locales

interpretation run_client: decision_client "client_evaluate E c" for E c
  using provider_client.evaluate_sends provider_failover.paid_sends by unfold_locales (cases c; simp)

lemma without_no_images: "without_images v {} = v"
proof (induction v "{} :: str set" rule: without_images.induct)
  case (1 m)
  have "without_images (snd kv) {} = snd kv" if "kv \<in> set m" for kv using 1 that by (auto simp: image_ref_def split: json.split)
  then show ?case by (auto simp: image_ref_def map_idI split: json.split)
next
  case (2 vs)
  have "without_images v {} = v" if "v \<in> set vs" for v using 2 that by (auto simp: image_ref_def split: json.split)
  then show ?case by (auto simp: image_ref_def map_idI split: json.split)
qed simp_all

text \<open>\<^verbatim>\<open>evaluate\<close>, the call without images.\<close>

fun run_evaluate :: "net_env \<Rightarrow> run_client \<Rightarrow> call_scope \<Rightarrow> json \<Rightarrow> (str, question) index_map \<Rightarrow> (decision_error + evaluation) net" where
  "run_evaluate E (Direct (System_One c)) sc state qs = system_one_answer E c sc state qs []"
| "run_evaluate E (Direct (Vercel c)) sc state qs = vercel_evaluate E c sc state qs"
| "run_evaluate E (Direct (OpenAI c)) sc state qs = openai_evaluate E c sc state qs"
| "run_evaluate E (Failover p b) sc state qs = evaluate_paid (provider_evaluate E p) (provider_evaluate E b) sc state qs []"

lemma run_evaluate_images: "run_evaluate E c sc state qs = client_evaluate E c sc state qs []"
  by (induction E c sc state qs rule: run_evaluate.induct)
    (simp_all add: system_one_evaluate_images_def evaluate_images_def without_no_images)

text \<open>
  C18: Asking \<open>n\<close> questions of a provider sends at most \<open>n + 5\<close> requests (six when there is at most one question), however
  the provider fails: the batch and the single questions it is split into share one stock of retries.  The evaluation, or
  the exhaustion it ends in, counts exactly the requests that were sent; and what comes back answers exactly the questions
  asked, each answer one its question allows.
\<close>

theorem provider_requests_bounded:
  assumes "provider_evaluate E p sc state qs images w = (r, w')"
  shows "\<exists>n. length (nw_posts w') = length (nw_posts w) + n \<and> n \<le> 5 + max 1 (length qs) \<and> counted n r \<and> call_outcome qs r"
  using sends_run [OF provider_client.direct_sends assms] by (auto simp: client_outcome_def retries_def RETRY_DELAYS_SECONDS_def)

definition example_reply_json :: json where
  "example_reply_json =
     JObject [(lit ''usage'', JObject [(lit ''input_tokens'', JInt 10)]),
              (lit ''answers'', JObject [(lit ''go'', JObject [(lit ''type'', JString (lit ''noul'')), (lit ''noul'', JInt 1)])])]"

definition example_asked :: "(str, question) index_map" where
  "example_asked = [(lit ''go'', Q_Noul \<lparr>nq_instructions = lit ''Go on?'', nq_true = None, nq_false = None\<rparr>)]"

definition example_provider :: provider_client where
  "example_provider = System_One (system_one_new (lit ''key'') (lit ''https://api.typesafe.ai/'') (lit ''jev-1.14''))"

lemma example_run:
  "case provider_evaluate (example_net\<lparr>net_serde := (\<lambda>_. Inr example_reply_json)\<rparr>) example_provider
       \<lparr>sc_spend = None, sc_purpose = None\<rparr> JNull example_asked [] example_net_world of
     (Inr ev, w') \<Rightarrow> eval_answers ev = [(lit ''go'', A_Noul 1)] \<and> eval_requests ev = 2 \<and> length (nw_posts w') = 2
   | _ \<Rightarrow> False"
  by code_simp

abbreviation example_serving :: net_env where
  "example_serving \<equiv> example_net\<lparr>net_serde := (\<lambda>_. Inr example_reply_json)\<rparr>"

theorem provider_requests_bounded_witness:
  "\<exists>r w' n. provider_evaluate example_serving example_provider \<lparr>sc_spend = None, sc_purpose = None\<rparr> JNull example_asked [] example_net_world = (r, w')
     \<and> length (nw_posts w') = length (nw_posts example_net_world) + n \<and> n \<le> 6 \<and> counted n r \<and> call_outcome example_asked r"
proof -
  obtain r w' where run: "provider_evaluate example_serving example_provider \<lparr>sc_spend = None, sc_purpose = None\<rparr> JNull example_asked []
      example_net_world = (r, w')" by fastforce
  with provider_requests_bounded [OF run] show ?thesis by (simp add: example_asked_def)
qed


text \<open>A provider whose key is refused, beside one that answers.\<close>

definition example_failover :: run_client where
  "example_failover = Failover (System_One (system_one_new (lit ''old'') (lit ''https://openrouter.ai/api'') (lit ''jev-1.14''))) example_provider"

definition example_refusing :: net_env where
  "example_refusing = example_serving\<lparr>net_transport := (\<lambda>_ rq. Inr
     \<lparr>resp_status = (if rq_url rq = lit ''https://openrouter.ai/api/v1/systemone'' then 401 else 200), resp_headers = [], resp_body = [],
      resp_credential = []\<rparr>)\<rparr>"

lemma example_moves:
  "case client_evaluate example_refusing example_failover \<lparr>sc_spend = None, sc_purpose = None\<rparr> JNull example_asked [] example_net_world of
     (Inr ev, w') \<Rightarrow> eval_answers ev = [(lit ''go'', A_Noul 1)] \<and> eval_requests ev = 2 \<and> length (nw_posts w') = 2 \<and> nw_on_backup w'
   | _ \<Rightarrow> False"
  by code_simp


text \<open>A refused key counts as one request, also when retries came before the refusal.\<close>

definition example_late_refusal :: net_env where
  "example_late_refusal = example_serving\<lparr>net_transport := (\<lambda>w rq. Inr
     \<lparr>resp_status = (if rq_url rq \<noteq> lit ''https://openrouter.ai/api/v1/systemone'' then 200 else if nw_posts w = [] then 503 else 401),
      resp_headers = [], resp_body = [], resp_credential = []\<rparr>)\<rparr>"

lemma failover_undercounts:
  "case client_evaluate example_late_refusal example_failover \<lparr>sc_spend = None, sc_purpose = None\<rparr> JNull example_asked [] example_net_world of
     (Inr ev, w') \<Rightarrow> eval_requests ev = 2 \<and> length (nw_posts w') = 3
   | _ \<Rightarrow> False"
  by code_simp

end
