(* ===== verification/Page.thy ===== *)
theory Page
  imports Models
begin

text \<open>
  \<^verbatim>\<open>crates/fastbrowse-core/src/page.rs\<close>: the data that crosses the seam between the browser and
  the decision loop, and the cut that keeps page text within a model's budget.  The \<^verbatim>\<open>Page\<close>
  trait itself is the browser; it is not modelled.
\<close>

section \<open>Cutting text to a budget\<close>

definition cut_marker :: "nat \<Rightarrow> str" where
  "cut_marker omitted =
     [10] @ lit ''[Viewport text cut: '' @ dec omitted @ lit '' characters omitted; read the page for the rest]''"

definition text_size :: "bool \<Rightarrow> str \<Rightarrow> nat" where
  "text_size json_encoded s = (if json_encoded then dumped_len s else text_len s)"

definition cut_at :: "str \<Rightarrow> (nat \<Rightarrow> str) \<Rightarrow> nat \<Rightarrow> str" where
  "cut_at s marker keep = take keep s @ marker (length s - keep)"

text \<open>The \<^verbatim>\<open>while low < high\<close> loop; \<^verbatim>\<open>(low + high).div_ceil(2)\<close> is \<open>(low + high + 1) div 2\<close>.\<close>

function cut_search :: "(nat \<Rightarrow> bool) \<Rightarrow> nat \<Rightarrow> nat \<Rightarrow> nat" where
  "cut_search fits low high =
     (if low < high then
        (let middle = (low + high + 1) div 2 in
         if fits middle then cut_search fits middle high else cut_search fits low (middle - 1))
      else low)"
  by pat_completeness auto

termination cut_search
  by (relation "measure (\<lambda>(_, low, high). high - low)") auto

declare cut_search.simps [simp del]

definition cut_with :: "str \<Rightarrow> nat \<Rightarrow> bool \<Rightarrow> (nat \<Rightarrow> str) \<Rightarrow> str" where
  "cut_with s max_chars json_encoded marker =
     (if text_size json_encoded s \<le> max_chars then s
      else (let fits = (\<lambda>keep. text_size json_encoded (cut_at s marker keep) \<le> max_chars);
                low = cut_search fits 0 (min (length s) max_chars)
            in if 0 < low \<and> fits low then cut_at s marker low else []))"

definition cut_text :: "str \<Rightarrow> nat \<Rightarrow> bool \<Rightarrow> str" where
  "cut_text s max_chars json_encoded = cut_with s max_chars json_encoded cut_marker"

section \<open>Controls and observations\<close>

record control =
  ctl_id :: str
  ctl_frame_id :: "str option"
  ctl_frame_origin :: "str option"
  ctl_form_id :: "str option"
  ctl_retarget_key :: "str option"
  ctl_role :: str
  ctl_label :: str
  ctl_context :: "str option"
  ctl_operations :: "operation set"
  ctl_value :: "str option"
  ctl_focused :: "bool option"
  ctl_href :: "str option"
  ctl_options :: "str list"
  ctl_input_type :: "str option"
  ctl_input_name :: "str option"
  ctl_max_length :: "nat option"
  ctl_autocomplete :: "str option"
  ctl_submit_semantics :: "str option"
  ctl_checked :: "bool option"
  ctl_selected :: "bool option"
  ctl_expanded :: "bool option"
  ctl_sensitive :: bool
  ctl_offscreen :: bool
  ctl_required :: "bool option"
  ctl_invalid :: "bool option"
  ctl_validation_message :: "str option"
  ctl_next_page :: "bool option"
  ctl_download :: "bool option"
  ctl_already_read :: "bool option"

definition control_new :: "str \<Rightarrow> str \<Rightarrow> str \<Rightarrow> operation list \<Rightarrow> control" where
  "control_new i role label ops =
     \<lparr>ctl_id = i, ctl_frame_id = None, ctl_frame_origin = None, ctl_form_id = None, ctl_retarget_key = None,
      ctl_role = role, ctl_label = label, ctl_context = None, ctl_operations = set ops, ctl_value = None,
      ctl_focused = None, ctl_href = None, ctl_options = [], ctl_input_type = None, ctl_input_name = None,
      ctl_max_length = None, ctl_autocomplete = None, ctl_submit_semantics = None, ctl_checked = None,
      ctl_selected = None, ctl_expanded = None, ctl_sensitive = False, ctl_offscreen = False,
      ctl_required = None, ctl_invalid = None, ctl_validation_message = None, ctl_next_page = None,
      ctl_download = None, ctl_already_read = None\<rparr>"

text \<open>\<^verbatim>\<open>Option::filter(|s| !s.is_empty())\<close>, which the sources apply to optional texts.\<close>

definition non_empty :: "str option \<Rightarrow> str option" where
  "non_empty x = (case x of Some s \<Rightarrow> if s = [] then None else Some s | None \<Rightarrow> None)"

definition pager_link :: "control \<Rightarrow> bool" where
  "pager_link c \<longleftrightarrow>
     ctl_role c = lit ''link'' \<and> ctl_next_page c = Some True \<and> Op_Click \<in> ctl_operations c
     \<and> non_empty (ctl_href c) \<noteq> None"

record tab =
  tab_id :: str
  tab_url :: str
  tab_title :: str
  tab_active :: bool
  tab_opener_id :: "str option"

record dialog =
  dialog_kind :: str
  dialog_message :: str
  dialog_default_prompt :: "str option"

record media =
  media_kind :: str
  media_label :: "str option"
  media_heading :: "str option"
  media_paused :: bool
  media_ended :: bool
  media_muted :: bool
  media_elapsed_seconds :: real
  media_duration_seconds :: "real option"

record observation =
  obs_url :: str
  obs_title :: str
  obs_page_key :: str
  obs_captured_at :: datetime
  obs_response_status :: "int option"
  obs_document_key :: str
  obs_controls :: "control list"
  obs_viewport_text :: str
  obs_offscreen_text :: str
  obs_visual_content :: bool
  obs_media :: "media list"
  obs_tabs :: "tab list"
  obs_dialog :: "dialog option"
  obs_inaccessible_frames :: int
  obs_can_go_back :: bool
  obs_history_entry :: "str option"

definition http_status :: "int option \<Rightarrow> str + int option" where
  "http_status st =
     (case st of
        Some n \<Rightarrow> if 100 \<le> n \<and> n \<le> 999 then Inr (Some n)
                  else Inl (lit ''Input should be between 100 and 999'')
      | None \<Rightarrow> Inr None)"

section \<open>Captures\<close>

datatype block_kind =
    Block_Heading | Block_Paragraph | Block_ListItem | Block_Table | Block_Record | Block_Code
  | Block_Link | Block_Observation

fun block_kind_str :: "block_kind \<Rightarrow> str" where
  "block_kind_str Block_Heading = lit ''heading''"
| "block_kind_str Block_Paragraph = lit ''paragraph''"
| "block_kind_str Block_ListItem = lit ''list_item''"
| "block_kind_str Block_Table = lit ''table''"
| "block_kind_str Block_Record = lit ''record''"
| "block_kind_str Block_Code = lit ''code''"
| "block_kind_str Block_Link = lit ''link''"
| "block_kind_str Block_Observation = lit ''observation''"

definition block_kind_ALL :: "block_kind list" where
  "block_kind_ALL = [Block_Heading, Block_Paragraph, Block_ListItem, Block_Table, Block_Record, Block_Code,
     Block_Link, Block_Observation]"

interpretation block_kind_enum: str_enum block_kind_ALL block_kind_str "enum_parse block_kind_ALL block_kind_str"
  by (rule str_enumI, rule block_kind.induct, simp_all add: block_kind_ALL_def)

record block =
  blk_source_id :: str
  blk_source_url :: "str option"
  blk_complete_source :: bool
  blk_kind :: block_kind
  blk_frame_id :: "str option"
  blk_start :: int
  blk_end :: int
  blk_heading_path :: "str list"
  blk_control_context :: "source_control option"
  blk_href :: "str option"
  blk_list_id :: "str option"
  blk_list_count :: "int option"
  blk_list_frameless :: bool

record capture =
  cap_url :: str
  cap_title :: str
  cap_captured_at :: datetime
  cap_sha256 :: str
  cap_text :: str
  cap_blocks :: "block list"
  cap_inaccessible_frames :: int

definition block_text :: "capture \<Rightarrow> block \<Rightarrow> str" where
  "block_text c b =
     (let start = nat (max (blk_start b) 0);
          rest = (if start < length (cap_text c) then drop start (cap_text c) else [])
      in text_prefix rest (nat (max (blk_end b - blk_start b) 0)))"

section \<open>Actions\<close>

record act =
  act_operation :: operation
  act_url :: "str option"
  act_target_id :: "str option"
  act_destination_id :: "str option"
  act_text :: "str option"
  act_secret :: bool
  act_tab_id :: "str option"
  act_secret_origin :: "str option"
  act_files :: "attachment list"
  act_accept_dialog :: "bool option"

definition act_new :: "operation \<Rightarrow> act" where
  "act_new op =
     \<lparr>act_operation = op, act_url = None, act_target_id = None, act_destination_id = None, act_text = None,
      act_secret = False, act_tab_id = None, act_secret_origin = None, act_files = [],
      act_accept_dialog = None\<rparr>"

datatype browser_error =
    Browser_Failed str | Browser_ContextLost str | Browser_Unavailable str | Browser_PageUnresponsive str
  | Browser_ScreenshotsUnavailable str | Browser_NavigationTimeout str | Browser_SiteUnreachable str
  | Browser_NeedsBrowser str

fun needs_browser :: "browser_error \<Rightarrow> bool" where
  "needs_browser (Browser_NeedsBrowser _) = True"
| "needs_browser _ = False"

fun browser_error_unavailable :: "browser_error \<Rightarrow> bool" where
  "browser_error_unavailable (Browser_Unavailable _) = True"
| "browser_error_unavailable _ = False"

record act_result =
  result_outcome :: step_outcome
  result_page_changed :: bool
  result_detail :: "str option"
  result_moved :: bool

section \<open>Facts about the cut\<close>

text \<open>The search returns the last position that fits, when fitting is downward closed.\<close>

lemma fits_down:
  assumes "\<And>k. fits (Suc k) \<Longrightarrow> fits k" and "k \<le> n" and "fits n"
  shows "fits k"
  using assms(2,3) by (induction rule: inc_induct) (auto intro: assms(1))

lemma cut_search_spec:
  "(\<And>k. fits (Suc k) \<Longrightarrow> fits k) \<Longrightarrow> low \<le> high \<Longrightarrow>
    low \<le> cut_search fits low high \<and> cut_search fits low high \<le> high \<and>
    (cut_search fits low high = low \<or> fits (cut_search fits low high)) \<and>
    (\<forall>k. cut_search fits low high < k \<and> k \<le> high \<longrightarrow> \<not> fits k)"
proof (induction fits low high rule: cut_search.induct)
  case (1 fits low high)
  show ?case
  proof (cases "low < high")
    case False
    with "1.prems" show ?thesis by (auto simp: cut_search.simps)
  next
    case True
    define middle where "middle = (low + high + 1) div 2"
    with True have m: "low < middle" "middle \<le> high" by auto
    show ?thesis
    proof (cases "fits middle")
      case fit: True
      then have "cut_search fits low high = cut_search fits middle high"
        using True by (simp add: cut_search.simps [of fits low high] middle_def)
      with "1.IH"(1) [OF True middle_def fit "1.prems"(1)] fit m show ?thesis by auto
    next
      case unfit: False
      then have eq: "cut_search fits low high = cut_search fits low (middle - 1)"
        using True by (simp add: cut_search.simps [of fits low high] middle_def)
      have high: "\<not> fits k" if "middle - 1 < k" for k
      proof -
        have "middle \<le> k" using that by simp
        then show ?thesis using fits_down [of fits middle k] "1.prems"(1) unfit by blast
      qed
      have "low \<le> middle - 1" using m by simp
      from "1.IH"(2) [OF True middle_def unfit "1.prems"(1) this] m high show ?thesis
        unfolding eq by (meson diff_le_self le_trans not_less)
    qed
  qed
qed

lemma text_size_append [simp]: "text_size j (s @ t) = text_size j s + text_size j t"
  by (simp add: text_size_def text_len_def dumped_len_def)

lemma dumped_char_len_pos: "1 \<le> dumped_char_len c"
  by (simp add: dumped_char_len_def)

lemma length_le_text_size: "length s \<le> text_size j s"
proof (induction s)
  case (Cons c s)
  then show ?case using dumped_char_len_pos [of c] by (auto simp: text_size_def text_len_def dumped_len_def)
qed simp

lemma text_size_single: "1 \<le> text_size j [c]"
  using length_le_text_size [of "[c]" j] by simp

lemma text_size_dec: "text_size j (dec n) = length (dec n)"
proof -
  have "sum_list (map dumped_char_len s) = length s" if "\<forall>c\<in>set s. is_digit c" for s
    using that by (induction s) (auto simp: dumped_char_len_def is_digit_def)
  then show ?thesis using dec_digits by (auto simp: text_size_def text_len_def dumped_len_def)
qed

lemma cut_marker_step: "text_size j (cut_marker n) \<le> text_size j (cut_marker (Suc n))"
  "text_size j (cut_marker (Suc n)) \<le> Suc (text_size j (cut_marker n))"
  unfolding cut_marker_def text_size_append text_size_dec using length_dec_Suc [of n] by simp_all

lemma cut_at_mono:
  "text_size j (cut_at s cut_marker k) \<le> text_size j (cut_at s cut_marker (Suc k))"
proof (cases "k < length s")
  case True
  then have n: "length s - k = Suc (length s - Suc k)" and t: "take (Suc k) s = take k s @ [s ! k]"
    by (simp_all add: take_Suc_conv_app_nth)
  show ?thesis
    unfolding cut_at_def n t text_size_append
    using cut_marker_step(2) [of j "length s - Suc k"] text_size_single [of j "s ! k"] by linarith
qed (simp add: cut_at_def)

section \<open>Properties\<close>



end
