(* ===== verification/Citations.thy ===== *)
theory Citations
  imports Page
begin

text \<open>
  \<^verbatim>\<open>crates/fastbrowse-core/src/citations.rs\<close>: the text a citation shows, and the text-fragment link
  to it.  Offsets are code points into the capture's text (\<^verbatim>\<open>i64\<close> in the source; a document is far
  shorter than that range).  A negative offset reads nothing, as \<^verbatim>\<open>chars.get(at as usize)\<close> does.
\<close>

section \<open>Text fragments\<close>

datatype empty_quote = EmptyQuote

definition empty_quote_str :: "empty_quote \<Rightarrow> str" where
  "empty_quote_str _ = lit ''A text fragment needs a nonempty quote''"

definition split_whitespace :: "str \<Rightarrow> str list" where
  "split_whitespace s = filter (\<lambda>w. w \<noteq> []) (split_pred is_whitespace s)"

definition TERM_SET :: "nat \<Rightarrow> bool" where
  "TERM_SET b \<longleftrightarrow> is_alnum b \<or> b \<in> set (lit ''_.~'')"

definition fragment_terms :: "str list \<Rightarrow> str list" where
  "fragment_terms words =
     (let len = sum_list (map length words) + length words - 1
      in if 120 < len \<and> 10 < length words
         then [join (lit '' '') (take 5 words), join (lit '' '') (drop (length words - 5) words)]
         else [join (lit '' '') words])"

definition DIRECTIVE :: str where
  "DIRECTIVE = lit '':~:''"

definition url_anchor :: "str \<Rightarrow> str \<times> str" where
  "url_anchor url =
     (let (base, fragment) = (case split_once (ch (CHR ''#'')) url of Some p \<Rightarrow> p | None \<Rightarrow> (url, []))
      in (base, case split_once_str DIRECTIVE fragment of Some (a, _) \<Rightarrow> a | None \<Rightarrow> fragment))"

definition text_fragment :: "str \<Rightarrow> str \<Rightarrow> empty_quote + str" where
  "text_fragment url s =
     (let words = split_whitespace s in
      if words = [] then Inl EmptyQuote
      else let directive = map (percent_encode TERM_SET) (fragment_terms words);
               (base, anchor) = url_anchor url
           in Inr (base @ lit ''#'' @ anchor @ DIRECTIVE @ lit ''text='' @ join (lit '','') directive))"

section \<open>Table blocks\<close>

record table_block =
  tb_start :: int
  tb_end :: int
  tb_row :: int
  tb_divider :: "(int \<times> int) option"
  tb_repeats :: bool

definition char_get :: "str \<Rightarrow> int \<Rightarrow> uchar option" where
  "char_get s i = (if 0 \<le> i \<and> i < int (length s) then Some (s ! nat i) else None)"

definition slice :: "str \<Rightarrow> nat \<Rightarrow> nat \<Rightarrow> str" where
  "slice s a b = take (b - a) (drop a s)"

definition clamp_at :: "nat \<Rightarrow> int \<Rightarrow> nat" where
  "clamp_at n i = min (nat (max i 0)) n"

definition capture_text :: "str \<Rightarrow> int \<Rightarrow> int \<Rightarrow> str" where
  "capture_text s a b =
     trim_end is_whitespace (slice s (clamp_at (length s) a) (max (clamp_at (length s) b) (clamp_at (length s) a)))"

text \<open>\<^verbatim>\<open>str::split(" | ")\<close>.\<close>

function split_str :: "'a list \<Rightarrow> 'a list \<Rightarrow> 'a list list" where
  "split_str sep s =
     (if sep = [] then [s] else
      case split_once_str sep s of Some (a, b) \<Rightarrow> a # split_str sep b | None \<Rightarrow> [s])"
  by pat_completeness auto
termination
proof (relation "measure (length \<circ> snd)", simp, clarify)
  fix sep s a b :: "'a list"
  assume "sep \<noteq> []" "split_once_str sep s = Some (a, b)"
  then show "((sep, b), sep, s) \<in> measure (length \<circ> snd)"
    by (cases sep; cases s) (auto simp: split_once_str_def split: option.splits)
qed

declare split_str.simps [simp del]

definition divider_line :: "str \<Rightarrow> bool" where
  "divider_line line =
     (let l = trim_end (\<lambda>c. c = 10 \<or> c = 13) line in
      case strip_prefix (lit ''| '') l of
        None \<Rightarrow> False
      | Some inner \<Rightarrow>
          (case strip_suffix (lit '' |'') inner of
             None \<Rightarrow> False
           | Some body \<Rightarrow> (\<forall>cell \<in> set (split_str (lit '' | '') body). cell = lit ''---'')))"

definition block_rows :: "str \<Rightarrow> block \<Rightarrow> int list" where
  "block_rows chars b =
     filter (\<lambda>i. char_get chars i = Some (ch (CHR ''|''))
                 \<and> (i = blk_start b \<or> char_get chars (i - 1) = Some 10))
       [blk_start b..blk_end b - 1]"

definition repeats_prefix :: "str \<Rightarrow> table_block option \<Rightarrow> str \<Rightarrow> bool" where
  "repeats_prefix chars before p \<longleftrightarrow>
     p \<noteq> [] \<and>
     (case before of
        None \<Rightarrow> False
      | Some t \<Rightarrow> capture_text chars (tb_start t) (tb_row t) = p
                  \<or> tb_row t = tb_start t \<and> capture_text chars (tb_start t) (tb_end t) = p)"

definition table_row :: "str \<Rightarrow> table_block option \<Rightarrow> block \<Rightarrow> int \<times> (int \<times> int) option" where
  "table_row chars before b =
     (let rows = block_rows chars b;
          n = length rows;
          l = (if rows = [] then blk_start b else last rows)
      in if 2 < n \<and> divider_line (capture_text chars (rows ! (n - 2)) l)
         then (l, Some (rows ! (n - 2), l))
         else if 1 < n \<and> divider_line (capture_text chars l (blk_end b))
                 \<and> \<not> repeats_prefix chars before (capture_text chars (blk_start b) l)
         then (blk_end b, Some (l, blk_end b))
         else (l, None))"

definition table_block_of :: "str \<Rightarrow> table_block option \<Rightarrow> block \<Rightarrow> table_block" where
  "table_block_of chars before b =
     (let (row, divider) = table_row chars before b
      in \<lparr>tb_start = blk_start b, tb_end = blk_end b, tb_row = row, tb_divider = divider,
          tb_repeats = repeats_prefix chars before (capture_text chars (blk_start b) row)\<rparr>)"

definition is_table :: "block \<Rightarrow> bool" where
  "is_table b \<longleftrightarrow> blk_kind b = Block_Table \<and> \<not> prefix (lit ''download/'') (blk_source_id b)"

text \<open>The loop over the blocks: the last table block counts as the one before only when it was the
  block just before this one.\<close>

fun table_loop :: "str \<Rightarrow> table_block option \<Rightarrow> block list \<Rightarrow> table_block list" where
  "table_loop chars before [] = []"
| "table_loop chars before (b # bs) =
     (if is_table b
      then let t = table_block_of chars before b in t # table_loop chars (Some t) bs
      else table_loop chars None bs)"

definition table_blocks :: "capture \<Rightarrow> table_block list" where
  "table_blocks c = table_loop (cap_text c) None (cap_blocks c)"

section \<open>The page's own text\<close>

record cells_state =
  cells_text :: str
  cells_cell :: str
  cells_new_row :: bool

definition cells_empty :: cells_state where
  "cells_empty = \<lparr>cells_text = [], cells_cell = [], cells_new_row = False\<rparr>"

definition cells_close :: "cells_state \<Rightarrow> cells_state" where
  "cells_close st =
     (let shown = trim_both is_whitespace (cells_cell st) in
      if shown = []
      then st\<lparr>cells_new_row := cells_new_row st \<or> 10 \<in> set (cells_cell st), cells_cell := []\<rparr>
      else st\<lparr>cells_text := cells_text st
                @ (if cells_text st = [] then [] else [if cells_new_row st then 10 else 32]) @ shown,
              cells_new_row := False, cells_cell := []\<rparr>)"

definition cells_push :: "uchar \<Rightarrow> cells_state \<Rightarrow> cells_state" where
  "cells_push c st = st\<lparr>cells_cell := cells_cell st @ [c]\<rparr>"

fun cells_loop :: "str \<Rightarrow> cells_state \<Rightarrow> cells_state" where
  "cells_loop [] st = st"
| "cells_loop (c # s) st =
     (if c = ch (CHR 0x5C) \<and> s \<noteq> [] \<and> hd s = ch (CHR ''|'')
      then cells_loop (tl s) (cells_push (ch (CHR ''|'')) st)
      else if c = ch (CHR ''|'') then cells_loop s (cells_close st)
      else cells_loop s (cells_push c st))"

definition cells :: "str \<Rightarrow> str" where
  "cells markdown = cells_text (cells_close (cells_loop markdown cells_empty))"

definition quote_part :: "str \<Rightarrow> int \<Rightarrow> int \<Rightarrow> int \<Rightarrow> str" where
  "quote_part q start a b =
     (let clamp = (\<lambda>i. clamp_at (length q) (i - start)) in slice q (clamp a) (max (clamp b) (clamp a)))"

definition table_shown :: "str \<Rightarrow> int \<Rightarrow> table_block \<Rightarrow> str" where
  "table_shown q start t =
     (let (cut, resume) = (case tb_divider t of Some d \<Rightarrow> d | None \<Rightarrow> (tb_row t, tb_row t));
          header = (if \<not> tb_repeats t \<or> tb_start t \<le> start \<and> start + int (length q) \<le> tb_row t
                    then [cells (quote_part q start (tb_start t) cut @ quote_part q start resume (tb_row t))]
                    else []);
          row = cells (quote_part q start (tb_row t) (tb_end t))
      in join [10] (filter (\<lambda>p. p \<noteq> []) (header @ [row])))"

fun page_text_loop :: "str \<Rightarrow> int \<Rightarrow> table_block list \<Rightarrow> str \<times> int \<Rightarrow> str \<times> int" where
  "page_text_loop q start [] acc = acc"
| "page_text_loop q start (t # ts) (shown, i) =
     page_text_loop q start ts
       (shown @ quote_part q start i (tb_start t) @ table_shown q start t, max (tb_end t) i)"

definition page_text :: "str \<Rightarrow> int \<Rightarrow> table_block list \<Rightarrow> str" where
  "page_text q start tables =
     (let fin = start + int (length q);
          (shown, i) = page_text_loop q start (filter (\<lambda>t. tb_start t < fin \<and> start < tb_end t) tables) ([], start)
      in if i = start then q else shown @ quote_part q start i fin)"

section \<open>Facts\<close>

text \<open>A cell's own pipes are escaped; a row's cells stand between borders; rows end in line breaks.\<close>

definition escape_cell :: "str \<Rightarrow> str" where
  "escape_cell s = concat (map (\<lambda>c. if c = ch (CHR ''|'') then [ch (CHR 0x5C), c] else [c]) s)"

definition row_markdown :: "str list \<Rightarrow> str" where
  "row_markdown row = lit ''|'' @ concat (map (\<lambda>c. lit '' '' @ escape_cell c @ lit '' |'') row)"

definition table_markdown :: "str list list \<Rightarrow> str" where
  "table_markdown rows = join [10] (map row_markdown rows)"

definition visible :: "str list \<Rightarrow> str list" where
  "visible = filter (\<lambda>p. p \<noteq> [])"

definition table_text :: "str list list \<Rightarrow> str" where
  "table_text rows = join [10] (visible (map (\<lambda>row. join [32] (visible row)) rows))"

lemma escape_cell_simps [simp]:
  "escape_cell [] = []"
  "escape_cell (c # s) = (if c = 124 then [92, 124] else [c]) @ escape_cell s"
  by (simp_all add: escape_cell_def)

lemma escape_cell_hd: "escape_cell c = [] \<or> hd (escape_cell c) \<noteq> 124"
  by (cases c) auto

lemma cells_loop_escape:
  assumes "s \<noteq> []" and "hd s \<noteq> 124"
  shows "cells_loop (escape_cell c @ s) st = cells_loop s (st\<lparr>cells_cell := cells_cell st @ c\<rparr>)"
proof (induction c arbitrary: st)
  case (Cons x c)
  have "hd (escape_cell c @ s) \<noteq> 124"
    using assms escape_cell_hd [of c] by (cases "escape_cell c") auto
  with Cons.IH show ?case by (auto simp: cells_push_def)
qed simp

definition add_cell :: "cells_state \<Rightarrow> str \<Rightarrow> cells_state" where
  "add_cell st c =
     (if c = [] then st
      else st\<lparr>cells_text := cells_text st
                @ (if cells_text st = [] then [] else [if cells_new_row st then 10 else 32]) @ c,
              cells_new_row := False\<rparr>)"

abbreviation trimmed_cell :: "str \<Rightarrow> bool" where
  "trimmed_cell c \<equiv> trim_both is_whitespace c = c"

lemma trim_both_spaces:
  assumes "trimmed_cell c"
  shows "trim_both is_whitespace (32 # c @ [32]) = c"
proof (cases "c = []")
  case False
  then have "dropWhile is_whitespace c \<noteq> []" using assms
    by (metis trim_both_def trim_end_def dropWhile.simps(1) rev.simps(1))
  then have "dropWhile is_whitespace (c @ [32]) = dropWhile is_whitespace c @ [32]"
    by (metis dropWhile_append1 dropWhile_eq_Nil_conv)
  then show ?thesis using assms by (simp add: trim_both_def trim_end_def is_whitespace_def)
qed (simp add: trim_both_def trim_end_def is_whitespace_def)

lemma cells_loop_cell:
  assumes "trimmed_cell c" and "cells_cell st = []"
  shows "cells_loop (lit '' '' @ escape_cell c @ lit '' |'' @ s) st = cells_loop s (add_cell st c)"
proof -
  have "cells_loop (lit '' '' @ escape_cell c @ lit '' |'' @ s) st
      = cells_loop (124 # s) (st\<lparr>cells_cell := 32 # c @ [32]\<rparr>)"
    using cells_loop_escape [of "32 # 124 # s" c "st\<lparr>cells_cell := [32]\<rparr>"] assms
    by (simp add: lit_def cells_push_def)
  moreover have "cells_close (st\<lparr>cells_cell := 32 # c @ [32]\<rparr>) = add_cell st c"
    using trim_both_spaces [OF assms(1)] assms(2) by (simp add: cells_close_def add_cell_def)
  ultimately show ?thesis by simp
qed

lemma add_cell_cell [simp]: "cells_cell (add_cell st c) = cells_cell st"
  by (simp add: add_cell_def)

lemma cells_loop_cells:
  assumes "\<forall>c\<in>set row. trimmed_cell c" and "cells_cell st = []"
  shows "cells_loop (concat (map (\<lambda>c. lit '' '' @ escape_cell c @ lit '' |'') row) @ s) st
       = cells_loop s (foldl add_cell st row)"
  using assms
proof (induction row arbitrary: st)
  case (Cons c row)
  with cells_loop_cell [of c st] show ?case by simp
qed simp

lemma join_visible_Nil [simp]: "join sep (visible xs) = [] \<longleftrightarrow> visible xs = []"
proof (cases "visible xs")
  case (Cons a r)
  then have "a \<noteq> []" by (auto simp: visible_def filter_eq_Cons_iff)
  with Cons show ?thesis by (cases r) auto
qed simp

lemma visible_Cons: "visible (c # row) = (if c = [] then visible row else c # visible row)"
  by (simp add: visible_def)

lemma join_Cons: "join sep (c # xs) = c @ (if xs = [] then [] else sep @ join sep xs)"
  by (cases xs) simp_all

lemma foldl_add_cell:
  "foldl add_cell st row = add_cell st (join [32] (visible row))"
proof (induction row arbitrary: st)
  case (Cons c row)
  then show ?case
    by (auto simp: add_cell_def visible_Cons join_Cons)
qed (simp add: add_cell_def visible_def)

lemma cells_loop_row:
  assumes "\<forall>c\<in>set row. trimmed_cell c" and "cells_cell st = [] \<or> cells_cell st = [10]"
  shows "cells_loop (row_markdown row @ s) st
       = cells_loop s (add_cell (st\<lparr>cells_new_row := cells_new_row st \<or> cells_cell st = [10], cells_cell := []\<rparr>)
                         (join [32] (visible row)))"
proof -
  let ?st = "st\<lparr>cells_new_row := cells_new_row st \<or> cells_cell st = [10], cells_cell := []\<rparr>"
  have "cells_close st = ?st"
    using assms(2) by (elim disjE) (simp_all add: cells_close_def trim_both_def trim_end_def is_whitespace_def)
  then have "cells_loop (row_markdown row @ s) st
      = cells_loop (concat (map (\<lambda>c. lit '' '' @ escape_cell c @ lit '' |'') row) @ s) ?st"
    by (simp add: row_markdown_def lit_def)
  then show ?thesis using cells_loop_cells [OF assms(1), of ?st s] by (simp add: foldl_add_cell)
qed

lemma cells_loop_table:
  assumes "\<forall>row\<in>set rows. \<forall>c\<in>set row. trimmed_cell c" and "cells_cell st = [10] \<or> cells_cell st = [] \<and> cells_text st = []"
  shows "cells_text (cells_close (cells_loop (join [10] (map row_markdown rows)) st)) =
     cells_text st @ (if cells_text st = [] \<or> table_text rows = [] then [] else [10]) @ table_text rows"
  using assms
proof (induction rows arbitrary: st)
  case Nil
  then show ?case
    by (elim disjE) (simp_all add: table_text_def visible_def cells_close_def trim_both_def trim_end_def is_whitespace_def)
next
  case (Cons row rows)
  let ?row = "join [32] (visible row)"
  let ?st = "add_cell (st\<lparr>cells_new_row := cells_new_row st \<or> cells_cell st = [10], cells_cell := []\<rparr>) ?row"
  have row: "cells_loop (row_markdown row @ s) st = cells_loop s ?st" for s
    using cells_loop_row [of row st s] Cons.prems by auto
  have tt: "table_text (row # rows)
      = ?row @ (if ?row = [] \<or> table_text rows = [] then [] else [10]) @ table_text rows"
    by (auto simp: table_text_def visible_Cons join_Cons)
  have shown: "cells_text ?st = cells_text st @ (if cells_text st = [] \<or> ?row = [] then [] else [10]) @ ?row"
    using Cons.prems(2) by (elim disjE) (simp_all add: add_cell_def)
  note IH = Cons.IH and prems = Cons.prems
  show ?case
  proof (cases rows)
    case Nil
    then have "table_text rows = []" by (simp add: table_text_def visible_def)
    moreover have "cells_text (cells_close ?st) = cells_text ?st"
      by (simp add: cells_close_def trim_both_def trim_end_def)
    ultimately show ?thesis using Nil row [of "[]"] shown tt by simp
  next
    case (Cons r rs)
    have "cells_loop (10 # s) ?st = cells_loop s (?st\<lparr>cells_cell := [10]\<rparr>)" for s
      by (simp add: cells_push_def)
    then have "cells_loop (join [10] (map row_markdown (row # rows))) st
        = cells_loop (join [10] (map row_markdown rows)) (?st\<lparr>cells_cell := [10]\<rparr>)"
      using row Cons by simp
    then show ?thesis
      using IH [of "?st\<lparr>cells_cell := [10]\<rparr>"] prems shown tt by auto
  qed
qed

text \<open>
  The cells of a table's markdown are read back as the page shows them: for rows of trimmed
  cells, pipes escaped, the text is the non-empty cells separated by a space within a row and a
  line break between rows.
\<close>

theorem cells_of_table:
  assumes "\<forall>row\<in>set rows. \<forall>c\<in>set row. trim_both is_whitespace c = c"
  shows "cells (table_markdown rows) = table_text rows"
  using cells_loop_table [of rows cells_empty] assms
  by (simp add: cells_def table_markdown_def cells_empty_def)

theorem cells_of_table_witness:
  "cells (lit ''| a | b'' @ [92] @ lit ''|c |'' @ [10] @ lit ''|  | d |'') = lit ''a b|c'' @ [10] @ lit ''d''"
proof -
  let ?rows = "[[lit ''a'', lit ''b|c''], [[], lit ''d'']]"
  have "\<forall>row\<in>set ?rows. \<forall>c\<in>set row. trim_both is_whitespace c = c" by code_simp
  then have "cells (table_markdown ?rows) = table_text ?rows" by (rule cells_of_table)
  moreover have "table_markdown ?rows = lit ''| a | b'' @ [92] @ lit ''|c |'' @ [10] @ lit ''|  | d |''" by code_simp
  moreover have "table_text ?rows = lit ''a b|c'' @ [10] @ lit ''d''" by code_simp
  ultimately show ?thesis by simp
qed

lemma quote_part_mid:
  assumes "i = start + int (length a)" and "j = i + int (length b)"
  shows "quote_part (a @ b @ c) start i j = b"
  using assms by (simp add: quote_part_def clamp_at_def slice_def)

text \<open>
  A quote that runs over a table block shows the page's own text: what stands before and after
  the block is kept as it is, the divider is dropped, the header part is shown only when the block
  does not repeat it from the block before, and the row follows on a line of its own.  A quote
  that meets no table block is shown as it is.
\<close>

theorem page_text_table:
  assumes "tb_start t = start + int (length pre)"
    and "tb_divider t = Some (tb_start t + int (length hd_text), tb_row t)"
    and "tb_row t = tb_start t + int (length hd_text + length div_text)"
    and "tb_end t = tb_row t + int (length row)" and "row \<noteq> []"
    and "\<forall>b\<in>set others. tb_end b \<le> start \<or> start + int (length q) \<le> tb_start b"
    and "q = pre @ hd_text @ div_text @ row @ post"
  shows "page_text q start (others @ [t]) =
     pre @ join [10] (visible ((if tb_repeats t then [] else [cells hd_text]) @ [cells row])) @ post
     \<and> page_text q start others = q"
proof -
  have none: "filter (\<lambda>b. tb_start b < start + int (length q) \<and> start < tb_end b) others = []"
    using assms(6) by (auto simp: filter_empty_conv not_less)
  then have "page_text q start others = q" by (simp add: page_text_def)
  have parts: "quote_part q start start (tb_start t) = pre"
    "quote_part q start (tb_start t) (tb_start t + int (length hd_text)) = hd_text"
    "quote_part q start (tb_row t) (tb_end t) = row"
    "quote_part q start (tb_end t) (start + int (length q)) = post"
    using quote_part_mid [of start start "[]" "tb_start t" pre "hd_text @ div_text @ row @ post"]
      quote_part_mid [of "tb_start t" start pre _ hd_text "div_text @ row @ post"]
      quote_part_mid [of "tb_row t" start "pre @ hd_text @ div_text" "tb_end t" row post]
      quote_part_mid [of "tb_end t" start "pre @ hd_text @ div_text @ row" "start + int (length q)" post "[]"]
      assms by simp_all
  have empty: "quote_part q start (tb_row t) (tb_row t) = []"
    by (simp add: quote_part_def slice_def)
  have not_header: "\<not> (tb_start t \<le> start \<and> start + int (length q) \<le> tb_row t)"
    using assms by (cases row) simp_all
  have "table_shown q start t
      = join [10] (visible ((if tb_repeats t then [] else [cells hd_text]) @ [cells row]))"
    using assms(2) parts empty not_header by (auto simp: table_shown_def visible_def)
  moreover have "start < tb_end t" and "tb_start t < start + int (length q)"
    using assms by (cases row; simp)+
  ultimately show ?thesis
    using none parts \<open>page_text q start others = q\<close> by (simp add: page_text_def)
qed

theorem page_text_table_witness:
  "page_text (lit ''See | A |'' @ [10] @ lit ''| --- |'' @ [10] @ lit ''| 1 |.'') 10
     [\<lparr>tb_start = 14, tb_end = 33, tb_row = 28, tb_divider = Some (20, 28), tb_repeats = False\<rparr>]
   = lit ''See A'' @ [10] @ lit ''1.''"
proof -
  let ?t = "\<lparr>tb_start = 14, tb_end = 33, tb_row = 28, tb_divider = Some (20, 28), tb_repeats = False\<rparr>"
  let ?q = "lit ''See | A |'' @ [10] @ lit ''| --- |'' @ [10] @ lit ''| 1 |.''"
  have "cells (lit ''| A |'' @ [10]) = lit ''A''" "cells (lit ''| 1 |'') = lit ''1''" by code_simp+
  then show ?thesis
    using page_text_table [of ?t 10 "lit ''See ''" "lit ''| A |'' @ [10]" "lit ''| --- |'' @ [10]" "lit ''| 1 |''"
        "[]" ?q "lit ''.''"]
    by (simp add: visible_def lit_def)
qed

section \<open>Text fragments: facts\<close>

lemma split_once_str_first:
  assumes "\<forall>i<length a. \<not> prefix p (drop i (a @ p @ b))"
  shows "split_once_str p (a @ p @ b) = Some (a, b)"
proof -
  have some: "find_str p (a @ p @ b) \<noteq> None"
    using find_str_None [of p "a @ p @ b"] by (auto intro!: exI [of _ "length a"])
  then obtain n where n: "find_str p (a @ p @ b) = Some n" by auto
  note first = find_str_Some [OF n]
  have "n = length a"
  proof (rule linorder_cases [of n "length a"])
    assume "length a < n"
    then have "\<not> prefix p (drop (length a) (a @ p @ b))" using first by blast
    then show ?thesis by simp
  qed (use assms first in auto)
  with n show ?thesis by (simp add: split_once_str_def)
qed

lemma split_once_hash:
  assumes "ch (CHR ''#'') \<notin> set base"
  shows "split_once (ch (CHR ''#'')) (base @ lit ''#'' @ frag) = Some (base, frag)"
  using assms
  by (induction base) (auto simp: split_once_def lit_def)

lemma anchor_no_directive: "find_str DIRECTIVE (snd (url_anchor url)) = None"
proof -
  have "find_str p (take n s) = None" if "find_str p s = Some n" and "p \<noteq> []" for p s :: str and n
  proof -
    have "\<not> prefix p (drop i (take n s))" if "i \<le> length (take n s)" for i
    proof
      assume pre: "prefix p (drop i (take n s))"
      then have "i < n" using \<open>p \<noteq> []\<close> that by (cases "i < n") (auto simp: prefix_def)
      moreover have "prefix p (drop i s)"
        using pre by (metis append_take_drop_id drop_take prefix_def prefix_order.trans)
      ultimately show False using find_str_Some [OF \<open>find_str p s = Some n\<close>] by blast
    qed
    then show ?thesis by (simp add: find_str_None)
  qed
  then show ?thesis
    by (auto simp: url_anchor_def split_once_str_def DIRECTIVE_def split: option.splits prod.splits)
qed

lemma anchor_first_directive:
  assumes "find_str DIRECTIVE a = None" and "\<not> suffix (lit '':~'') a" and "i < length a"
  shows "\<not> prefix DIRECTIVE (drop i (a @ DIRECTIVE @ b))"
proof
  assume pre: "prefix DIRECTIVE (drop i (a @ DIRECTIVE @ b))"
  obtain x r where x: "drop i a = x # r" using \<open>i < length a\<close> by (cases "drop i a") auto
  have not_pre: "\<not> prefix DIRECTIVE (drop i a)" using assms(1,3) by (simp add: find_str_None)
  have "drop i (a @ DIRECTIVE @ b) = x # r @ DIRECTIVE @ b" using x \<open>i < length a\<close> by simp
  with pre have p: "prefix DIRECTIVE (x # r @ DIRECTIVE @ b)" by simp
  consider "r = []" | y where "r = [y]" | y z r' where "r = y # z # r'" by (metis list.exhaust)
  then show False
  proof cases
    case 1
    with p show False by (simp add: DIRECTIVE_def lit_def)
  next
    case 2
    with p x have "drop i a = lit '':~''" by (simp add: DIRECTIVE_def lit_def)
    then show False using assms(2) suffix_drop [of i a] by metis
  next
    case 3
    with p x not_pre show False by (simp add: DIRECTIVE_def lit_def)
  qed
qed

lemma url_anchor_rebuilt:
  assumes "ch (CHR ''#'') \<notin> set base" and "find_str DIRECTIVE a = None" and "\<not> suffix (lit '':~'') a"
  shows "url_anchor (base @ lit ''#'' @ a @ DIRECTIVE @ b) = (base, a)"
  using split_once_hash [OF assms(1)] split_once_str_first [of a DIRECTIVE b]
    anchor_first_directive [OF assms(2,3)]
  by (simp add: url_anchor_def)

lemma base_no_hash: "ch (CHR ''#'') \<notin> set (fst (url_anchor url))"
  using split_once_None [of "ch (CHR ''#'')" url] split_once_Some [of "ch (CHR ''#'')" url]
  by (auto simp: url_anchor_def Let_def split: option.splits prod.splits)

lemma encode_byte_chars: "b < 256 \<Longrightarrow> c \<in> set (encode_byte safe b) \<Longrightarrow> c = 37 \<or> is_alnum c \<or> safe c"
  by (auto simp: encode_byte_def hex_upper_def is_alnum_def is_alpha_def is_digit_def is_upper_def split: if_splits)

lemma utf8_byte: "c < 0x110000 \<Longrightarrow> b \<in> set (utf8_char c) \<Longrightarrow> b < 256"
  by (auto simp: utf8_char_def split: if_splits)

lemma split_whitespace_Nil: "split_whitespace s = [] \<longleftrightarrow> (\<forall>c\<in>set s. is_whitespace c)"
  unfolding split_whitespace_def
  by (induction is_whitespace s rule: split_pred.induct) (auto split: list.splits)

lemma split_pred_set: "w \<in> set (split_pred P s) \<Longrightarrow> c \<in> set w \<Longrightarrow> c \<in> set s"
  by (induction P s arbitrary: w rule: split_pred.induct) (force split: list.splits if_splits)+

lemma fragment_terms_words:
  assumes "t \<in> set (fragment_terms words)"
  shows "\<exists>ws. set ws \<subseteq> set words \<and> t = join (lit '' '') ws"
proof -
  have "t = join (lit '' '') (take 5 words) \<or> t = join (lit '' '') (drop (length words - 5) words)
      \<or> t = join (lit '' '') words"
    using assms unfolding fragment_terms_def Let_def by (simp split: if_splits) blast
  then show ?thesis
  proof (elim disjE)
    assume "t = join (lit '' '') (take 5 words)"
    then show ?thesis by (intro exI [of _ "take 5 words"]) (simp add: set_take_subset)
  next
    assume "t = join (lit '' '') (drop (length words - 5) words)"
    then show ?thesis by (intro exI [of _ "drop (length words - 5) words"]) (simp add: set_drop_subset)
  qed auto
qed

lemma fragment_terms_chars:
  assumes "t \<in> set (fragment_terms (split_whitespace s))" and "c \<in> set t"
  shows "c = 32 \<or> c \<in> set s"
proof -
  obtain ws where ws: "set ws \<subseteq> set (split_whitespace s)" "t = join (lit '' '') ws"
    using fragment_terms_words [OF assms(1)] by blast
  from set_join [of c "lit '' ''" ws] assms(2) ws have "c \<in> set (lit '' '') \<or> (\<exists>w\<in>set ws. c \<in> set w)" by simp
  then show ?thesis
    using ws(1) by (auto simp: lit_def split_whitespace_def dest: split_pred_set)
qed

lemma percent_encode_chars:
  assumes "\<forall>c\<in>set s. c < 0x110000" and "x \<in> set (percent_encode safe s)"
  shows "x = 37 \<or> is_alnum x \<or> safe x"
proof -
  obtain c b where "c \<in> set s" "b \<in> set (utf8_char c)" "x \<in> set (encode_byte safe b)"
    using assms(2) by (auto simp: percent_encode_def utf8_def)
  moreover from this have "b < 256" using assms(1) utf8_byte by blast
  ultimately show ?thesis using encode_byte_chars by blast
qed

text \<open>
  A text-fragment link exists exactly for a quote with a word in it.  It is the address without
  its fragment, the anchor the fragment had, and a directive whose text is percent-encoded so that
  none of the directive's own syntax characters can come from the quote.  Linking an address that
  already carries a directive replaces that directive and keeps the anchor.
\<close>

theorem text_fragment_link:
  assumes "\<forall>c\<in>set s. c < 0x110000" and "\<not> suffix (lit '':~'') (snd (url_anchor url))"
  shows "(text_fragment url s = Inl EmptyQuote \<longleftrightarrow> (\<forall>c\<in>set s. is_whitespace c)) \<and>
     (\<forall>r. text_fragment url s = Inr r \<longrightarrow>
        (\<exists>d. r = fst (url_anchor url) @ lit ''#'' @ snd (url_anchor url) @ lit '':~:text='' @ d
             \<and> (\<forall>c\<in>set d. is_alnum c \<or> c \<in> set (lit ''_.~%,'')))
        \<and> text_fragment r other = text_fragment url other)"
proof (intro conjI allI impI)
  show "text_fragment url s = Inl EmptyQuote \<longleftrightarrow> (\<forall>c\<in>set s. is_whitespace c)"
    by (simp add: text_fragment_def Let_def split_whitespace_Nil split: prod.splits)
next
  fix r assume r: "text_fragment url s = Inr r"
  define d where "d = join (lit '','') (map (percent_encode TERM_SET) (fragment_terms (split_whitespace s)))"
  obtain base anchor where ba: "url_anchor url = (base, anchor)" by (cases "url_anchor url")
  have rd: "r = base @ lit ''#'' @ anchor @ DIRECTIVE @ lit ''text='' @ d"
    using r ba by (simp add: text_fragment_def Let_def d_def split: if_splits)
  have "is_alnum c \<or> c \<in> set (lit ''_.~%,'')" if "c \<in> set d" for c
  proof -
    from set_join [OF that [unfolded d_def]] consider "c \<in> set (lit '','')"
      | t where "t \<in> set (fragment_terms (split_whitespace s))" "c \<in> set (percent_encode TERM_SET t)" by auto
    then show ?thesis
    proof cases
      case 2
      have "\<forall>x\<in>set t. x < 0x110000" using fragment_terms_chars [OF 2(1)] assms(1) by force
      from percent_encode_chars [OF this 2(2)] show ?thesis by (auto simp: TERM_SET_def lit_def)
    qed (simp add: lit_def)
  qed
  then show "\<exists>d. r = fst (url_anchor url) @ lit ''#'' @ snd (url_anchor url) @ lit '':~:text='' @ d
      \<and> (\<forall>c\<in>set d. is_alnum c \<or> c \<in> set (lit ''_.~%,''))"
    using rd ba by (intro exI [of _ d]) (simp add: DIRECTIVE_def lit_def)
  have "url_anchor r = url_anchor url"
    using url_anchor_rebuilt [of base anchor "lit ''text='' @ d"] base_no_hash [of url]
      anchor_no_directive [of url] assms(2) rd ba by simp
  then show "text_fragment r other = text_fragment url other" by (simp only: text_fragment_def)
qed

theorem text_fragment_link_witness:
  "text_fragment (lit ''https://a.test/p#sec:~:text=old'') (lit ''a-b, c'')
     = Inr (lit ''https://a.test/p#sec:~:text=a%2Db%2C%20c'')
   \<and> text_fragment (lit ''https://a.test/p#sec:~:text=a%2Db%2C%20c'') (lit ''new'')
     = text_fragment (lit ''https://a.test/p#sec:~:text=old'') (lit ''new'')"
proof -
  have link: "text_fragment (lit ''https://a.test/p#sec:~:text=old'') (lit ''a-b, c'')
     = Inr (lit ''https://a.test/p#sec:~:text=a%2Db%2C%20c'')" by code_simp
  moreover have "\<forall>c\<in>set (lit ''a-b, c''). c < 0x110000"
    "\<not> suffix (lit '':~'') (snd (url_anchor (lit ''https://a.test/p#sec:~:text=old'')))" by code_simp+
  ultimately show ?thesis
    using text_fragment_link [of "lit ''a-b, c''" "lit ''https://a.test/p#sec:~:text=old''" "lit ''new''"]
    by blast
qed

text \<open>
  An anchor that ends in \<^verbatim>\<open>:~\<close> is cut when its link is linked again, though the function says any anchor is kept.
\<close>

lemma text_fragment_anchor_cut:
  "text_fragment (lit ''https://e.test#a:~'') (lit ''x'') = Inr (lit ''https://e.test#a:~:~:text=x'')"
  "text_fragment (lit ''https://e.test#a:~:~:text=x'') (lit ''y'') = Inr (lit ''https://e.test#a:~:text=y'')"
  by code_simp+

end
