(* ===== verification/Effects.thy ===== *)
theory Effects
  imports Page "HOL-Library.Multiset"
begin

text \<open>
  \<^verbatim>\<open>crates/fastbrowse-core/src/effects.rs\<close>: what an action visibly did.  \<open>sha\<close> is the SHA-256 hex
  digest of a byte string (the \<^verbatim>\<open>sha2\<close> crate) and \<open>show_f64\<close> the text \<^verbatim>\<open>{}\<close> gives a float; both are
  parameters.  The Unicode tables are those of \<open>PyText\<close>.
\<close>

definition SETTING_ROLES :: "str list" where
  "SETTING_ROLES = [lit ''option'', lit ''checkbox'', lit ''radio'', lit ''switch'', lit ''menuitemradio'',
     lit ''menuitemcheckbox'']"

record effect_of =
  eff_summary :: str
  eff_set_something :: bool
  eff_added :: bool
  eff_changed :: bool

definition leavable :: "control \<Rightarrow> bool" where
  "leavable c \<longleftrightarrow> ctl_focused c = Some True \<and> Op_Fill \<in> ctl_operations c"

section \<open>The state of a page\<close>

definition json_text :: "str option \<Rightarrow> json" where
  "json_text x = (case x of None \<Rightarrow> JNull | Some s \<Rightarrow> JString s)"

definition json_flag :: "bool option \<Rightarrow> json" where
  "json_flag x = (case x of None \<Rightarrow> JNull | Some b \<Rightarrow> JBool b)"

definition control_key :: "control \<Rightarrow> json" where
  "control_key c =
     JArray ([JString (ctl_role c), JString (ctl_label c), json_text (ctl_context c), json_text (ctl_value c),
              json_flag (ctl_checked c), json_flag (ctl_selected c), json_flag (ctl_expanded c)]
             @ (if leavable c then [JBool True] else []))"

definition state_key_text :: "observation \<Rightarrow> str" where
  "state_key_text obs =
     dumps (JArray [JString (obs_url obs),
                    JArray (map JString (sort (map (\<lambda>c. dumps (control_key c)) (obs_controls obs))))])"

definition state_key :: "(nat list \<Rightarrow> str) \<Rightarrow> observation \<Rightarrow> str" where
  "state_key sha obs = sha (utf8 (state_key_text obs))"

section \<open>The change between two readings\<close>

datatype shown = Shown_Missing | Shown_Text str | Shown_Flag bool

fun of_text :: "str option \<Rightarrow> shown" where
  "of_text None = Shown_Missing"
| "of_text (Some s) = Shown_Text s"

fun of_flag :: "bool option \<Rightarrow> shown" where
  "of_flag None = Shown_Missing"
| "of_flag (Some b) = Shown_Flag b"

fun shown_str :: "shown \<Rightarrow> str" where
  "shown_str Shown_Missing = lit ''None''"
| "shown_str (Shown_Text s) = s"
| "shown_str (Shown_Flag True) = lit ''True''"
| "shown_str (Shown_Flag False) = lit ''False''"

definition short :: "shown \<Rightarrow> str" where
  "short v =
     (let squashed = (if v = Shown_Missing then [] else squash (shown_str v))
      in if squashed = [] then lit ''empty'' else squashed)"

definition listed :: "control list \<Rightarrow> str" where
  "listed cs =
     dec (length cs) @ lit '' control'' @ (if length cs = 1 then [] else lit ''s'') @ lit '': ''
     @ join (lit '', '') (map (\<lambda>c. short (Shown_Text (ctl_label c))) cs)"

definition plain :: "unicode_tables \<Rightarrow> str \<Rightarrow> str" where
  "plain u s = casefold u (squash s)"

definition contains_str :: "'a list \<Rightarrow> 'a list \<Rightarrow> bool" where
  "contains_str s p \<longleftrightarrow> find_str p s \<noteq> None"

definition shows_choice :: "unicode_tables \<Rightarrow> control \<Rightarrow> str \<Rightarrow> bool" where
  "shows_choice u c choice =
     (let shown = (case non_empty (ctl_value c) of Some v \<Rightarrow> [plain u v] | None \<Rightarrow> [])
                  @ (if ctl_role c = lit ''combobox'' then [plain u (ctl_label c)] else []);
          first = trim_both is_whitespace (hd (split_pred (\<lambda>x. x = ch (CHR '','')) choice))
      in \<exists>t\<in>set (filter (\<lambda>t. t \<noteq> []) shown). contains_str t choice \<or> t = first)"

type_synonym control_table = "(str, control) index_map"

definition by_id :: "control list \<Rightarrow> control_table" where
  "by_id cs = im_collect (map (\<lambda>c. (ctl_id c, c)) cs)"

definition old_controls :: "observation \<Rightarrow> observation \<Rightarrow> control_table" where
  "old_controls before after =
     (if obs_document_key before = obs_document_key after then by_id (obs_controls before) else [])"

text \<open>The earlier control an element is compared with: the one with its id, or the only earlier one of
  its role and label when that one is gone.\<close>

definition matched :: "control_table \<Rightarrow> control_table \<Rightarrow> str \<Rightarrow> control \<Rightarrow> control option" where
  "matched old new key now =
     (case im_get old key of
        Some was \<Rightarrow> Some was
      | None \<Rightarrow>
          (case filter (\<lambda>c. ctl_role c = ctl_role now \<and> strip (ctl_label c) = strip (ctl_label now)) (map snd old) of
             [namesake] \<Rightarrow> if im_get new (ctl_id namesake) = None then Some namesake else None
           | _ \<Rightarrow> None))"

definition matched_pairs :: "control_table \<Rightarrow> control_table \<Rightarrow> (control \<times> control) list" where
  "matched_pairs old new =
     concat (map (\<lambda>(key, now). case matched old new key now of Some was \<Rightarrow> [(was, now)] | None \<Rightarrow> []) new)"

datatype attribute_name = Attr_Label | Attr_Value | Attr_Checked | Attr_Selected | Attr_Expanded

fun attribute_str :: "attribute_name \<Rightarrow> str" where
  "attribute_str Attr_Label = lit ''label''"
| "attribute_str Attr_Value = lit ''value''"
| "attribute_str Attr_Checked = lit ''checked''"
| "attribute_str Attr_Selected = lit ''selected''"
| "attribute_str Attr_Expanded = lit ''expanded''"

definition attributes :: "control \<Rightarrow> control \<Rightarrow> (attribute_name \<times> shown \<times> shown) list" where
  "attributes was now =
     [(Attr_Label, Shown_Text (ctl_label was), Shown_Text (ctl_label now)),
      (Attr_Value, of_text (ctl_value was), of_text (ctl_value now)),
      (Attr_Checked, of_flag (ctl_checked was), of_flag (ctl_checked now)),
      (Attr_Selected, of_flag (ctl_selected was), of_flag (ctl_selected now)),
      (Attr_Expanded, of_flag (ctl_expanded was), of_flag (ctl_expanded now))]"

definition differing :: "unicode_tables \<Rightarrow> control \<Rightarrow> control \<Rightarrow> (attribute_name \<times> shown \<times> shown) list" where
  "differing u was now =
     filter (\<lambda>(name, a, b). if name = Attr_Label then plain u (ctl_label was) \<noteq> plain u (ctl_label now) else a \<noteq> b)
       (attributes was now)"

definition focus_change :: "control \<Rightarrow> control \<Rightarrow> str list" where
  "focus_change was now =
     (case (ctl_focused was, ctl_focused now) of
        (Some a, Some b) \<Rightarrow>
          if a \<noteq> b \<and> Op_Fill \<in> ctl_operations now
          then [short (Shown_Text (ctl_label was)) @ lit '' focused: '' @ shown_str (Shown_Flag a) @ lit '' -> ''
                @ shown_str (Shown_Flag b)]
          else []
      | _ \<Rightarrow> [])"

definition control_changes :: "unicode_tables \<Rightarrow> control \<times> control \<Rightarrow> str list" where
  "control_changes u p =
     (case p of (was, now) \<Rightarrow>
        map (\<lambda>(name, a, b). short (Shown_Text (ctl_label was)) @ lit '' '' @ attribute_str name @ lit '': ''
                @ short a @ lit '' -> '' @ short b) (differing u was now)
        @ focus_change was now)"

definition media_changes :: "(real \<Rightarrow> str) \<Rightarrow> media \<times> media \<Rightarrow> str list" where
  "media_changes show_f64 p =
     (case p of (was, now) \<Rightarrow>
        (let named = (case media_label now of Some l \<Rightarrow> Some l | None \<Rightarrow> media_heading now);
             name = (case named of Some n \<Rightarrow> media_kind now @ lit '' '' @ n | None \<Rightarrow> media_kind now)
         in map (\<lambda>(attribute, a, b). name @ lit '' '' @ attribute @ lit '': '' @ shown_str (Shown_Flag a) @ lit '' -> ''
                   @ shown_str (Shown_Flag b))
              (filter (\<lambda>(_, a, b). a \<noteq> b)
                 [(lit ''paused'', media_paused was, media_paused now),
                  (lit ''ended'', media_ended was, media_ended now),
                  (lit ''muted'', media_muted was, media_muted now)])
            @ (if media_paused was \<and> media_paused now \<and> media_elapsed_seconds was \<noteq> media_elapsed_seconds now
               then [name @ lit '' elapsed: '' @ show_f64 (media_elapsed_seconds was) @ lit '' s -> ''
                     @ show_f64 (media_elapsed_seconds now) @ lit '' s'']
               else [])))"

definition all_changes :: "unicode_tables \<Rightarrow> (real \<Rightarrow> str) \<Rightarrow> observation \<Rightarrow> observation \<Rightarrow> str list" where
  "all_changes u show_f64 before after =
     concat (map (control_changes u)
       (matched_pairs (old_controls before after) (by_id (obs_controls after))))
     @ (if obs_document_key before = obs_document_key after \<and> length (obs_media before) = length (obs_media after)
        then concat (map (media_changes show_f64) (zip (obs_media before) (obs_media after)))
        else [])"

definition shown_controls :: "observation \<Rightarrow> observation \<Rightarrow> control list" where
  "shown_controls before after =
     map snd (filter (\<lambda>(key, _). im_get (old_controls before after) key = None) (by_id (obs_controls after)))"

definition hidden_controls :: "observation \<Rightarrow> observation \<Rightarrow> control list" where
  "hidden_controls before after =
     filter (\<lambda>c. obs_document_key before \<noteq> obs_document_key after
                 \<or> im_get (by_id (obs_controls after)) (ctl_id c) = None) (obs_controls before)"

definition content_changed :: "unicode_tables \<Rightarrow> observation \<Rightarrow> observation \<Rightarrow> bool" where
  "content_changed u before after \<longleftrightarrow>
     obs_viewport_text before \<noteq> obs_viewport_text after
     \<or> (\<exists>(was, now) \<in> set (matched_pairs (old_controls before after) (by_id (obs_controls after))).
          differing u was now \<noteq> [])"

definition setting :: "unicode_tables \<Rightarrow> observation \<Rightarrow> observation \<Rightarrow> control option \<Rightarrow> bool" where
  "setting u before after chosen \<longleftrightarrow>
     (\<exists>(was, now) \<in> set (matched_pairs (old_controls before after) (by_id (obs_controls after))).
        \<exists>(name, _) \<in> set (differing u was now). name \<noteq> Attr_Expanded)
     \<or> (case chosen of
          None \<Rightarrow> False
        | Some c \<Rightarrow> obs_document_key before = obs_document_key after
            \<and> (\<exists>f \<in> set (obs_controls after).
                 ctl_role f \<notin> set SETTING_ROLES \<and> shows_choice u f (plain u (ctl_label c))))"

definition effect_parts :: "unicode_tables \<Rightarrow> (real \<Rightarrow> str) \<Rightarrow> observation \<Rightarrow> observation \<Rightarrow> str list" where
  "effect_parts u show_f64 before after =
     (let changes = all_changes u show_f64 before after;
          shown = shown_controls before after;
          hidden = hidden_controls before after
      in (if obs_url before \<noteq> obs_url after then [lit ''went to '' @ short (Shown_Text (obs_url after))] else [])
         @ (case obs_response_status after of
              Some st \<Rightarrow> if 400 \<le> st then [lit ''HTTP '' @ dec_int st @ lit '': destination did not load successfully''] else []
            | None \<Rightarrow> [])
         @ (if changes \<noteq> [] then [lit ''changed '' @ join (lit ''; '') changes] else [])
         @ (if shown \<noteq> [] then [lit ''showed '' @ listed shown] else [])
         @ (if hidden \<noteq> [] then [lit ''removed '' @ listed hidden] else []))"

definition effect :: "unicode_tables \<Rightarrow> (real \<Rightarrow> str) \<Rightarrow> observation \<Rightarrow> observation \<Rightarrow> control option \<Rightarrow> effect_of" where
  "effect u show_f64 before after chosen =
     (let parts = effect_parts u show_f64 before after;
          changed = (parts \<noteq> [] \<or> obs_viewport_text before \<noteq> obs_viewport_text after);
          stayed_whole = (obs_url before = obs_url after \<and> obs_document_key before = obs_document_key after
                          \<and> hidden_controls before after = [])
      in \<lparr>eff_summary = (if parts \<noteq> [] then join (lit ''; '') parts
                         else if changed then lit ''only the page text changed''
                         else lit ''nothing visible changed''),
          eff_set_something = (obs_url before \<noteq> obs_url after \<or> setting u before after chosen),
          eff_added = (stayed_whole \<and> (content_changed u before after \<or> shown_controls before after \<noteq> [])),
          eff_changed = changed\<rparr>)"

section \<open>Facts: the state key\<close>

text \<open>What a page state is known by: everything a control offers and shows, order aside.\<close>

definition signature :: "control \<Rightarrow> str \<times> str \<times> str option \<times> str option \<times> bool option \<times> bool option \<times> bool option \<times> bool" where
  "signature c = (ctl_role c, ctl_label c, ctl_context c, ctl_value c, ctl_checked c, ctl_selected c, ctl_expanded c,
     leavable c)"

definition scalar_control :: "control \<Rightarrow> bool" where
  "scalar_control c \<longleftrightarrow> list_all scalar (ctl_role c) \<and> list_all scalar (ctl_label c)
     \<and> pred_option (list_all scalar) (ctl_context c) \<and> pred_option (list_all scalar) (ctl_value c)"

lemma json_text_inj [simp]: "json_text a = json_text b \<longleftrightarrow> a = b"
  by (auto simp: json_text_def split: option.splits)

lemma json_flag_inj [simp]: "json_flag a = json_flag b \<longleftrightarrow> a = b"
  by (auto simp: json_flag_def split: option.splits)

lemma plain_json_text [simp]: "plain_json (json_text x) \<longleftrightarrow> pred_option (list_all scalar) x"
  by (cases x) (simp_all add: json_text_def)

lemma plain_json_flag [simp]: "plain_json (json_flag x)"
  by (cases x) (simp_all add: json_flag_def)

lemma control_key_signature: "control_key a = control_key b \<longleftrightarrow> signature a = signature b"
  by (auto simp: control_key_def signature_def)

lemma plain_control_key: "scalar_control c \<Longrightarrow> plain_json (control_key c)"
  by (simp add: control_key_def scalar_control_def)

lemma control_dump_inj:
  "scalar_control a \<Longrightarrow> scalar_control b \<Longrightarrow> dumps (control_key a) = dumps (control_key b) \<longleftrightarrow> signature a = signature b"
  using dumps_inj [OF plain_control_key plain_control_key, of a b] control_key_signature [of a b] by auto

lemma mset_map_factor:
  assumes "\<And>a b. a \<in> S \<Longrightarrow> b \<in> S \<Longrightarrow> f a = f b \<Longrightarrow> g a = g b"
    and "set xs \<subseteq> S" and "set ys \<subseteq> S" and "mset (map f xs) = mset (map f ys)"
  shows "mset (map g xs) = mset (map g ys)"
proof -
  define h where "h = g \<circ> inv_into S f"
  have h: "h (f a) = g a" if "a \<in> S" for a
    using assms(1) [of "inv_into S f (f a)" a] that by (simp add: h_def inv_into_into f_inv_into_f)
  have "map g zs = map h (map f zs)" if "set zs \<subseteq> S" for zs using that h by auto
  then show ?thesis using assms(2-) by (metis mset_map)
qed

lemma sort_eq_iff: "sort xs = sort ys \<longleftrightarrow> mset xs = mset ys"
proof
  assume "sort xs = sort ys"
  then have "mset (sort xs) = mset (sort ys)" by simp
  then show "mset xs = mset ys" by simp
next
  assume "mset xs = mset ys"
  then show "sort xs = sort ys" by (intro properties_for_sort) simp_all
qed

lemma state_key_text_eq:
  assumes "list_all scalar_control (obs_controls a)" and "list_all scalar_control (obs_controls b)"
    and "list_all scalar (obs_url a)" and "list_all scalar (obs_url b)"
  shows "state_key_text a = state_key_text b \<longleftrightarrow>
     obs_url a = obs_url b \<and> mset (map signature (obs_controls a)) = mset (map signature (obs_controls b))"
proof -
  let ?keys = "\<lambda>s. map (\<lambda>c. dumps (control_key c)) (obs_controls s)"
  let ?json = "\<lambda>s. JArray [JString (obs_url s), JArray (map JString (sort (?keys s)))]"
  have plain: "plain_json (?json s)"
    if "list_all scalar_control (obs_controls s)" "list_all scalar (obs_url s)" for s
    using that by (auto simp: list_all_iff dest: plain_control_key dumps_scalar [unfolded list_all_iff])
  have "state_key_text a = state_key_text b \<longleftrightarrow> ?json a = ?json b"
    using dumps_inj [OF plain plain, of a b] assms by (auto simp: state_key_text_def)
  also have "\<dots> \<longleftrightarrow> obs_url a = obs_url b \<and> sort (?keys a) = sort (?keys b)"
    by (auto simp: inj_map_eq_map inj_def)
  also have "sort (?keys a) = sort (?keys b) \<longleftrightarrow> mset (?keys a) = mset (?keys b)"
    by (rule sort_eq_iff)
  also have "\<dots> \<longleftrightarrow> mset (map signature (obs_controls a)) = mset (map signature (obs_controls b))"
  proof -
    have S: "set (obs_controls a) \<subseteq> {c. scalar_control c}" "set (obs_controls b) \<subseteq> {c. scalar_control c}"
      using assms(1,2) by (auto simp: list_all_iff)
    show ?thesis
      using mset_map_factor [OF _ S, of "\<lambda>c. dumps (control_key c)" signature]
        mset_map_factor [OF _ S, of signature "\<lambda>c. dumps (control_key c)"] control_dump_inj by blast
  qed
  finally show ?thesis .
qed

text \<open>
  C33: The stall rule's page key is exact.  As long as the digest does not collide on the two texts,
  two observations have the same key exactly when they are at the same address and offer the same
  controls (role, label, context, value, checked, selected and expanded state, and whether the
  field can be left), counted with repetitions and in any order; no other text of the page counts.
\<close>

theorem state_key_exact:
  assumes "list_all scalar_control (obs_controls a)" and "list_all scalar_control (obs_controls b)"
    and "list_all scalar (obs_url a)" and "list_all scalar (obs_url b)"
    and "sha (utf8 (state_key_text a)) = sha (utf8 (state_key_text b)) \<Longrightarrow> state_key_text a = state_key_text b"
  shows "state_key sha a = state_key sha b \<longleftrightarrow>
     obs_url a = obs_url b \<and> mset (map signature (obs_controls a)) = mset (map signature (obs_controls b))"
  using assms(5) state_key_text_eq [OF assms(1-4)] by (auto simp: state_key_def)

definition example_observation :: "control list \<Rightarrow> str \<Rightarrow> observation" where
  "example_observation cs view =
     \<lparr>obs_url = lit ''https://a.test/'', obs_title = [], obs_page_key = [], obs_captured_at = from_timestamp 0 0,
      obs_response_status = None, obs_document_key = lit ''d1'', obs_controls = cs, obs_viewport_text = view,
      obs_offscreen_text = [], obs_visual_content = False, obs_media = [], obs_tabs = [], obs_dialog = None,
      obs_inaccessible_frames = 0, obs_can_go_back = False, obs_history_entry = None\<rparr>"

theorem state_key_exact_witness:
  "let x = control_new (lit ''1'') (lit ''button'') (lit ''Save'') [Op_Click];
       y = control_new (lit ''2'') (lit ''link'') (lit ''Help'') [Op_Click]
   in state_key (map (\<lambda>b. b)) (example_observation [x, y] (lit ''12:00''))
      = state_key (map (\<lambda>b. b)) (example_observation [y, x] (lit ''12:01''))"
proof -
  define x where "x = control_new (lit ''1'') (lit ''button'') (lit ''Save'') [Op_Click]"
  define y where "y = control_new (lit ''2'') (lit ''link'') (lit ''Help'') [Op_Click]"
  have sc: "scalar_control x" "scalar_control y"
    by (simp_all add: x_def y_def scalar_control_def control_new_def lit_def scalar_def)
  have url: "list_all scalar (lit ''https://a.test/'')" by (simp add: lit_def scalar_def)
  have inj: "utf8 (state_key_text a) = utf8 (state_key_text b) \<Longrightarrow> state_key_text a = state_key_text b"
    if "a = example_observation [x, y] (lit ''12:00'')" "b = example_observation [y, x] (lit ''12:01'')" for a b
  proof -
    have "mset (map signature [x, y]) = mset (map signature [y, x])" by simp
    then show "state_key_text a = state_key_text b"
      using state_key_text_eq [of a b] that sc url by (simp add: example_observation_def)
  qed
  show ?thesis
    using state_key_exact [of "example_observation [x, y] (lit ''12:00'')" "example_observation [y, x] (lit ''12:01'')"
        "map (\<lambda>b. b)"] sc url inj
    by (simp add: example_observation_def x_def [symmetric] y_def [symmetric] Let_def)
qed

section \<open>Facts: the change\<close>

lemma by_id_wf [simp]: "im_wf (by_id cs)"
  by (simp add: by_id_def im_collect_wf)

lemma by_id_get: "im_get (by_id cs) k = None \<longleftrightarrow> k \<notin> ctl_id ` set cs"
  using im_collect_keys [of "map (\<lambda>c. (ctl_id c, c)) cs"]
  by (simp add: by_id_def map_of_eq_None_iff image_image)

lemma matched_self: "im_wf m \<Longrightarrow> (k, c) \<in> set m \<Longrightarrow> matched m m k c = Some c"
  by (simp add: matched_def im_get_member [THEN iffD2])

lemma differing_self [simp]: "differing u c c = []"
  by (simp add: differing_def attributes_def)

lemma control_changes_self [simp]: "control_changes u (c, c) = []"
  by (simp add: control_changes_def focus_change_def split: option.splits)

lemma media_changes_self [simp]: "media_changes show_f64 (m, m) = []"
  by (simp add: media_changes_def)

lemma matched_pairs_self: "p \<in> set (matched_pairs (by_id cs) (by_id cs)) \<Longrightarrow> fst p = snd p"
  by (auto simp: matched_pairs_def matched_self)

lemma zip_self: "p \<in> set (zip xs xs) \<Longrightarrow> fst p = snd p"
  by (induction xs) auto

lemma all_changes_self:
  assumes "obs_document_key a = obs_document_key b" and "obs_controls a = obs_controls b" and "obs_media a = obs_media b"
  shows "all_changes u show_f64 a b = []"
proof -
  have "control_changes u p = []" if "p \<in> set (matched_pairs (by_id cs) (by_id cs))" for p cs
    using matched_pairs_self [OF that] by (cases p) simp
  moreover have "media_changes show_f64 p = []" if "p \<in> set (zip ms ms)" for p and ms :: "media list"
    using zip_self [OF that] by (cases p) simp
  ultimately show ?thesis using assms by (simp add: all_changes_def old_controls_def)
qed

lemma effect_parts_lead:
  assumes "effect_parts u show_f64 a b \<noteq> []"
  shows "join (lit ''; '') (effect_parts u show_f64 a b) \<noteq> lit ''nothing visible changed''"
proof -
  have lead: "\<exists>c t. p = c # t \<and> c \<noteq> 110" if "p \<in> set (effect_parts u show_f64 a b)" for p
    using that by (auto simp: effect_parts_def Let_def lit_def split: if_splits option.splits)
  obtain p ps where p: "effect_parts u show_f64 a b = p # ps" using assms by (cases "effect_parts u show_f64 a b") auto
  with lead [of p] obtain c t where "p = c # t" "c \<noteq> 110" by auto
  then show ?thesis using p by (cases ps) (auto simp: lit_def)
qed

lemma differing_changes:
  assumes "(was, now) \<in> set (matched_pairs (old_controls a b) (by_id (obs_controls b)))" and "differing u was now \<noteq> []"
  shows "effect_parts u show_f64 a b \<noteq> []"
proof -
  have "control_changes u (was, now) \<noteq> []" using assms(2) by (simp add: control_changes_def)
  then have "all_changes u show_f64 a b \<noteq> []" using assms(1) by (force simp: all_changes_def)
  then show ?thesis by (simp add: effect_parts_def Let_def)
qed

lemma effect_changed_summary:
  "eff_changed (effect u show_f64 a b chosen)
     \<longleftrightarrow> eff_summary (effect u show_f64 a b chosen) \<noteq> lit ''nothing visible changed''"
  using effect_parts_lead [of u show_f64 a b] by (simp add: effect_def Let_def)

lemma effect_added_change:
  assumes "eff_added (effect u show_f64 a b chosen)"
  shows "eff_changed (effect u show_f64 a b chosen) \<and> obs_url a = obs_url b
    \<and> obs_document_key a = obs_document_key b \<and> ctl_id ` set (obs_controls a) \<subseteq> ctl_id ` set (obs_controls b)"
proof -
  have whole: "obs_url a = obs_url b" "obs_document_key a = obs_document_key b" "hidden_controls a b = []"
    and more: "content_changed u a b \<or> shown_controls a b \<noteq> []"
    using assms by (simp_all add: effect_def Let_def)
  have "eff_changed (effect u show_f64 a b chosen)"
  proof (cases "shown_controls a b = []")
    case True
    then show ?thesis
      using more differing_changes [of _ _ a b u show_f64] by (fastforce simp: content_changed_def effect_def Let_def)
  qed (simp add: effect_def effect_parts_def Let_def)
  moreover have "ctl_id ` set (obs_controls a) \<subseteq> ctl_id ` set (obs_controls b)"
    using whole(3) by (auto simp: hidden_controls_def filter_empty_conv by_id_get)
  ultimately show ?thesis using whole by simp
qed

lemma effect_set_change:
  assumes "eff_set_something (effect u show_f64 a b None)"
  shows "eff_changed (effect u show_f64 a b None)"
proof (cases "obs_url a = obs_url b")
  case True
  with assms obtain was now where "(was, now) \<in> set (matched_pairs (old_controls a b) (by_id (obs_controls b)))"
    "differing u was now \<noteq> []" by (auto simp: effect_def Let_def setting_def dest: length_pos_if_in_set)
  from differing_changes [OF this] show ?thesis by (simp add: effect_def Let_def)
qed (simp add: effect_def effect_parts_def Let_def)

lemma effect_same:
  assumes "obs_url a = obs_url b" and "obs_document_key a = obs_document_key b"
    and "obs_viewport_text a = obs_viewport_text b" and "obs_controls a = obs_controls b"
    and "obs_media a = obs_media b" and "\<forall>st. obs_response_status b = Some st \<longrightarrow> st < 400"
  shows "\<not> eff_changed (effect u show_f64 a b None) \<and> \<not> eff_set_something (effect u show_f64 a b None)
    \<and> \<not> eff_added (effect u show_f64 a b None)"
proof -
  have pairs: "differing u was now = []"
    if "(was, now) \<in> set (matched_pairs (old_controls a b) (by_id (obs_controls b)))" for was now
    using matched_pairs_self [of "(was, now)" "obs_controls b"] that assms by (simp add: old_controls_def)
  have shown: "shown_controls a b = []"
    using assms by (auto simp: shown_controls_def old_controls_def filter_empty_conv map_of_eq_None_iff image_iff)
  have "hidden_controls a b = []"
    using assms by (auto simp: hidden_controls_def filter_empty_conv by_id_get)
  then have "effect_parts u show_f64 a b = []"
    using shown assms all_changes_self [OF assms(2,4,5)] by (auto simp: effect_parts_def Let_def not_le split: option.splits)
  then show ?thesis
    using pairs shown assms by (auto simp: effect_def Let_def setting_def content_changed_def)
qed

text \<open>
  The verdicts on an action agree with each other and with the page.  The summary says
  \<^emph>\<open>nothing visible changed\<close> exactly when the verdict is unchanged.  An addition is a change that
  kept the address, the document and every earlier control, and a value set without a chosen
  option is a change.  A page read twice, with the same address, document, text, controls and
  players and no failed response, is unchanged, sets nothing and adds nothing, so an action that
  did nothing never passes for progress.
\<close>

theorem effect_verdicts:
  "(eff_changed (effect u show_f64 a b chosen)
      \<longleftrightarrow> eff_summary (effect u show_f64 a b chosen) \<noteq> lit ''nothing visible changed'')
   \<and> (eff_added (effect u show_f64 a b chosen) \<longrightarrow>
        eff_changed (effect u show_f64 a b chosen) \<and> obs_url a = obs_url b
        \<and> obs_document_key a = obs_document_key b
        \<and> ctl_id ` set (obs_controls a) \<subseteq> ctl_id ` set (obs_controls b))
   \<and> (eff_set_something (effect u show_f64 a b None) \<longrightarrow> eff_changed (effect u show_f64 a b None))
   \<and> (obs_url a = obs_url b \<and> obs_document_key a = obs_document_key b
        \<and> obs_viewport_text a = obs_viewport_text b \<and> obs_controls a = obs_controls b
        \<and> obs_media a = obs_media b \<and> (\<forall>st. obs_response_status b = Some st \<longrightarrow> st < 400) \<longrightarrow>
        \<not> eff_changed (effect u show_f64 a b None) \<and> \<not> eff_set_something (effect u show_f64 a b None)
        \<and> \<not> eff_added (effect u show_f64 a b None))"
  by (intro conjI effect_changed_summary impI effect_set_change) (use effect_added_change effect_same in blast)+

theorem effect_verdicts_witness:
  "let x = control_new (lit ''1'') (lit ''checkbox'') (lit ''Agree'') [Op_Click];
       before = example_observation [x] (lit ''Terms'');
       after = example_observation [x\<lparr>ctl_checked := Some True\<rparr>] (lit ''Terms'')
   in \<not> eff_changed (effect ascii_tables (\<lambda>_. []) before before None)
      \<and> eff_changed (effect ascii_tables (\<lambda>_. []) before after None)
      \<and> eff_summary (effect ascii_tables (\<lambda>_. []) before after None) = lit ''changed Agree checked: empty -> True''"
proof -
  define x where "x = control_new (lit ''1'') (lit ''checkbox'') (lit ''Agree'') [Op_Click]"
  let ?b = "example_observation [x] (lit ''Terms'')"
  let ?a = "example_observation [x\<lparr>ctl_checked := Some True\<rparr>] (lit ''Terms'')"
  have "eff_summary (effect ascii_tables (\<lambda>_. []) ?b ?a None) = lit ''changed Agree checked: empty -> True''"
    unfolding x_def by code_simp
  moreover have "eff_changed (effect ascii_tables (\<lambda>_. []) ?b ?a None)"
    using effect_verdicts [of ascii_tables "\<lambda>_. []" ?b ?a None] calculation by (simp add: lit_def)
  moreover have "\<not> eff_changed (effect ascii_tables (\<lambda>_. []) ?b ?b None)"
  proof -
    have "\<forall>st. obs_response_status ?b = Some st \<longrightarrow> st < 400" by (simp add: example_observation_def)
    then show ?thesis using effect_verdicts [of ascii_tables "\<lambda>_. []" ?b ?b None] by blast
  qed
  ultimately show ?thesis by (simp add: Let_def x_def)
qed

end
