(* ===== verification/Memory.thy ===== *)
theory Memory
  imports Citations Effects Failures
begin

text \<open>
  \<^verbatim>\<open>crates/fastbrowse-agent/src/memory.rs\<close>: the notes of a run.  \<open>sha\<close> is the SHA-256 hex digest of a
  byte string.  An \<^verbatim>\<open>IndexMap\<close> is an association list in insertion order, an \<^verbatim>\<open>IndexSet\<close> a list
  without repeats, a \<^verbatim>\<open>HashSet\<close> a set.
\<close>

section \<open>Facts\<close>

record fact =
  fact_answers :: bool
  fact_text :: str
  fact_evidence :: "evidence option"
  fact_basis :: "str list"
  fact_reader :: fact_reader

definition fact_read :: "str \<Rightarrow> evidence \<Rightarrow> fact_reader \<Rightarrow> fact" where
  "fact_read s e reader =
     \<lparr>fact_answers = False, fact_text = s, fact_evidence = Some e, fact_basis = [], fact_reader = reader\<rparr>"

definition answering_fact :: "fact \<Rightarrow> fact" where
  "answering_fact f = f\<lparr>fact_answers := True\<rparr>"

definition grounded :: "fact \<Rightarrow> str + fact" where
  "grounded f =
     (if fact_evidence f = None \<and> fact_basis f = []
      then Inl (lit ''Value error, a fact with no evidence must be derived from a basis'') else Inr f)"

section \<open>Texts and addresses\<close>

text \<open>Whether a text still shows a quote as whole words, trying every start.\<close>

fun shows_from :: "unicode_tables \<Rightarrow> str \<Rightarrow> uchar option \<Rightarrow> str \<Rightarrow> bool" where
  "shows_from u q prev s \<longleftrightarrow>
     (\<not> is_some_and prev (is_word u) \<and> prefix q s
        \<and> \<not> (drop (length q) s \<noteq> [] \<and> is_word u (hd (drop (length q) s))))
     \<or> (case s of [] \<Rightarrow> False | c # r \<Rightarrow> shows_from u q (Some c) r)"

declare shows_from.simps [simp del]

definition shows_quote :: "unicode_tables \<Rightarrow> str \<Rightarrow> str \<Rightarrow> bool" where
  "shows_quote u s q = shows_from u q None s"

definition split_scheme :: "str \<Rightarrow> str \<times> str" where
  "split_scheme url =
     (let cleaned = filter (\<lambda>c. c \<noteq> 9 \<and> c \<noteq> 13 \<and> c \<noteq> 10) (dropWhile (\<lambda>c. c \<le> 32) url) in
      case find_pos (\<lambda>c. c = ch (CHR '':'')) cleaned of
        None \<Rightarrow> ([], cleaned)
      | Some colon \<Rightarrow>
          if 0 < colon \<and> is_alpha (hd cleaned)
             \<and> (\<forall>c\<in>set (take colon cleaned). is_alnum c \<or> c \<in> set (lit ''+-.''))
          then (ascii_lower (take colon cleaned), drop (colon + 1) cleaned)
          else ([], cleaned))"

definition CURRENCY :: "uchar list" where
  "CURRENCY = [0xA3, 36, 0x20AC, 0xA5, 0x20B9, 0x20A9, 0x20BD, 0xA2, 0x20BA, 0x20AA]"

definition UNITS :: "uchar list" where
  "UNITS = [37, 0x2030, 0x2031, 0xB0]"

definition signs_amount :: "unicode_tables \<Rightarrow> uchar option \<Rightarrow> uchar \<Rightarrow> str \<Rightarrow> bool" where
  "signs_amount u prev c rest \<longleftrightarrow>
     (c = ch (CHR ''-'') \<or> c = 0x2212)
     \<and> \<not> is_some_and prev (alnum_of u)
     \<and> rest \<noteq> [] \<and> (is_digit (hd rest) \<or> hd rest \<in> set CURRENCY)"

definition kept_char :: "unicode_tables \<Rightarrow> uchar option \<Rightarrow> uchar \<Rightarrow> str \<Rightarrow> bool" where
  "kept_char u prev c rest \<longleftrightarrow>
     alnum_of u c \<or> c = ch (CHR ''.'') \<or> c \<in> set CURRENCY \<or> c \<in> set UNITS \<or> signs_amount u prev c rest"

definition push_word :: "str \<Rightarrow> str list \<Rightarrow> str list" where
  "push_word w ws =
     (let t = trim_both (\<lambda>c. c = ch (CHR ''.'')) w in if t = [] then ws else t # ws)"

fun words_from :: "unicode_tables \<Rightarrow> uchar option \<Rightarrow> str \<Rightarrow> str \<Rightarrow> str list" where
  "words_from u prev w [] = push_word w []"
| "words_from u prev w (c # s) =
     (if kept_char u prev c s
      then words_from u (Some c) (w @ [if c = 0x2212 then ch (CHR ''-'') else c]) s
      else push_word w (words_from u (Some c) [] s))"

definition words :: "unicode_tables \<Rightarrow> str \<Rightarrow> str list" where
  "words u s = words_from u None [] (to_lowercase u s)"

definition USES_NETLOC :: "str list" where
  "USES_NETLOC = map lit ['''', ''ftp'', ''http'', ''gopher'', ''nntp'', ''telnet'', ''imap'', ''wais'', ''file'', ''mms'',
     ''https'', ''shttp'', ''snews'', ''prospero'', ''rtsp'', ''rtsps'', ''rtspu'', ''rsync'', ''svn'', ''svn+ssh'', ''sftp'',
     ''nfs'', ''git'', ''git+ssh'', ''ws'', ''wss'', ''itms-services'']"

definition split_netloc :: "str \<Rightarrow> str \<times> str" where
  "split_netloc cleaned =
     (case strip_prefix (lit ''//'') cleaned of
        None \<Rightarrow> ([], cleaned)
      | Some after \<Rightarrow>
          (let n = (case find_pos (\<lambda>c. c \<in> set (lit ''/?#'')) after of Some n \<Rightarrow> n | None \<Rightarrow> length after)
           in (take n after, drop n after)))"

definition join_netloc :: "str \<Rightarrow> str \<Rightarrow> str \<Rightarrow> str" where
  "join_netloc scheme netloc path =
     (if netloc \<noteq> []
      then lit ''//'' @ netloc @ (if path \<noteq> [] \<and> hd path \<noteq> ch (CHR ''/'') then lit ''/'' else []) @ path
      else if prefix (lit ''//'') path
              \<or> scheme \<noteq> [] \<and> scheme \<in> set USES_NETLOC \<and> (path = [] \<or> hd path = ch (CHR ''/''))
      then lit ''//'' @ path
      else path)"

definition address :: "str \<Rightarrow> str" where
  "address url =
     (let (scheme, cleaned) = split_scheme url;
          (netloc, rest) = split_netloc cleaned;
          rest = (case split_once (ch (CHR ''#'')) rest of Some (before, _) \<Rightarrow> before | None \<Rightarrow> rest);
          (path, query) = (case split_once (ch (CHR ''?'')) rest of Some p \<Rightarrow> p | None \<Rightarrow> (rest, []))
      in (if scheme \<noteq> [] then scheme @ lit '':'' else [])
         @ join_netloc scheme netloc path
         @ (if query \<noteq> [] then lit ''?'' @ query else []))"

section \<open>Ids\<close>

definition digest16 :: "(nat list \<Rightarrow> str) \<Rightarrow> str \<Rightarrow> str" where
  "digest16 sha s = take 16 (sha (utf8 s))"

definition source_control_dump :: "source_control \<Rightarrow> json" where
  "source_control_dump c =
     JObject [(lit ''role'', JString (src_role c)), (lit ''label'', JString (src_label c)),
              (lit ''context'', json_text (src_context c))]"

definition evidence_id :: "(nat list \<Rightarrow> str) \<Rightarrow> evidence \<Rightarrow> str" where
  "evidence_id sha e =
     ev_capture_sha256 e @ lit '':'' @ dec_int (ev_start e) @ lit '':'' @ dec_int (ev_end e) @ lit '':''
     @ digest16 sha (address (ev_url e))
     @ (case ev_control_context e of
          None \<Rightarrow> []
        | Some c \<Rightarrow> lit '':''
            @ digest16 sha (dumps (JArray [json_text (ev_frame_id e), JString (ev_source_id e), source_control_dump c])))"

definition fact_id :: "(nat list \<Rightarrow> str) \<Rightarrow> fact \<Rightarrow> str" where
  "fact_id sha f =
     (case fact_evidence f of
        Some e \<Rightarrow> evidence_id sha e
      | None \<Rightarrow> lit ''derived:''
          @ digest16 sha (dumps (JArray [JString (fact_text f), JArray (map JString (sort (fact_basis f)))])))"

section \<open>Notes\<close>

record captured_page =
  page_url :: str
  page_title :: str

record run_notes =
  facts :: "(str, fact) index_map"
  answering :: "str list"
  retired :: "str set"
  pages :: "(str \<times> str \<times> datetime, captured_page) index_map"
  tables :: "(str, table_block list) index_map"

definition notes_default :: run_notes where
  "notes_default = \<lparr>facts = [], answering = [], retired = {}, pages = [], tables = []\<rparr>"

definition entry_or_insert :: "'k \<Rightarrow> 'v \<Rightarrow> ('k, 'v) index_map \<Rightarrow> ('k, 'v) index_map" where
  "entry_or_insert k v m = (if im_get m k = None then im_insert k v m else m)"

definition remember_capture :: "capture \<Rightarrow> run_notes \<Rightarrow> run_notes" where
  "remember_capture c n =
     n\<lparr>pages := entry_or_insert (cap_sha256 c, cap_url c, cap_captured_at c)
                  \<lparr>page_url = cap_url c, page_title = cap_title c\<rparr> (pages n),
       tables := entry_or_insert (cap_sha256 c) (table_blocks c) (tables n)\<rparr>"

definition notes_table_blocks :: "run_notes \<Rightarrow> evidence \<Rightarrow> table_block list" where
  "notes_table_blocks n e = (case im_get (tables n) (ev_capture_sha256 e) of Some ts \<Rightarrow> ts | None \<Rightarrow> [])"

definition captured_page_of :: "run_notes \<Rightarrow> evidence \<Rightarrow> captured_page option" where
  "captured_page_of n e = im_get (pages n) (ev_capture_sha256 e, ev_url e, ev_captured_at e)"

definition current :: "run_notes \<Rightarrow> str \<Rightarrow> bool" where
  "current n key =
     (case im_get (facts n) key of
        None \<Rightarrow> False
      | Some f \<Rightarrow> key \<notin> retired n \<and> (\<not> fact_answers f \<or> key \<in> set (answering n)))"

definition with_evidence :: "(str, fact) index_map \<Rightarrow> (str, evidence) index_map" where
  "with_evidence m = concat (map (\<lambda>(k, f). case fact_evidence f of Some e \<Rightarrow> [(k, e)] | None \<Rightarrow> []) m)"

definition notes_evidence :: "run_notes \<Rightarrow> (str, evidence) index_map" where
  "notes_evidence n = with_evidence (facts n)"

definition usable_evidence :: "run_notes \<Rightarrow> (str, evidence) index_map" where
  "usable_evidence n = with_evidence (filter (\<lambda>(k, _). current n k) (facts n))"

definition current_evidence :: "unicode_tables \<Rightarrow> run_notes \<Rightarrow> capture option \<Rightarrow> (str, evidence) index_map" where
  "current_evidence u n cap =
     (case cap of
        None \<Rightarrow> usable_evidence n
      | Some c \<Rightarrow> filter (\<lambda>(_, e). address (ev_url e) \<noteq> address (cap_url c) \<or> shows_quote u (cap_text c) (ev_quote e))
                    (usable_evidence n))"

definition derived :: "run_notes \<Rightarrow> str \<Rightarrow> bool" where
  "derived n key = (case im_get (facts n) key of Some f \<Rightarrow> fact_evidence f = None | None \<Rightarrow> False)"

definition superseded :: "run_notes \<Rightarrow> str \<Rightarrow> bool" where
  "superseded n key \<longleftrightarrow> key \<in> retired n"

text \<open>A fact read again under an id the notes hold: the bases are joined, and both claims stay.\<close>

definition merge_fact :: "fact \<Rightarrow> fact \<Rightarrow> fact" where
  "merge_fact previous new =
     (let new_kept = (\<not> fact_answers previous \<and> fact_answers new);
          kept = (if new_kept then new else previous);
          shown_text = (if \<not> new_kept \<and> fact_answers new \<and> \<not> contains_str (fact_text kept) (fact_text new)
                 then fact_text kept @ [10] @ fact_text new else fact_text kept);
          shown_text = (if new_kept \<and> Some (fact_text previous) \<noteq> map_option ev_quote (fact_evidence previous)
                    \<and> \<not> contains_str shown_text (fact_text previous)
                 then fact_text previous @ [10] @ shown_text else shown_text)
      in kept\<lparr>fact_basis := unique (fact_basis previous @ fact_basis new), fact_text := shown_text\<rparr>)"

definition set_insert :: "'a \<Rightarrow> 'a list \<Rightarrow> 'a list" where
  "set_insert x xs = (if x \<in> set xs then xs else xs @ [x])"

definition notes_add :: "(nat list \<Rightarrow> str) \<Rightarrow> fact \<Rightarrow> run_notes \<Rightarrow> bool \<times> run_notes" where
  "notes_add sha f n =
     (let key = fact_id sha f;
          n' = n\<lparr>retired := retired n - {key},
                 answering := (if fact_answers f then set_insert key (answering n) else answering n)\<rparr>
      in case im_get (facts n) key of
           Some previous \<Rightarrow> (False, n'\<lparr>facts := im_insert key (merge_fact previous f) (facts n)\<rparr>)
         | None \<Rightarrow> (True, n'\<lparr>facts := im_insert key f (facts n)\<rparr>))"

definition notes_new :: "(nat list \<Rightarrow> str) \<Rightarrow> fact list \<Rightarrow> run_notes" where
  "notes_new sha fs = foldl (\<lambda>n f. snd (notes_add sha f n)) notes_default fs"

definition screenshot_reference :: "(nat list \<Rightarrow> str) \<Rightarrow> nat list \<Rightarrow> str" where
  "screenshot_reference sha png = lit ''screenshot-'' @ sha png"

definition add_image_read :: "(nat list \<Rightarrow> str) \<Rightarrow> str \<Rightarrow> str \<Rightarrow> datetime \<Rightarrow> nat list \<Rightarrow> run_notes \<Rightarrow> bool \<times> run_notes" where
  "add_image_read sha shown_text url captured png n =
     (let source = screenshot_reference sha png;
          e = \<lparr>ev_source_id = source, ev_url = url, ev_frame_id = None, ev_captured_at = captured,
               ev_capture_sha256 = source, ev_start = 0, ev_end = int (text_len shown_text),
               ev_quote = lit ''read from the screenshot: '' @ shown_text, ev_complete_source = False,
               ev_control_context = None, ev_rendered_text = False, ev_heading_path = [], ev_capture_artifact = None\<rparr>
      in notes_add sha \<lparr>fact_answers = True, fact_text = shown_text, fact_evidence = Some e, fact_basis = [],
                        fact_reader = Reader_LlmImage\<rparr> n)"

text \<open>\<^verbatim>\<open>windows(said.len()).any(...)\<close>: the words said stand in the note as one run.\<close>

definition run_in :: "'a list \<Rightarrow> 'a list \<Rightarrow> bool" where
  "run_in said note \<longleftrightarrow> find_str said note \<noteq> None"

definition repeats_page_text :: "unicode_tables \<Rightarrow> run_notes \<Rightarrow> str \<Rightarrow> str \<Rightarrow> bool" where
  "repeats_page_text u n shown_text url =
     (let said = words u shown_text in
      said \<noteq> [] \<and>
      (\<exists>(key, f) \<in> set (facts n).
         current n key \<and> fact_reader f \<noteq> Reader_LlmImage
         \<and> (case fact_evidence f of Some e \<Rightarrow> address (ev_url e) = address url | None \<Rightarrow> False)
         \<and> run_in said (words u (fact_text f))))"

definition answered :: "run_notes \<Rightarrow> bool" where
  "answered n \<longleftrightarrow> answering n \<noteq> []"

definition notes_answers :: "run_notes \<Rightarrow> str \<Rightarrow> bool" where
  "notes_answers n key \<longleftrightarrow> key \<in> set (answering n)"

section \<open>Citing what a fact rests on\<close>

definition basis_of :: "(str, fact) index_map \<Rightarrow> str \<Rightarrow> str list" where
  "basis_of m key = (case im_get m key of Some f \<Rightarrow> fact_basis f | None \<Rightarrow> [])"

lemma basis_of_outside: "key \<notin> set (im_keys m) \<Longrightarrow> basis_of m key = []"
  by (simp add: basis_of_def map_of_eq_None_iff [THEN iffD2])

text \<open>The stack of \<^verbatim>\<open>pending\<close> keys, its top first; a popped key's basis is pushed in order.\<close>

function expand_loop :: "(str, fact) index_map \<Rightarrow> str list \<Rightarrow> str set \<Rightarrow> str set" where
  "expand_loop m [] seen = seen"
| "expand_loop m (key # pending) seen =
     (if key \<in> seen then expand_loop m pending seen
      else expand_loop m (rev (basis_of m key) @ pending) (insert key seen))"
  by pat_completeness auto

termination
proof (relation "inv_image (finite_psubset <*lex*> less_than) (\<lambda>(m, pending, seen). (set (im_keys m) - seen, length pending))",
    goal_cases)
  case (3 m key pending seen)
  then show ?case
    using basis_of_outside [of key m] by (cases "key \<in> set (im_keys m)") (auto simp: finite_psubset_def)
qed auto

definition expand_evidence_ids :: "run_notes \<Rightarrow> str list \<Rightarrow> str list" where
  "expand_evidence_ids n keys =
     (let cited = unique keys;
          seen = expand_loop (facts n) (rev cited) {}
      in filter (\<lambda>k. k \<in> seen) (im_keys (facts n)) @ filter (\<lambda>k. k \<notin> set (im_keys (facts n))) cited)"

section \<open>Superseding\<close>

definition cut_from :: "str \<Rightarrow> fact \<Rightarrow> bool" where
  "cut_from sha256 f = (case fact_evidence f of Some e \<Rightarrow> ev_capture_sha256 e = sha256 | None \<Rightarrow> False)"

definition fresh_evidence :: "run_notes \<Rightarrow> str \<Rightarrow> evidence list" where
  "fresh_evidence n sha256 = filter (\<lambda>e. ev_capture_sha256 e = sha256) (map snd (usable_evidence n))"

definition vanished :: "unicode_tables \<Rightarrow> str \<Rightarrow> str set \<Rightarrow> str \<Rightarrow> evidence \<Rightarrow> bool" where
  "vanished u sha256 addresses shown_text e \<longleftrightarrow>
     ev_capture_sha256 e \<noteq> sha256 \<and> address (ev_url e) \<in> addresses \<and> \<not> shows_quote u shown_text (ev_quote e)"

definition stale :: "unicode_tables \<Rightarrow> run_notes \<Rightarrow> str \<Rightarrow> str set \<Rightarrow> str \<Rightarrow> str \<times> fact \<Rightarrow> bool" where
  "stale u n sha256 addresses shown_text entry =
     (case entry of (key, f) \<Rightarrow>
        if fact_basis f \<noteq> []
        then \<exists>source \<in> set (expand_evidence_ids n [key]).
               (case im_get (notes_evidence n) source of Some e \<Rightarrow> vanished u sha256 addresses shown_text e | None \<Rightarrow> False)
        else (case fact_evidence f of Some e \<Rightarrow> vanished u sha256 addresses shown_text e | None \<Rightarrow> False))"

definition superseded_ids :: "unicode_tables \<Rightarrow> str \<Rightarrow> str \<Rightarrow> str \<Rightarrow> run_notes \<Rightarrow> str list" where
  "superseded_ids u url sha256 shown_text n =
     (let addresses = insert (address url) (set (map (\<lambda>e. address (ev_url e)) (fresh_evidence n sha256)))
      in map fst (filter (\<lambda>entry. \<not> cut_from sha256 (snd entry) \<and> stale u n sha256 addresses shown_text entry) (facts n)))"

definition drop_basis :: "str list \<Rightarrow> str \<Rightarrow> fact \<Rightarrow> fact" where
  "drop_basis gone sha256 f =
     (if cut_from sha256 f then f\<lparr>fact_basis := filter (\<lambda>s. s \<notin> set gone) (fact_basis f)\<rparr> else f)"

definition supersede :: "unicode_tables \<Rightarrow> str \<Rightarrow> str \<Rightarrow> str \<Rightarrow> run_notes \<Rightarrow> run_notes" where
  "supersede u url sha256 shown_text n =
     (if fresh_evidence n sha256 = [] then n
      else let gone = superseded_ids u url sha256 shown_text n
           in n\<lparr>retired := retired n \<union> set gone,
                answering := filter (\<lambda>k. k \<notin> set gone) (answering n),
                facts := map (\<lambda>(k, f). (k, drop_basis gone sha256 f)) (facts n)\<rparr>)"

definition supporting :: "run_notes \<Rightarrow> (str \<times> fact) list" where
  "supporting n = concat (map (\<lambda>k. case im_get (facts n) k of Some f \<Rightarrow> [(k, f)] | None \<Rightarrow> []) (answering n))"

definition supporting_evidence :: "run_notes \<Rightarrow> evidence list" where
  "supporting_evidence n =
     concat (map (\<lambda>k. case im_get (notes_evidence n) k of Some e \<Rightarrow> [e] | None \<Rightarrow> [])
       (expand_evidence_ids n (map fst (supporting n))))"

section \<open>Rendering\<close>

definition quoted :: "str \<Rightarrow> bool \<Rightarrow> str" where
  "quoted s ascii = write_string s ascii"

fun rank_facts :: "(str option \<Rightarrow> nat) \<Rightarrow> (str \<times> fact) list \<Rightarrow> (nat \<times> str \<times> fact) list" where
  "rank_facts ranks [] = []"
| "rank_facts ranks ((key, f) # rest) =
     (let a = map_option ev_url (fact_evidence f)
      in (ranks a, key, f) # rank_facts (ranks(a := ranks a + 1)) rest)"

definition source_number :: "str list \<Rightarrow> str \<Rightarrow> nat" where
  "source_number sources a = (case find_pos (\<lambda>s. s = a) sources of Some i \<Rightarrow> i + 1 | None \<Rightarrow> length sources + 1)"

definition navigation_line :: "run_notes \<Rightarrow> str list \<Rightarrow> str \<Rightarrow> fact \<Rightarrow> str" where
  "navigation_line n sources key f =
     quoted (fact_text f) False
     @ (if notes_answers n key then lit '' answers=true'' else [])
     @ (case fact_evidence f of
          None \<Rightarrow> []
        | Some e \<Rightarrow> lit '' source='' @ dec (source_number sources (ev_url e))
            @ (if ev_url e \<in> set sources then [] else lit '' url='' @ quoted (ev_url e) True))
     @ (case fact_evidence f of
          None \<Rightarrow> []
        | Some e \<Rightarrow> if ev_quote e \<noteq> fact_text f then lit '' quote='' @ quoted (ev_quote e) False else [])"

fun navigation_lines :: "run_notes \<Rightarrow> str list \<Rightarrow> (nat \<times> str \<times> fact) list \<Rightarrow> str list" where
  "navigation_lines n sources [] = []"
| "navigation_lines n sources ((_, key, f) # rest) =
     navigation_line n sources key f
     # navigation_lines n (case fact_evidence f of Some e \<Rightarrow> set_insert (ev_url e) sources | None \<Rightarrow> sources) rest"

definition render_for_navigation :: "run_notes \<Rightarrow> str" where
  "render_for_navigation n =
     join [10] (navigation_lines n [] (sort_key fst (rank_facts (\<lambda>_. 0) (rev (facts n)))))"

definition basis_text :: "fact \<Rightarrow> str" where
  "basis_text f = (if fact_basis f = [] then [] else lit '' basis='' @ dumps (JArray (map JString (fact_basis f))))"

definition note_line :: "run_notes \<Rightarrow> str \<Rightarrow> fact \<Rightarrow> bool \<Rightarrow> str" where
  "note_line n key f shared_url =
     lit ''['' @ key @ lit ''] ''
     @ (if map_option ev_quote (fact_evidence f) = Some (fact_text f) then [] else quoted (fact_text f) False @ lit '' '')
     @ (if notes_answers n key then lit ''answers=true '' else [])
     @ (case fact_evidence f of
          None \<Rightarrow> lit ''derived''
        | Some e \<Rightarrow>
            (if shared_url then [] else lit ''url='' @ quoted (ev_url e) True @ lit '' '')
            @ lit ''quote='' @ quoted (ev_quote e) False
            @ (case ev_control_context e of
                 None \<Rightarrow> []
               | Some c \<Rightarrow> lit '' control_context='' @ dump_json (source_control_dump c)))
     @ basis_text f"

definition shared_group :: "run_notes \<Rightarrow> str \<Rightarrow> (str \<times> fact) list \<Rightarrow> str" where
  "shared_group n url grp =
     join [10] ((lit ''# Source URL: '' @ quoted url True) # map (\<lambda>(k, f). lit ''- '' @ note_line n k f True) grp)"

definition fact_url :: "fact \<Rightarrow> str option" where
  "fact_url f = map_option ev_url (fact_evidence f)"

definition note_size :: "bool \<Rightarrow> str \<Rightarrow> nat" where
  "note_size json_encoded s = (if json_encoded then dumped_len s else text_len s)"

text \<open>One group of consecutive entries from the same address, and whether it shares the address.\<close>

definition render_group :: "run_notes \<Rightarrow> bool \<Rightarrow> bool \<Rightarrow> str option \<Rightarrow> (str \<times> fact) list \<Rightarrow> str \<times> bool" where
  "render_group n json_encoded previous_shared url grp =
     (let lines = join [10] (map (\<lambda>(k, f). note_line n k f False) grp) in
      case url of
        Some a \<Rightarrow>
          if note_size json_encoded (shared_group n a grp) < note_size json_encoded lines
          then (shared_group n a grp, True)
          else ((if previous_shared then lit ''# Other evidence'' @ [10] else []) @ lines, False)
      | None \<Rightarrow> ((if previous_shared then lit ''# Other evidence'' @ [10] else []) @ lines, False))"

function render_groups :: "run_notes \<Rightarrow> bool \<Rightarrow> bool \<Rightarrow> (str \<times> fact) list \<Rightarrow> str list" where
  "render_groups n json_encoded previous_shared [] = []"
| "render_groups n json_encoded previous_shared (e # es) =
     (let same = (\<lambda>x. fact_url (snd x) = fact_url (snd e));
          (text, shared) = render_group n json_encoded previous_shared (fact_url (snd e)) (e # takeWhile same es)
      in text # render_groups n json_encoded shared (dropWhile same es))"
  by pat_completeness auto
termination
  by (relation "measure (\<lambda>(_, _, _, es). length es)") (auto simp: less_Suc_eq_le length_dropWhile_le)

definition render_entries :: "run_notes \<Rightarrow> bool \<Rightarrow> (str \<times> fact) list \<Rightarrow> str" where
  "render_entries n json_encoded entries = join [10] (render_groups n json_encoded False entries)"

definition required_ids :: "run_notes \<Rightarrow> str set" where
  "required_ids n = set (expand_evidence_ids n (answering n))"

definition ordered_facts :: "run_notes \<Rightarrow> (str \<times> fact) list" where
  "ordered_facts n = sort_key (\<lambda>(k, _). k \<notin> required_ids n) (facts n)"

definition cut_notes :: "run_notes \<Rightarrow> bool \<Rightarrow> nat \<Rightarrow> str" where
  "cut_notes n json_encoded kept_count =
     (let ordered = ordered_facts n;
          body = render_entries n json_encoded (take kept_count ordered);
          marker = lit ''['' @ dec (length ordered - kept_count) @ lit '' facts omitted]''
      in if body = [] then marker else body @ [10] @ marker)"

function notes_search :: "(nat \<Rightarrow> bool) \<Rightarrow> nat \<Rightarrow> nat \<Rightarrow> nat" where
  "notes_search fit fits over =
     (if over - fits \<le> 1 then fits
      else let middle = (fits + over) div 2
           in if fit middle then notes_search fit middle over else notes_search fit fits middle)"
  by pat_completeness auto
termination
  by (relation "measure (\<lambda>(_, fits, over). over - fits)") auto

declare notes_search.simps [simp del]

fun render_scan :: "run_notes \<Rightarrow> int \<Rightarrow> bool \<Rightarrow> bool \<Rightarrow> nat list \<Rightarrow> (agent_error + str) option" where
  "render_scan n max_chars preserve_answer json_encoded [] = None"
| "render_scan n max_chars preserve_answer json_encoded (kept_count # rest) =
     (let kept = set (map fst (take kept_count (ordered_facts n))) in
      if preserve_answer \<and> \<not> required_ids n \<subseteq> kept
      then Some (Inl (Agent_NotesTooLarge (lit ''The answer'' @ [39] @ lit ''s evidence exceeds the '' @ dec_int max_chars
                        @ lit '' character notes budget'')))
      else if \<exists>(_, f) \<in> set (take kept_count (ordered_facts n)). \<not> set (fact_basis f) \<subseteq> kept
      then render_scan n max_chars preserve_answer json_encoded rest
      else if note_size json_encoded (cut_notes n json_encoded kept_count) \<le> nat max_chars
      then Some (Inr (cut_notes n json_encoded kept_count))
      else render_scan n max_chars preserve_answer json_encoded rest)"

definition render :: "run_notes \<Rightarrow> int \<Rightarrow> bool \<Rightarrow> bool \<Rightarrow> agent_error + str" where
  "render n max_chars preserve_answer json_encoded =
     (if max_chars < 0 then Inl (Agent_Invalid (lit ''max_chars must be nonnegative''))
      else let complete = render_entries n json_encoded (facts n) in
      if note_size json_encoded complete \<le> nat max_chars then Inr complete
      else let fits = notes_search (\<lambda>m. note_size json_encoded (cut_notes n json_encoded m) \<le> nat max_chars)
                        0 (length (facts n))
           in case render_scan n max_chars preserve_answer json_encoded (rev [0..<fits + 1]) of
                Some r \<Rightarrow> r
              | None \<Rightarrow>
                  if preserve_answer
                  then Inl (Agent_NotesTooLarge (lit ''The '' @ dec_int max_chars
                         @ lit '' character notes budget cannot report omitted facts''))
                  else Inl (Agent_Invalid (lit ''max_chars is too small to report omitted citations'')))"

section \<open>Whole-word quotes and addresses: facts\<close>

lemma prefix_rest:
  "prefix q x \<and> \<not> (drop (length q) x \<noteq> [] \<and> P (hd (drop (length q) x)))
     \<longleftrightarrow> (\<exists>b. x = q @ b \<and> (b = [] \<or> \<not> P (hd b)))"
  by (auto simp: prefix_def simp del: drop_eq_Nil)

lemma shows_from_iff:
  "shows_from u q prev s \<longleftrightarrow>
     (\<exists>a b. s = a @ q @ b
        \<and> (if a = [] then (\<forall>c. prev = Some c \<longrightarrow> \<not> is_word u c) else \<not> is_word u (last a))
        \<and> (b = [] \<or> \<not> is_word u (hd b)))"
proof (induction s arbitrary: prev)
  case Nil
  show ?case by (subst shows_from.simps) (auto simp: is_some_and_iff)
next
  case (Cons c s)
  have here: "(\<not> is_some_and prev (is_word u) \<and> prefix q (c # s)
        \<and> \<not> (drop (length q) (c # s) \<noteq> [] \<and> is_word u (hd (drop (length q) (c # s)))))
      \<longleftrightarrow> (\<exists>b. c # s = q @ b \<and> (\<forall>d. prev = Some d \<longrightarrow> \<not> is_word u d) \<and> (b = [] \<or> \<not> is_word u (hd b)))"
    using prefix_rest [of q "c # s" "is_word u"] unfolding is_some_and_iff by blast
  have later: "shows_from u q (Some c) s \<longleftrightarrow>
      (\<exists>a b. c # s = (c # a) @ q @ b \<and> \<not> is_word u (last (c # a)) \<and> (b = [] \<or> \<not> is_word u (hd b)))"
    unfolding Cons.IH by (rule ex_cong1)+ auto
  have split_first: "(\<exists>a b. c # s = a @ q @ b \<and> P a \<and> Q b) \<longleftrightarrow>
      (\<exists>b. c # s = q @ b \<and> P [] \<and> Q b) \<or> (\<exists>a b. c # s = (c # a) @ q @ b \<and> P (c # a) \<and> Q b)" for P Q
  proof
    assume "\<exists>a b. c # s = a @ q @ b \<and> P a \<and> Q b"
    then obtain a b where ab: "c # s = a @ q @ b" "P a" "Q b" by blast
    show "(\<exists>b. c # s = q @ b \<and> P [] \<and> Q b) \<or> (\<exists>a b. c # s = (c # a) @ q @ b \<and> P (c # a) \<and> Q b)"
    proof (cases a)
      case Nil
      with ab have "c # s = q @ b \<and> P [] \<and> Q b" by simp
      then show ?thesis by blast
    next
      case (Cons x a')
      with ab have "c # s = (c # a') @ q @ b \<and> P (c # a') \<and> Q b" by simp
      then show ?thesis by blast
    qed
  next
    assume "(\<exists>b. c # s = q @ b \<and> P [] \<and> Q b) \<or> (\<exists>a b. c # s = (c # a) @ q @ b \<and> P (c # a) \<and> Q b)"
    then show "\<exists>a b. c # s = a @ q @ b \<and> P a \<and> Q b" by (metis append_Nil)
  qed
  show ?case
    unfolding shows_from.simps [of u q prev "c # s"] here list.case later split_first by simp
qed

text \<open>
  C34: A quote is shown by a text exactly when it stands there as whole words: somewhere in the text,
  with no word character right before it and none right after it.
\<close>

theorem shows_quote_exact:
  "shows_quote u s q \<longleftrightarrow>
     (\<exists>a b. s = a @ q @ b \<and> \<not> (a \<noteq> [] \<and> is_word u (last a)) \<and> \<not> (b \<noteq> [] \<and> is_word u (hd b)))"
  unfolding shows_quote_def shows_from_iff by (rule ex_cong1)+ auto

section \<open>The basis of a citation: facts\<close>

definition rests_on :: "(str, fact) index_map \<Rightarrow> (str \<times> str) set" where
  "rests_on m = {(k, s). s \<in> set (basis_of m k)}"

lemma expand_loop_mono: "seen \<union> set pending \<subseteq> expand_loop m pending seen"
  by (induction m pending seen rule: expand_loop.induct) auto

lemma expand_loop_closed:
  "\<forall>k\<in>seen. set (basis_of m k) \<subseteq> seen \<union> set pending \<Longrightarrow>
   k \<in> expand_loop m pending seen \<Longrightarrow> set (basis_of m k) \<subseteq> expand_loop m pending seen"
  by (induction m pending seen arbitrary: k rule: expand_loop.induct) (auto split: if_splits)

lemma expand_loop_sound:
  "k \<in> expand_loop m pending seen \<Longrightarrow> k \<in> seen \<or> (\<exists>c\<in>set pending. (c, k) \<in> (rests_on m)\<^sup>*)"
proof (induction m pending seen rule: expand_loop.induct)
  case (2 m key pending seen)
  show ?case
  proof (cases "key \<in> seen")
    case False
    with 2 have "k \<in> insert key seen \<or> (\<exists>c\<in>set (rev (basis_of m key) @ pending). (c, k) \<in> (rests_on m)\<^sup>*)" by simp
    then show ?thesis
      by (auto simp: rests_on_def intro: converse_rtrancl_into_rtrancl)
  qed (use 2 in auto)
qed simp

lemma expand_loop_reach: "expand_loop m pending {} = (rests_on m)\<^sup>* `` set pending"
proof
  show "expand_loop m pending {} \<subseteq> (rests_on m)\<^sup>* `` set pending" using expand_loop_sound by fastforce
  have closed: "(rests_on m) `` expand_loop m pending {} \<subseteq> expand_loop m pending {}"
    using expand_loop_closed [of "{}" m pending] by (auto simp: rests_on_def)
  have "(rests_on m)\<^sup>* `` set pending \<subseteq> (rests_on m)\<^sup>* `` expand_loop m pending {}"
    using expand_loop_mono [of "{}" pending m] by blast
  also have "\<dots> = expand_loop m pending {}" using closed by (rule Image_closed_trancl)
  finally show "(rests_on m)\<^sup>* `` set pending \<subseteq> expand_loop m pending {}" .
qed

text \<open>
  C35: Expanding a citation always ends, cyclic bases included, and gives each id once: exactly the
  known facts the cited ones rest on, transitively, in the order they were read, followed by the
  cited ids no fact has, which are kept so that the claim check can see them fail.
\<close>

theorem expand_evidence_closure:
  assumes "im_wf (facts n)"
  shows "\<exists>known unknown. expand_evidence_ids n keys = known @ unknown
     \<and> known = filter (\<lambda>k. \<exists>c\<in>set keys. (c, k) \<in> (rests_on (facts n))\<^sup>*) (im_keys (facts n))
     \<and> unknown = filter (\<lambda>k. k \<notin> set (im_keys (facts n))) (unique keys)
     \<and> distinct (known @ unknown)"
  using assms expand_loop_reach [of "facts n" "rev (unique keys)"]
  by (auto simp: expand_evidence_ids_def Let_def im_wf_def Image_iff intro!: filter_cong)

definition example_fact :: "string \<Rightarrow> string list \<Rightarrow> fact" where
  "example_fact s basis =
     \<lparr>fact_answers = False, fact_text = lit s, fact_evidence = None, fact_basis = map lit basis,
      fact_reader = Reader_JevChoice\<rparr>"

theorem expand_evidence_closure_witness:
  "expand_evidence_ids (notes_default\<lparr>facts := [(lit ''a'', example_fact ''x'' [''b'']), (lit ''b'', example_fact ''y'' [''a'']),
      (lit ''c'', example_fact ''z'' [])]\<rparr>) [lit ''b'', lit ''q''] = [lit ''a'', lit ''b'', lit ''q'']"
proof -
  let ?n = "notes_default\<lparr>facts := [(lit ''a'', example_fact ''x'' [''b'']), (lit ''b'', example_fact ''y'' [''a'']),
      (lit ''c'', example_fact ''z'' [])]\<rparr>"
  have "im_wf (facts ?n)" by (simp add: im_wf_def lit_def)
  from expand_evidence_closure [OF this, of "[lit ''b'', lit ''q'']"]
  have "distinct (expand_evidence_ids ?n [lit ''b'', lit ''q''])" by metis
  moreover have "expand_evidence_ids ?n [lit ''b'', lit ''q''] = [lit ''a'', lit ''b'', lit ''q'']" by code_simp
  ultimately show ?thesis by simp
qed

section \<open>The invariant of the notes\<close>

definition notes_ok :: "(nat list \<Rightarrow> str) \<Rightarrow> run_notes \<Rightarrow> bool" where
  "notes_ok sha n \<longleftrightarrow>
     im_wf (facts n) \<and> distinct (answering n)
     \<and> (\<forall>k\<in>set (answering n). k \<notin> retired n \<and> (\<exists>f. im_get (facts n) k = Some f \<and> fact_answers f))
     \<and> retired n \<subseteq> set (im_keys (facts n))
     \<and> (\<forall>(k, f)\<in>set (facts n). \<forall>e. fact_evidence f = Some e \<longrightarrow> evidence_id sha e = k)"

inductive notes_step :: "(nat list \<Rightarrow> str) \<Rightarrow> unicode_tables \<Rightarrow> run_notes \<Rightarrow> run_notes \<Rightarrow> bool" for sha u where
  add: "notes_step sha u n (snd (notes_add sha f n))"
| image: "notes_step sha u n (snd (add_image_read sha shown_text url captured png n))"
| remember: "notes_step sha u n (remember_capture c n)"
| supersede: "notes_step sha u n (supersede u url sha256 shown_text n)"

lemma notes_ok_default: "notes_ok sha notes_default"
  by (simp add: notes_ok_def notes_default_def im_wf_def)

lemma merge_fact_evidence:
  "fact_evidence (merge_fact p f) = fact_evidence p \<or> fact_evidence (merge_fact p f) = fact_evidence f"
  by (simp add: merge_fact_def Let_def)

lemma merge_fact_answers: "fact_answers (merge_fact p f) \<longleftrightarrow> fact_answers p \<or> fact_answers f"
  by (auto simp: merge_fact_def Let_def)

lemma set_insert_simps [simp]:
  "set (set_insert x xs) = insert x (set xs)" "distinct xs \<Longrightarrow> distinct (set_insert x xs)"
  by (auto simp: set_insert_def)

lemma fact_id_evidence: "fact_evidence f = Some e \<Longrightarrow> fact_id sha f = evidence_id sha e"
  by (simp add: fact_id_def)

text \<open>The fact the notes hold under the id of an added one.\<close>

definition stored_fact :: "(nat list \<Rightarrow> str) \<Rightarrow> fact \<Rightarrow> run_notes \<Rightarrow> fact" where
  "stored_fact sha f n = (case im_get (facts n) (fact_id sha f) of Some p \<Rightarrow> merge_fact p f | None \<Rightarrow> f)"

lemma notes_add_facts:
  "facts (snd (notes_add sha f n)) = im_insert (fact_id sha f) (stored_fact sha f n) (facts n)"
  "answering (snd (notes_add sha f n))
     = (if fact_answers f then set_insert (fact_id sha f) (answering n) else answering n)"
  "retired (snd (notes_add sha f n)) = retired n - {fact_id sha f}"
  "fst (notes_add sha f n) \<longleftrightarrow> im_get (facts n) (fact_id sha f) = None"
  by (simp_all add: notes_add_def stored_fact_def Let_def split: option.splits)

lemma stored_fact_evidence:
  assumes "notes_ok sha n" and "fact_evidence (stored_fact sha f n) = Some e"
  shows "evidence_id sha e = fact_id sha f"
proof (cases "im_get (facts n) (fact_id sha f)")
  case None
  with assms(2) show ?thesis by (simp add: stored_fact_def fact_id_evidence)
next
  case (Some p)
  then have "(fact_id sha f, p) \<in> set (facts n)" by (rule map_of_SomeD)
  with assms(1) have p: "fact_evidence p = Some e \<Longrightarrow> evidence_id sha e = fact_id sha f"
    by (auto simp: notes_ok_def)
  from Some assms(2) have "fact_evidence p = Some e \<or> fact_evidence f = Some e"
    using merge_fact_evidence [of p f] by (simp add: stored_fact_def) metis
  with p show ?thesis by (auto simp: fact_id_evidence)
qed

lemma notes_ok_add:
  assumes "notes_ok sha n"
  shows "notes_ok sha (snd (notes_add sha f n))"
proof -
  let ?k = "fact_id sha f" and ?g = "stored_fact sha f n"
  have wf: "im_wf (im_insert ?k ?g (facts n))" using assms by (simp add: notes_ok_def index_map.wf_insert)
  have ids: "evidence_id sha e = k"
    if "(k, h) \<in> set (im_insert ?k ?g (facts n))" "fact_evidence h = Some e" for k h e
  proof -
    from that(1) wf have "im_get (im_insert ?k ?g (facts n)) k = Some h" by (simp add: im_get_member)
    then have "(k = ?k \<and> h = ?g) \<or> im_get (facts n) k = Some h" by (auto simp: im_insert_get split: if_splits)
    then show ?thesis
    proof
      assume "im_get (facts n) k = Some h"
      then have "(k, h) \<in> set (facts n)" by (rule map_of_SomeD)
      then show ?thesis using assms that(2) by (auto simp: notes_ok_def)
    qed (use stored_fact_evidence [OF assms] that(2) in blast)
  qed
  have ans: "\<exists>h. im_get (im_insert ?k ?g (facts n)) k = Some h \<and> fact_answers h"
    if "k \<in> set (answering n) \<or> (fact_answers f \<and> k = ?k)" for k
    using that assms by (fastforce simp: notes_ok_def im_insert_get stored_fact_def merge_fact_answers split: option.splits)
  show ?thesis
    using assms wf ids ans unfolding notes_ok_def notes_add_facts by (auto simp: im_insert_keys)
qed

lemma drop_basis_fields [simp]:
  "fact_evidence (drop_basis gone h f) = fact_evidence f" "fact_answers (drop_basis gone h f) = fact_answers f"
  "fact_text (drop_basis gone h f) = fact_text f" "cut_from h (drop_basis gone h f) = cut_from h f"
  by (simp_all add: drop_basis_def cut_from_def)

lemma supersede_keys: "im_keys (facts (supersede u url h shown_text n)) = im_keys (facts n)"
  by (simp add: supersede_def Let_def case_prod_beta comp_def)

lemma supersede_get:
  "fresh_evidence n h \<noteq> [] \<Longrightarrow>
   im_get (facts (supersede u url h shown_text n)) k
     = map_option (drop_basis (superseded_ids u url h shown_text n) h) (im_get (facts n) k)"
  by (simp add: supersede_def Let_def map_of_map)

lemma superseded_ids_held: "set (superseded_ids u url h shown_text n) \<subseteq> set (im_keys (facts n))"
  by (auto simp: superseded_ids_def)

lemma notes_ok_supersede:
  assumes "notes_ok sha n"
  shows "notes_ok sha (supersede u url h shown_text n)"
proof (cases "fresh_evidence n h = []")
  case False
  let ?n = "supersede u url h shown_text n" and ?gone = "superseded_ids u url h shown_text n"
  have parts: "answering ?n = filter (\<lambda>k. k \<notin> set ?gone) (answering n)" "retired ?n = retired n \<union> set ?gone"
    "facts ?n = map (\<lambda>(k, f). (k, drop_basis ?gone h f)) (facts n)"
    using False by (simp_all add: supersede_def Let_def)
  have "im_wf (facts ?n)" using assms supersede_keys [of u url h shown_text n] by (simp add: notes_ok_def im_wf_def)
  moreover have "\<exists>f. im_get (facts ?n) k = Some f \<and> fact_answers f" if "k \<in> set (answering ?n)" for k
    using that assms supersede_get [OF False] by (auto simp: parts(1) notes_ok_def)
  moreover have "retired ?n \<subseteq> set (im_keys (facts ?n))"
    using assms superseded_ids_held unfolding supersede_keys by (auto simp: parts notes_ok_def)
  moreover have "evidence_id sha e = k" if "(k, f) \<in> set (facts ?n)" "fact_evidence f = Some e" for k f e
    using that assms by (auto simp: parts(3) notes_ok_def)
  ultimately show ?thesis using assms by (auto simp: notes_ok_def parts(1,2))
qed (simp add: supersede_def assms)

lemma notes_step_ok: "notes_step sha u n n' \<Longrightarrow> notes_ok sha n \<Longrightarrow> notes_ok sha n'"
proof (induction rule: notes_step.cases)
  case (image n shown_text url captured png)
  then show ?case by (simp add: add_image_read_def Let_def notes_ok_add)
next
  case (remember n c)
  then show ?case by (simp add: notes_ok_def remember_capture_def)
qed (simp_all add: notes_ok_add notes_ok_supersede)

interpretation notes_inv: stable_predicate "notes_step sha u" "notes_ok sha"
  by unfold_locales (rule notes_step_ok)

text \<open>
  C36: The notes stay well formed however a run fills them.  After any sequence of added facts,
  screenshot readings, remembered captures and superseding reads: ids are unique and a quoted
  fact is filed under the id of its quote; every fact standing as the answer is held, was written
  as answering and is not retired; and only held facts are ever retired.
\<close>

theorem notes_invariant:
  assumes "(notes_step sha u)\<^sup>*\<^sup>* notes_default n"
  shows "notes_ok sha n"
  using assms notes_ok_default by (rule notes_inv.stable_star)

theorem notes_invariant_witness:
  "notes_ok (take 4) (snd (notes_add (take 4) (answering_fact (example_fact ''x'' [''b''])) notes_default))"
  by (intro notes_invariant [of "take 4" ascii_tables] r_into_rtranclp notes_step.add)

section \<open>Adding and superseding: properties\<close>

lemma superseded_idsI:
  assumes "im_get (facts n) k = Some f" and "\<not> cut_from h f"
    and "\<And>S. address url \<in> S \<Longrightarrow> stale u n h S page (k, f)"
  shows "k \<in> set (superseded_ids u url h page n)"
proof -
  let ?S = "insert (address url) (set (map (\<lambda>e. address (ev_url e)) (fresh_evidence n h)))"
  have "(k, f) \<in> set (filter (\<lambda>x. \<not> cut_from h (snd x) \<and> stale u n h ?S page x) (facts n))"
    using map_of_SomeD [OF assms(1)] assms(2) assms(3) [of ?S] by simp
  then have "fst (k, f) \<in> set (superseded_ids u url h page n)"
    unfolding superseded_ids_def Let_def set_map by (rule imageI)
  then show ?thesis by simp
qed

lemma contains_self: "contains_str (a @ q @ b) q"
  by (auto simp: contains_str_def find_str_None intro!: exI [of _ "length a"])

lemma contains_refl [simp]: "contains_str q q"
  using contains_self [of "[]" q "[]"] by simp

lemma merge_fact_claims:
  assumes "fact_answers f"
  shows "contains_str (fact_text (merge_fact p f)) (fact_text f)"
  using assms contains_self [of "fact_text p @ [10]" "fact_text f" "[]"]
  by (auto simp: merge_fact_def Let_def)

lemma merge_fact_previous:
  assumes "fact_answers p \<or> Some (fact_text p) \<noteq> map_option ev_quote (fact_evidence p)"
  shows "contains_str (fact_text (merge_fact p f)) (fact_text p)"
  using assms contains_self [of "[]" "fact_text p" "[10] @ fact_text f"]
  by (auto simp: merge_fact_def Let_def)

text \<open>
  Adding a fact never loses a claim.  The fact is held afterwards under its id and is not
  retired; an answering fact stands as the answer, with its own claim still in the stored text, and
  the claim the notes held under that id before stays too, unless it was only the quote itself;
  the bases are joined, every other fact is as it was, and the result says whether the span is new.
\<close>

theorem add_keeps_claims:
  assumes "notes_add sha f n = (fresh, n')" and "k = fact_id sha f"
  shows "\<exists>g. im_get (facts n') k = Some g \<and> k \<notin> retired n'
     \<and> (fact_answers f \<longrightarrow> k \<in> set (answering n') \<and> contains_str (fact_text g) (fact_text f))
     \<and> (\<forall>p. im_get (facts n) k = Some p \<longrightarrow>
          set (fact_basis g) = set (fact_basis p) \<union> set (fact_basis f)
          \<and> (fact_answers p \<or> Some (fact_text p) \<noteq> map_option ev_quote (fact_evidence p)
               \<longrightarrow> contains_str (fact_text g) (fact_text p)))
     \<and> (fresh \<longleftrightarrow> k \<notin> set (im_keys (facts n)))
     \<and> (\<forall>other. other \<noteq> k \<longrightarrow> im_get (facts n') other = im_get (facts n) other)"
proof -
  have n': "n' = snd (notes_add sha f n)" "fresh = fst (notes_add sha f n)" using assms(1) by simp_all
  have get: "im_get (facts n') = (im_get (facts n))(k \<mapsto> stored_fact sha f n)"
    unfolding n' notes_add_facts assms(2) by (rule im_insert_get)
  have "set (fact_basis (merge_fact p f)) = set (fact_basis p) \<union> set (fact_basis f)" for p
    by (simp add: merge_fact_def Let_def)
  then show ?thesis
    using get merge_fact_claims merge_fact_previous
    unfolding n' notes_add_facts assms(2)
    by (auto simp: stored_fact_def map_of_eq_None_iff split: option.splits)
qed

theorem add_keeps_claims_witness:
  "\<exists>g. im_get (facts (snd (notes_add (take 4) (answering_fact (example_fact ''x'' [''b''])) notes_default)))
         (fact_id (take 4) (answering_fact (example_fact ''x'' [''b'']))) = Some g
       \<and> contains_str (fact_text g) (lit ''x'')"
  using add_keeps_claims [of "take 4" "answering_fact (example_fact ''x'' [''b''])" notes_default _ _ _, OF prod.collapse [symmetric] refl]
  by (auto simp: answering_fact_def example_fact_def)


definition example_quote :: "string \<Rightarrow> string \<Rightarrow> fact" where
  "example_quote capture q =
     fact_read (lit q) \<lparr>ev_source_id = lit ''s1'', ev_url = lit ''https://a.test/'', ev_frame_id = None,
       ev_captured_at = from_timestamp 0 0, ev_capture_sha256 = lit capture, ev_start = 0, ev_end = int (length q),
       ev_quote = lit q, ev_complete_source = True, ev_control_context = None, ev_rendered_text = True,
       ev_heading_path = [], ev_capture_artifact = None\<rparr> Reader_JevChoice"

definition example_notes :: run_notes where
  "example_notes = notes_new (take 4) [example_quote ''A'' ''10 USD'', example_quote ''B'' ''12 USD'']"


section \<open>Rendering: properties\<close>

definition cut_grounded :: "run_notes \<Rightarrow> nat \<Rightarrow> bool" where
  "cut_grounded n k \<longleftrightarrow>
     (\<forall>(_, f) \<in> set (take k (ordered_facts n)). set (fact_basis f) \<subseteq> set (map fst (take k (ordered_facts n))))"

lemma render_scan_Inr:
  assumes "render_scan n m p j ks = Some (Inr r)"
  shows "\<exists>k\<in>set ks. r = cut_notes n j k \<and> note_size j r \<le> nat m \<and> cut_grounded n k
     \<and> (p \<longrightarrow> required_ids n \<subseteq> set (map fst (take k (ordered_facts n))))"
  using assms
proof (induction n m p j ks rule: render_scan.induct)
  case (2 n m p j k ks)
  let ?kept = "set (map fst (take k (ordered_facts n)))"
  show ?case
  proof (cases "p \<and> \<not> required_ids n \<subseteq> ?kept")
    case False
    note req = False
    have grounded: "(\<exists>(_, f) \<in> set (take k (ordered_facts n)). \<not> set (fact_basis f) \<subseteq> ?kept) \<longleftrightarrow> \<not> cut_grounded n k"
      unfolding cut_grounded_def by (simp add: case_prod_beta)
    show ?thesis
    proof (cases "cut_grounded n k \<and> note_size j (cut_notes n j k) \<le> nat m")
      case True
      with 2(3) req grounded show ?thesis by (auto simp: Let_def)
    next
      case False
      with 2(3) req grounded have "render_scan n m p j ks = Some (Inr r)"
        by (simp add: Let_def split: if_splits)
      with 2(1) [OF refl req] 2(2) [OF refl req] False grounded show ?thesis by (metis list.set_intros(2))
    qed
  qed (use 2(3) in \<open>simp add: Let_def\<close>)
qed simp

lemma render_scan_end:
  assumes "note_size j (cut_notes n j 0) \<le> nat m"
  shows "\<exists>r. render_scan n m False j (ks @ [0]) = Some (Inr r)"
proof (induction ks)
  case Nil
  then show ?case using assms by (simp add: Let_def)
next
  case (Cons k ks)
  then show ?case by (auto simp: Let_def)
qed

lemma render_entries_Nil [simp]: "render_entries n j [] = []"
  by (simp add: render_entries_def)

lemma mset_ordered: "mset (ordered_facts n) = mset (facts n)"
  by (simp add: ordered_facts_def)

lemma length_ordered [simp]: "length (ordered_facts n) = length (facts n)"
  using arg_cong [OF mset_ordered, of size] by simp

lemma set_ordered [simp]: "set (ordered_facts n) = set (facts n)"
  by (simp add: ordered_facts_def)

lemma upto_rev_zero: "rev [0..<Suc k] = map Suc (rev [0..<k]) @ [0]"
  by (simp add: upt_conv_Cons map_Suc_upt rev_map [symmetric] del: upt_Suc)



end
