(* ===== verification/Origins.thy ===== *)
theory Origins
  imports PyText
begin

text \<open>
  \<^verbatim>\<open>crates/fastbrowse-core/src/origins.rs\<close>: the exact-origin grant.  The WHATWG parser is the
  \<^verbatim>\<open>url\<close> crate; it is the parameter \<open>url_crate\<close> of every definition that parses an address,
  and \<open>url_parts\<close> holds what its accessors return.
\<close>

datatype url_host = Host_Domain str | Host_Ipv4 str | Host_Ipv6 str

record url_parts =
  url_scheme :: str
  url_username :: str
  url_password :: "str option"
  url_host_of :: "url_host option"
  url_port :: "nat option"
  url_path :: str
  url_query :: "str option"
  url_fragment :: "str option"
  url_origin :: str
  url_text :: str

record url_crate =
  url_parse :: "str \<Rightarrow> url_parts option"
  url_join :: "url_parts \<Rightarrow> str \<Rightarrow> url_parts option"

definition url_domain :: "url_parts \<Rightarrow> str option" where
  "url_domain u = (case url_host_of u of Some (Host_Domain d) \<Rightarrow> Some d | _ \<Rightarrow> None)"

section \<open>Origins\<close>

datatype origin_error = NotBare | Empty

definition GRANT_ERROR :: str where
  "GRANT_ERROR = lit ''allowed_origins entries are bare http(s) origins such as https://example.com''"

definition EMPTY_ERROR :: str where
  "EMPTY_ERROR = lit ''allowed_origins is empty: pass None for an unscoped run''"

fun origin_error_str :: "origin_error \<Rightarrow> str" where
  "origin_error_str NotBare = GRANT_ERROR"
| "origin_error_str Empty = EMPTY_ERROR"

definition origin_of :: "url_crate \<Rightarrow> str \<Rightarrow> str option" where
  "origin_of U url =
     (case url_parse U url of
        None \<Rightarrow> None
      | Some parsed \<Rightarrow>
          if url_scheme parsed = lit ''http'' \<or> url_scheme parsed = lit ''https''
          then Some (url_origin parsed) else None)"

definition parse_origin :: "url_crate \<Rightarrow> str \<Rightarrow> origin_error + str" where
  "parse_origin U v =
     (let lower = ascii_lower v in
      if list_ex (\<lambda>c. c \<le> 32 \<or> c = 0x7f \<or> c \<in> set (lit [CHR 0x5C, CHR ''*'', CHR ''?'', CHR ''#'', CHR ''@''])) v
         \<or> \<not> (prefix (lit ''http://'') lower \<or> prefix (lit ''https://'') lower)
         \<or> sublist (lit '':///'') lower
      then Inl NotBare
      else and_then (ok_or NotBare (url_parse U v)) (\<lambda>parsed.
        if url_username parsed \<noteq> [] \<or> url_password parsed \<noteq> None \<or> url_path parsed \<noteq> lit ''/''
           \<or> url_query parsed \<noteq> None \<or> url_fragment parsed \<noteq> None
           \<or> (case url_domain parsed of None \<Rightarrow> False
              | Some d \<Rightarrow> prefix (lit ''.'') d \<or> sublist (lit ''..'') d)
        then Inl NotBare
        else ok_or NotBare (origin_of U v)))"

fun parse_origins_loop :: "url_crate \<Rightarrow> str list \<Rightarrow> str list \<Rightarrow> origin_error + str list" where
  "parse_origins_loop U [] origins = (if origins = [] then Inl Empty else Inr origins)"
| "parse_origins_loop U (v # vs) origins =
     and_then (parse_origin U v) (\<lambda>orig.
       parse_origins_loop U vs (if orig \<in> set origins then origins else origins @ [orig]))"

definition parse_origins :: "url_crate \<Rightarrow> str list \<Rightarrow> origin_error + str list" where
  "parse_origins U vs = parse_origins_loop U vs []"

record origin_grant =
  grant_origins :: "str set"

definition grant_new :: "str list \<Rightarrow> origin_grant" where
  "grant_new origins = \<lparr>grant_origins = set origins\<rparr>"

definition grant_allows :: "url_crate \<Rightarrow> origin_grant \<Rightarrow> str \<Rightarrow> bool" where
  "grant_allows U g url \<longleftrightarrow> (case origin_of U url of None \<Rightarrow> False | Some orig \<Rightarrow> orig \<in> grant_origins g)"

section \<open>Facts\<close>

lemma origin_of_scheme:
  "origin_of U url = Some orig \<Longrightarrow>
   \<exists>p. url_parse U url = Some p \<and> orig = url_origin p \<and> url_scheme p \<in> {lit ''http'', lit ''https''}"
  by (auto simp: origin_of_def split: option.splits if_splits)

lemma parse_origin_error: "parse_origin U v = Inl e \<Longrightarrow> e = NotBare"
  by (auto simp: parse_origin_def Let_def and_then_def ok_or_def split: if_splits option.splits)

lemma parse_origin_ok: "parse_origin U v = Inr orig \<Longrightarrow> origin_of U v = Some orig"
  by (auto simp: parse_origin_def Let_def and_then_Inr ok_or_def split: if_splits option.splits)

text \<open>What the loop computes: the first error, or the entries' origins, each once.\<close>

lemma parse_origins_loop_spec:
  assumes "distinct origins"
  shows "parse_origins_loop U vs origins =
    (if list_ex (\<lambda>v. isl (parse_origin U v)) vs then Inl NotBare
     else (let all = unique (origins @ map (\<lambda>v. projr (parse_origin U v)) vs)
           in if all = [] then Inl Empty else Inr all))"
  using assms
proof (induction vs arbitrary: origins)
  case Nil
  then show ?case by (simp add: unique_id Let_def)
next
  case (Cons v vs)
  show ?case
  proof (cases "parse_origin U v")
    case (Inl e)
    with parse_origin_error [OF Inl] show ?thesis by simp
  next
    case (Inr orig)
    have "distinct (if orig \<in> set origins then origins else origins @ [orig])" using Cons.prems by simp
    from Cons.IH [OF this] show ?thesis
      using Inr by (cases "orig \<in> set origins") (simp_all add: unique_append_repeat Let_def)
  qed
qed

section \<open>Properties\<close>

text \<open>
  A table of addresses as a concrete \<^verbatim>\<open>url\<close> crate, for the witnesses: each address with the
  parts the standard gives it.
\<close>

definition plain_url :: "string \<Rightarrow> string \<Rightarrow> string \<Rightarrow> url_parts" where
  "plain_url sch host path =
     \<lparr>url_scheme = lit sch, url_username = [], url_password = None, url_host_of = Some (Host_Domain (lit host)),
      url_port = None, url_path = lit path, url_query = None, url_fragment = None,
      url_origin = lit sch @ lit ''://'' @ lit host, url_text = lit sch @ lit ''://'' @ lit host @ lit path\<rparr>"

definition table_crate :: "(string \<times> url_parts) list \<Rightarrow> url_crate" where
  "table_crate t =
     \<lparr>url_parse = (\<lambda>s. map_of (map (\<lambda>(k, v). (lit k, v)) t) s),
      url_join = (\<lambda>b p. map_of (map (\<lambda>(k, v). (lit k, v)) t) (url_origin b @ p))\<rparr>"

definition example_crate :: url_crate where
  "example_crate = table_crate
     [(''https://a.example'', plain_url ''https'' ''a.example'' ''/''),
      (''https://A.example'', plain_url ''https'' ''a.example'' ''/''),
      (''https://a.example/login'', plain_url ''https'' ''a.example'' ''/login''),
      (''data:x'', plain_url ''data'' '''' ''x'')]"

text \<open>
  \<^verbatim>\<open>parse_origins\<close> on every input.  A list with an entry that is not a bare http(s) origin
  is refused as such, an empty list as empty, and otherwise the result is the entries'
  normalized origins in the order of their first occurrence, each once, never empty.
\<close>
theorem parse_origins_spec:
  "parse_origins U vs =
     (if list_ex (\<lambda>v. isl (parse_origin U v)) vs then Inl NotBare
      else if vs = [] then Inl Empty
      else Inr (unique (map (\<lambda>v. projr (parse_origin U v)) vs)))"
  by (cases vs) (simp_all add: parse_origins_def parse_origins_loop_spec Let_def del: parse_origins_loop.simps)

text \<open>
  C30: what a grant lets a run inspect and control.  With the origins parsed from a caller's
  entries, a document is allowed exactly when its address is http(s) and has the origin of
  one of the entries; an opaque address (about:, data:, blob:, file:) never is.
\<close>
theorem grant_is_exact:
  assumes "parse_origins U vs = Inr origins"
  shows "grant_allows U (grant_new origins) url \<longleftrightarrow>
    (\<exists>p v. url_parse U url = Some p \<and> url_scheme p \<in> {lit ''http'', lit ''https''} \<and>
       v \<in> set vs \<and> parse_origin U v = Inr (url_origin p))"
proof -
  from assms have ok: "\<not> list_ex (\<lambda>v. isl (parse_origin U v)) vs"
    and origins: "origins = unique (map (\<lambda>v. projr (parse_origin U v)) vs)"
    by (auto simp: parse_origins_def parse_origins_loop_spec Let_def split: if_splits)
  have "parse_origin U v = Inr (projr (parse_origin U v))" if "v \<in> set vs" for v
    using ok that by (cases "parse_origin U v") (auto simp: list_ex_iff)
  then have "orig \<in> set origins \<longleftrightarrow> (\<exists>v\<in>set vs. parse_origin U v = Inr orig)" for orig
    by (force simp: origins)
  then show ?thesis
    by (auto simp: grant_allows_def grant_new_def origin_of_def split: option.splits)
qed

theorem grant_is_exact_witness:
  "grant_allows example_crate (grant_new [lit ''https://a.example'']) (lit ''https://a.example/login'') \<and>
   \<not> grant_allows example_crate (grant_new [lit ''https://a.example'']) (lit ''data:x'')"
proof -
  have p: "parse_origins example_crate [lit ''https://A.example'', lit ''https://a.example''] =
      Inr [lit ''https://a.example'']"
    by code_simp
  have q: "parse_origin example_crate (lit ''https://a.example'') = Inr (lit ''https://a.example'')"
    by code_simp
  have "url_parse example_crate (lit ''https://a.example/login'') = Some (plain_url ''https'' ''a.example'' ''/login'')"
    "url_parse example_crate (lit ''data:x'') = Some (plain_url ''data'' '''' ''x'')"
    by code_simp+
  then show ?thesis
    unfolding grant_is_exact [OF p]
    using q by (auto simp: plain_url_def lit_append [symmetric])
qed

end
