(* ===== verification/Redaction.thy ===== *)
theory Redaction
  imports Safety "HOL-Library.Product_Lexorder"
begin

text \<open>
  The \<^verbatim>\<open>Redactor\<close> of \<^verbatim>\<open>crates/fastbrowse-core/src/safety.rs\<close>: finding resolved secrets in anything
  written out of the process, replacing them by name or blanking them at equal length.
  Ranges are positions in the text.
\<close>

section \<open>State\<close>

definition json_escaped :: "str \<Rightarrow> bool \<Rightarrow> str" where
  "json_escaped v ascii = (let out = write_string v ascii in take (length out - 2) (drop 1 out))"

record redactor =
  rd_values :: "(str, str) index_map"
  rd_typed_on :: "(str, str set) index_map"

definition redactor_new :: redactor where
  "redactor_new = \<lparr>rd_values = [], rd_typed_on = []\<rparr>"

definition secret_forms :: "str \<Rightarrow> str list" where
  "secret_forms v = [v, quote v, quote_plus v, json_escaped v True, json_escaped v False]"

definition typed_on :: "redactor \<Rightarrow> str \<Rightarrow> str set" where
  "typed_on r form = (case im_get (rd_typed_on r) form of None \<Rightarrow> {} | Some origins \<Rightarrow> origins)"

definition register_form :: "unicode_tables \<Rightarrow> url_crate \<Rightarrow> str \<Rightarrow> str option \<Rightarrow> redactor \<Rightarrow> str \<Rightarrow> redactor" where
  "register_form u U name orig r form =
     (if form = [] then r
      else (let r1 = (case orig of
                        None \<Rightarrow> r
                      | Some o' \<Rightarrow>
                          r\<lparr>rd_typed_on :=
                              im_insert form (insert (secret_origin_of u U o') (typed_on r form)) (rd_typed_on r)\<rparr>)
            in r1\<lparr>rd_values := im_insert form name (rd_values r1)\<rparr>))"

definition register :: "unicode_tables \<Rightarrow> url_crate \<Rightarrow> redactor \<Rightarrow> str \<Rightarrow> str \<Rightarrow> str option \<Rightarrow> redactor" where
  "register u U r name v orig = foldl (register_form u U name orig) r (secret_forms v)"

section \<open>Hosts in a text\<close>

definition ends_netloc :: "uchar \<Rightarrow> bool" where
  "ends_netloc c \<longleftrightarrow> is_space c \<or> c \<in> {47, 63, 35, 92, 60, 62, 34, 39, 96}"

definition scheme_char :: "uchar \<Rightarrow> bool" where
  "scheme_char c \<longleftrightarrow> is_alnum c \<or> c \<in> {43, 46, 45}"

definition netloc_end :: "uchar \<Rightarrow> bool" where
  "netloc_end c \<longleftrightarrow> c \<in> set (lit ''.,;:!?)}'') \<or> c = 39 \<or> c = 34"

text \<open>\<open>k\<close> is the position of \<open>rest\<close> in the text.\<close>

function hosts_from :: "unicode_tables \<Rightarrow> url_crate \<Rightarrow> nat \<Rightarrow> str \<Rightarrow> (nat \<times> nat \<times> str) list" where
  "hosts_from u U k [] = []"
| "hosts_from u U k (c # rest) =
     (if \<not> is_alpha c then hosts_from u U (k + 1) rest
      else (let scheme = c # takeWhile scheme_char rest;
                after = dropWhile scheme_char rest;
                end_at = k + length scheme
            in if \<not> prefix (lit ''://'') after then hosts_from u U end_at after
               else (let body = drop 3 after;
                         len = (case find_pos ends_netloc body of Some n \<Rightarrow> n | None \<Rightarrow> length body);
                         netloc = trim_end netloc_end (take len body);
                         netloc_start = end_at + 3;
                         host_end = netloc_start + length netloc;
                         host = (case rsplit_once 64 netloc of None \<Rightarrow> netloc | Some (_, h) \<Rightarrow> h);
                         here = (case origin_parse u U (scheme @ lit ''://'' @ netloc) of
                                   None \<Rightarrow> []
                                 | Some orig \<Rightarrow> [(host_end - length host, host_end, origin_serialize orig)])
                     in here @ hosts_from u U (netloc_start + len) (drop len body))))"
  by pat_completeness auto

termination hosts_from
proof (relation "measure (\<lambda>(_, _, _, rest). length rest)", goal_cases)
  case (3 u U k c rest)
  then show ?case by (simp add: less_Suc_eq_le length_dropWhile_le)
next
  case (4 u U k c rest)
  then show ?case
    using length_dropWhile_le [of scheme_char rest] by (auto simp: Let_def)
qed simp_all

definition hosts :: "unicode_tables \<Rightarrow> url_crate \<Rightarrow> str \<Rightarrow> (nat \<times> nat \<times> str) list" where
  "hosts u U t = hosts_from u U 0 t"

section \<open>Spans\<close>

definition marker_text :: "str \<Rightarrow> str" where
  "marker_text name = lit ''[secret:'' @ name @ lit '']''"

text \<open>\<^verbatim>\<open>str::match_indices\<close>: matches that do not overlap, left to right.\<close>

function match_indices :: "str \<Rightarrow> str \<Rightarrow> nat \<Rightarrow> nat list" where
  "match_indices p t from =
     (if p = [] \<or> length t < from then []
      else (case find_str p (drop from t) of
              None \<Rightarrow> []
            | Some off \<Rightarrow> (from + off) # match_indices p t (from + off + length p)))"
  by pat_completeness auto

termination match_indices
  by (relation "measure (\<lambda>(_, t, from). Suc (length t) - from)") (auto, (case_tac p; auto)+)

declare match_indices.simps [simp del]

definition markers :: "redactor \<Rightarrow> str \<Rightarrow> (nat \<times> nat) list" where
  "markers r t =
     concat (map (\<lambda>name. map (\<lambda>i. (i, i + length (marker_text name))) (match_indices (marker_text name) t 0))
               (unique (map snd (rd_values r))))"

text \<open>The \<^verbatim>\<open>while let\<close> loop over one value: one character on after each, so overlaps are found.\<close>

function occurrences :: "str \<Rightarrow> str \<Rightarrow> nat \<Rightarrow> nat list" where
  "occurrences v t from =
     (if length t < from then []
      else (case find_str v (drop from t) of
              None \<Rightarrow> []
            | Some off \<Rightarrow> (from + off) # occurrences v t (from + off + 1)))"
  by pat_completeness auto

termination occurrences
  by (relation "measure (\<lambda>(_, t, from). Suc (length t) - from)") auto

declare occurrences.simps [simp del]

definition published :: "unicode_tables \<Rightarrow> url_crate \<Rightarrow> redactor \<Rightarrow> str \<Rightarrow> str \<Rightarrow> nat \<Rightarrow> bool" where
  "published u U r t v i \<longleftrightarrow>
     list_ex (\<lambda>(lo, hi, orig). lo \<le> i \<and> i + length v \<le> hi \<and> orig \<in> typed_on r v)
       (if rd_typed_on r = [] then [] else hosts u U t)"

definition in_marker :: "redactor \<Rightarrow> str \<Rightarrow> str \<Rightarrow> nat \<Rightarrow> bool" where
  "in_marker r t v i \<longleftrightarrow> list_ex (\<lambda>(lo, hi). lo \<le> i \<and> i + length v \<le> hi) (markers r t)"

definition found_spans :: "unicode_tables \<Rightarrow> url_crate \<Rightarrow> redactor \<Rightarrow> str \<Rightarrow> (nat \<times> nat \<times> str) list" where
  "found_spans u U r t =
     concat (map (\<lambda>(v, name).
               map (\<lambda>i. (i, i + length v, name))
                 (filter (\<lambda>i. \<not> published u U r t v i \<and> \<not> in_marker r t v i) (occurrences v t 0)))
             (rd_values r))"

text \<open>The key \<^verbatim>\<open>(start, Reverse(end))\<close>.\<close>

definition span_key :: "nat \<times> nat \<times> str \<Rightarrow> int \<times> int" where
  "span_key s = (int (fst s), - int (fst (snd s)))"

text \<open>The merge keeps its last range first here; the code pushes to the end of a vector.\<close>

fun merge_span :: "(nat \<times> nat \<times> str) list \<Rightarrow> nat \<times> nat \<times> str \<Rightarrow> (nat \<times> nat \<times> str) list" where
  "merge_span [] s = [s]"
| "merge_span ((lo, hi, n) # merged) (start, end_at, name) =
     (if start < hi then (lo, max hi end_at, n) # merged
      else (start, end_at, name) # (lo, hi, n) # merged)"

definition spans :: "unicode_tables \<Rightarrow> url_crate \<Rightarrow> redactor \<Rightarrow> str \<Rightarrow> (nat \<times> nat \<times> str) list" where
  "spans u U r t = rev (foldl merge_span [] (sort_key span_key (found_spans u U r t)))"

section \<open>Rewriting\<close>

text \<open>The loop \<^verbatim>\<open>redact\<close> and \<^verbatim>\<open>mask\<close> share: the text between the spans, each span replaced.\<close>

fun rewrite_spans :: "(nat \<times> nat \<times> 'n \<Rightarrow> str) \<Rightarrow> str \<Rightarrow> nat \<Rightarrow> (nat \<times> nat \<times> 'n) list \<Rightarrow> str" where
  "rewrite_spans repl t k [] = drop k t"
| "rewrite_spans repl t k ((start, end_at, n) # rest) =
     take (start - k) (drop k t) @ repl (start, end_at, n) @ rewrite_spans repl t end_at rest"

definition redact :: "unicode_tables \<Rightarrow> url_crate \<Rightarrow> redactor \<Rightarrow> str \<Rightarrow> str" where
  "redact u U r t = rewrite_spans (\<lambda>(_, _, name). marker_text name) t 0 (spans u U r t)"

definition BULLET :: uchar where
  "BULLET = 0x2022"

definition mask_text :: "unicode_tables \<Rightarrow> url_crate \<Rightarrow> redactor \<Rightarrow> str \<Rightarrow> str" where
  "mask_text u U r t = rewrite_spans (\<lambda>(start, end_at, _). replicate (end_at - start) BULLET) t 0 (spans u U r t)"

definition reveals :: "unicode_tables \<Rightarrow> url_crate \<Rightarrow> redactor \<Rightarrow> str \<Rightarrow> bool" where
  "reveals u U r t \<longleftrightarrow> spans u U r t \<noteq> []"

function redact_value :: "unicode_tables \<Rightarrow> url_crate \<Rightarrow> redactor \<Rightarrow> json \<Rightarrow> json" where
  "redact_value u U r (JString s) = JString (redact u U r s)"
| "redact_value u U r (JArray vs) = JArray (map (redact_value u U r) vs)"
| "redact_value u U r (JObject m) = JObject (map (\<lambda>kv. (fst kv, redact_value u U r (snd kv))) m)"
| "redact_value u U r JNull = JNull"
| "redact_value u U r (JBool b) = JBool b"
| "redact_value u U r (JInt i) = JInt i"
| "redact_value u U r (JFloat f) = JFloat f"
  by pat_completeness auto

termination redact_value
proof (relation "measure (\<lambda>(_, _, _, v). size v)", goal_cases)
  case (2 u U r vs v)
  then show ?case by (auto simp: less_Suc_eq_le size_list_estimation')
next
  case (3 u U r m kv)
  then show ?case using size_json_entry [of "fst kv" "snd kv" m] by simp
qed simp

section \<open>Spans are ordered ranges of the text\<close>

text \<open>
  What a rewriting relies on: ranges from \<open>k\<close> on, in order, apart from each other, each with
  at least one character and none past the end.
\<close>

fun spans_ok :: "nat \<Rightarrow> nat \<Rightarrow> (nat \<times> nat \<times> 'n) list \<Rightarrow> bool" where
  "spans_ok len k [] \<longleftrightarrow> k \<le> len"
| "spans_ok len k ((start, end_at, _) # rest) \<longleftrightarrow> k \<le> start \<and> start < end_at \<and> spans_ok len end_at rest"

definition covered :: "(nat \<times> nat \<times> 'n) list \<Rightarrow> nat \<Rightarrow> bool" where
  "covered ss i \<longleftrightarrow> (\<exists>(start, end_at, _)\<in>set ss. start \<le> i \<and> i < end_at)"

lemma covered_simps [simp]:
  "\<not> covered [] i"
  "covered ((start, end_at, n) # ss) i \<longleftrightarrow> start \<le> i \<and> i < end_at \<or> covered ss i"
  by (auto simp: covered_def)

lemma spans_ok_le: "spans_ok len k ss \<Longrightarrow> k \<le> len"
  by (induction len k ss rule: spans_ok.induct) auto

lemma covered_range: "spans_ok len k ss \<Longrightarrow> covered ss i \<Longrightarrow> k \<le> i \<and> i < len"
  by (induction len k ss rule: spans_ok.induct) (auto dest: spans_ok_le)

lemma spans_ok_snoc:
  "spans_ok len k (ss @ [(lo, hi, n)]) \<longleftrightarrow> spans_ok lo k ss \<and> lo < hi \<and> hi \<le> len"
  by (induction lo k ss rule: spans_ok.induct) (auto dest: spans_ok_le)

lemma spans_ok_snoc2:
  "spans_ok len k (ss @ [(lo, hi, n), (start, end_at, m)]) \<longleftrightarrow>
   spans_ok lo k ss \<and> lo < hi \<and> hi \<le> start \<and> start < end_at \<and> end_at \<le> len"
  using spans_ok_snoc [of len k "ss @ [(lo, hi, n)]" start end_at m] by (auto simp: spans_ok_snoc)

lemma rewrite_blank:
  "spans_ok (length t) k ss \<Longrightarrow>
   length (rewrite_spans (\<lambda>(start, end_at, _). replicate (end_at - start) b) t k ss) = length t - k \<and>
   (\<forall>i < length t - k. rewrite_spans (\<lambda>(start, end_at, _). replicate (end_at - start) b) t k ss ! i =
      (if covered ss (k + i) then b else t ! (k + i)))"
proof (induction ss arbitrary: k)
  case Nil
  then show ?case by simp
next
  case (Cons s ss)
  obtain start end_at n where s: "s = (start, end_at, n)" by (cases s) auto
  from Cons.prems have ok: "k \<le> start" "start < end_at" "spans_ok (length t) end_at ss" by (auto simp: s)
  have len: "end_at \<le> length t" using spans_ok_le [OF ok(3)] .
  let ?R = "rewrite_spans (\<lambda>(start, end_at, _). replicate (end_at - start) b) t end_at ss"
  have IH: "length ?R = length t - end_at"
    "\<And>i. i < length t - end_at \<Longrightarrow> ?R ! i = (if covered ss (end_at + i) then b else t ! (end_at + i))"
    using Cons.IH [OF ok(3)] by auto
  have before: "\<not> covered ss i" if "i < end_at" for i
    using covered_range [OF ok(3), of i] that by auto
  have "(take (start - k) (drop k t) @ replicate (end_at - start) b @ ?R) ! i =
      (if covered (s # ss) (k + i) then b else t ! (k + i))" if "i < length t - k" for i
  proof -
    consider "i < start - k" | "start - k \<le> i" "i < end_at - k" | "end_at - k \<le> i" by linarith
    then show ?thesis
    proof cases
      case 3
      then have "i - (start - k) - (end_at - start) = i - (end_at - k)" "end_at + (i - (end_at - k)) = k + i"
        using ok by auto
      then show ?thesis using 3 ok len that IH(2) [of "i - (end_at - k)"] by (auto simp: s nth_append add.commute)
    qed (use ok len that before in \<open>auto simp: s nth_append\<close>)
  qed
  then show ?case using ok len IH(1) by (auto simp: s)
qed

text \<open>What any source of ordered spans gives the rewriting that blanks them.\<close>

locale span_source =
  fixes find_spans :: "'r \<Rightarrow> str \<Rightarrow> (nat \<times> nat \<times> 'n) list"
    and wf :: "'r \<Rightarrow> bool"
  assumes ordered: "wf r \<Longrightarrow> spans_ok (length t) 0 (find_spans r t)"
begin

lemma blank_length:
  "wf r \<Longrightarrow> length (rewrite_spans (\<lambda>(start, end_at, _). replicate (end_at - start) b) t 0 (find_spans r t)) = length t"
  using rewrite_blank [OF ordered] by simp

lemma blank_nth:
  "wf r \<Longrightarrow> i < length t \<Longrightarrow>
   rewrite_spans (\<lambda>(start, end_at, _). replicate (end_at - start) b) t 0 (find_spans r t) ! i =
     (if covered (find_spans r t) i then b else t ! i)"
  using rewrite_blank [OF ordered] by simp

end

section \<open>The redactor's spans\<close>

definition redactor_wf :: "redactor \<Rightarrow> bool" where
  "redactor_wf r \<longleftrightarrow> (\<forall>v\<in>set (im_keys (rd_values r)). v \<noteq> [])"

lemma occurrences_iff: "i \<in> set (occurrences v t k) \<longleftrightarrow> k \<le> i \<and> i \<le> length t \<and> prefix v (drop i t)"
proof (induction v t k rule: occurrences.induct)
  case (1 v t k)
  show ?case
  proof (cases "length t < k")
    case True
    then show ?thesis by (simp add: occurrences.simps)
  next
    case False
    show ?thesis
    proof (cases "find_str v (drop k t)")
      case None
      have "\<not> prefix v (drop i t)" if "k \<le> i" "i \<le> length t" for i
        using that None [unfolded find_str_None] by (auto dest!: spec [of _ "i - k"])
      then show ?thesis using None False by (auto simp: occurrences.simps [of v t k])
    next
      case (Some off)
      note f = find_str_Some [OF Some]
      have below: "\<not> prefix v (drop i t)" if "k \<le> i" "i < k + off" for i
        using f that by (auto dest!: spec [of _ "i - k"])
      have here: "prefix v (drop (k + off) t)" "k + off \<le> length t" using f False by (auto simp: add.commute)
      have "set (occurrences v t k) = insert (k + off) (set (occurrences v t (k + off + 1)))"
        using Some False by (simp add: occurrences.simps [of v t k])
      moreover have "i \<in> set (occurrences v t (k + off + 1)) \<longleftrightarrow>
          k + off + 1 \<le> i \<and> i \<le> length t \<and> prefix v (drop i t)"
        using "1.IH" [OF False Some] .
      ultimately show ?thesis using below here by (auto simp: Suc_le_eq)
    qed
  qed
qed

definition exempt :: "unicode_tables \<Rightarrow> url_crate \<Rightarrow> redactor \<Rightarrow> str \<Rightarrow> str \<Rightarrow> nat \<Rightarrow> bool" where
  "exempt u U r t v i \<longleftrightarrow> published u U r t v i \<or> in_marker r t v i"

lemma found_spans_iff:
  "(lo, hi, name) \<in> set (found_spans u U r t) \<longleftrightarrow>
   (\<exists>v. (v, name) \<in> set (rd_values r) \<and> lo \<le> length t \<and> prefix v (drop lo t) \<and> hi = lo + length v \<and>
      \<not> exempt u U r t v lo)"
proof -
  have "(lo, hi, name) \<in> set (found_spans u U r t) \<longleftrightarrow>
      (\<exists>v. (v, name) \<in> set (rd_values r) \<and> lo \<in> set (occurrences v t 0) \<and> hi = lo + length v \<and>
        \<not> published u U r t v lo \<and> \<not> in_marker r t v lo)"
    unfolding found_spans_def by (auto simp: image_iff)
  then show ?thesis by (auto simp: occurrences_iff exempt_def)
qed

lemma merge_fold:
  assumes "spans_ok len 0 (rev acc)" "sorted (map fst ss)"
    and "\<forall>s\<in>set ss. fst s < fst (snd s) \<and> fst (snd s) \<le> len"
    and "acc \<noteq> [] \<Longrightarrow> \<forall>s\<in>set ss. fst (hd acc) \<le> fst s"
  shows "spans_ok len 0 (rev (foldl merge_span acc ss)) \<and>
    (\<forall>i. covered (foldl merge_span acc ss) i \<longleftrightarrow> covered acc i \<or> covered ss i)"
  using assms
proof (induction ss arbitrary: acc)
  case Nil
  then show ?case by simp
next
  case (Cons s ss)
  obtain start end_at name where s: "s = (start, end_at, name)" by (cases s) auto
  have "spans_ok len 0 (rev (merge_span acc s)) \<and> fst (hd (merge_span acc s)) \<le> start \<and>
      (\<forall>i. covered (merge_span acc s) i \<longleftrightarrow> covered acc i \<or> start \<le> i \<and> i < end_at)"
  proof (cases acc)
    case Nil
    with Cons.prems show ?thesis by (auto simp: s)
  next
    case (Cons a m)
    obtain lo hi n where a: "a = (lo, hi, n)" by (cases a) auto
    with Cons.prems Cons show ?thesis by (auto simp: s spans_ok_snoc spans_ok_snoc2)
  qed
  moreover have "\<forall>x\<in>set ss. start \<le> fst x" using Cons.prems(2) by (auto simp: s)
  ultimately show ?case
    using Cons.IH [of "merge_span acc s"] Cons.prems(2,3) by (fastforce simp: s)
qed

lemma sorted_span_starts: "sorted (map fst (sort_key span_key ss))"
proof -
  have "sorted (map span_key (sort_key span_key ss))" by simp
  then show ?thesis
    unfolding sorted_map by (rule sorted_wrt_mono_rel [rotated]) (auto simp: span_key_def less_eq_prod_def)
qed

lemma spans_facts:
  assumes "redactor_wf r"
  shows "spans_ok (length t) 0 (spans u U r t)"
    and "covered (spans u U r t) i \<longleftrightarrow> covered (found_spans u U r t) i"
proof -
  let ?ss = "sort_key span_key (found_spans u U r t)"
  have range: "fst s < fst (snd s) \<and> fst (snd s) \<le> length t" if "s \<in> set ?ss" for s
  proof -
    obtain lo hi name where s: "s = (lo, hi, name)" by (cases s) auto
    with that obtain v where v: "(v, name) \<in> set (rd_values r)" "lo \<le> length t" "prefix v (drop lo t)" "hi = lo + length v"
      by (auto simp: found_spans_iff)
    then have "v \<noteq> []" using assms by (force simp: redactor_wf_def)
    with v prefix_length_le [OF v(3)] show ?thesis by (auto simp: s)
  qed
  have m: "spans_ok (length t) 0 (rev (foldl merge_span [] ?ss)) \<and>
      (\<forall>i. covered (foldl merge_span [] ?ss) i \<longleftrightarrow> covered ?ss i)"
    using merge_fold [of "length t" "[]" ?ss] range sorted_span_starts [of "found_spans u U r t"] by auto
  then show "spans_ok (length t) 0 (spans u U r t)" by (simp add: spans_def)
  show "covered (spans u U r t) i \<longleftrightarrow> covered (found_spans u U r t) i"
    using m by (simp add: spans_def covered_def)
qed

interpretation redactor_spans: span_source "spans u U" redactor_wf for u U
  by unfold_locales (rule spans_facts(1))

section \<open>Registering\<close>

lemma register_form_values:
  "rd_values (register_form u U name orig r form) =
   (if form = [] then rd_values r else im_insert form name (rd_values r))"
  by (simp add: register_form_def Let_def split: option.splits)

lemma register_values:
  "im_get (rd_values (foldl (register_form u U name orig) r fs)) =
   (\<lambda>v. if v \<in> set fs \<and> v \<noteq> [] then Some name else im_get (rd_values r) v)"
  by (induction fs arbitrary: r) (auto simp: register_form_values im_insert_get fun_eq_iff)

lemma register_keys:
  "set (im_keys (rd_values (foldl (register_form u U name orig) r fs))) =
   set (im_keys (rd_values r)) \<union> {v \<in> set fs. v \<noteq> []}"
  by (induction fs arbitrary: r) (auto simp: register_form_values im_insert_keys)

lemma register_wf [wf_intros]: "redactor_wf r \<Longrightarrow> redactor_wf (register u U r name v orig)"
  by (auto simp: redactor_wf_def register_def register_keys simp del: set_map)

lemma redactor_new_wf [wf_intros]: "redactor_wf redactor_new"
  by (simp add: redactor_wf_def redactor_new_def)

section \<open>Properties\<close>

lemma spans_characterised:
  assumes "redactor_wf r"
  shows "spans_ok (length t) 0 (spans u U r t) \<and>
    (covered (spans u U r t) i \<longleftrightarrow>
      (\<exists>v\<in>set (im_keys (rd_values r)). \<exists>k. prefix v (drop k t) \<and> k \<le> i \<and> i < k + length v \<and>
         k + length v \<le> length t \<and> \<not> exempt u U r t v k))"
proof -
  have "covered (found_spans u U r t) i \<longleftrightarrow>
      (\<exists>lo hi name. (lo, hi, name) \<in> set (found_spans u U r t) \<and> lo \<le> i \<and> i < hi)"
    by (auto simp: covered_def)
  also have "\<dots> \<longleftrightarrow> (\<exists>v\<in>set (im_keys (rd_values r)). \<exists>k. prefix v (drop k t) \<and> k \<le> i \<and> i < k + length v \<and>
      k + length v \<le> length t \<and> \<not> exempt u U r t v k)"
  proof
    assume "\<exists>lo hi name. (lo, hi, name) \<in> set (found_spans u U r t) \<and> lo \<le> i \<and> i < hi"
    then obtain k name v where v: "(v, name) \<in> set (rd_values r)" "k \<le> length t" "prefix v (drop k t)"
      "\<not> exempt u U r t v k" "k \<le> i" "i < k + length v"
      unfolding found_spans_iff by blast
    moreover have "k + length v \<le> length t" using prefix_length_le [OF v(3)] v(2) by simp
    moreover have "v \<in> set (im_keys (rd_values r))" using v(1) by force
    ultimately show "\<exists>v\<in>set (im_keys (rd_values r)). \<exists>k. prefix v (drop k t) \<and> k \<le> i \<and> i < k + length v \<and>
      k + length v \<le> length t \<and> \<not> exempt u U r t v k" by blast
  next
    assume "\<exists>v\<in>set (im_keys (rd_values r)). \<exists>k. prefix v (drop k t) \<and> k \<le> i \<and> i < k + length v \<and>
      k + length v \<le> length t \<and> \<not> exempt u U r t v k"
    then obtain v k name where "(v, name) \<in> set (rd_values r)" "prefix v (drop k t)" "k \<le> i" "i < k + length v"
      "k + length v \<le> length t" "\<not> exempt u U r t v k" by auto
    then show "\<exists>lo hi name. (lo, hi, name) \<in> set (found_spans u U r t) \<and> lo \<le> i \<and> i < hi"
      unfolding found_spans_iff by (intro exI [of _ k] exI [of _ "k + length v"] exI [of _ name]) auto
  qed
  finally show ?thesis using spans_facts [OF assms] by simp
qed

text \<open>
  C25: the spans of any text are in order, do not overlap, have at least one character each
  and stay within the text; and a position is in one of them exactly when it lies in an
  occurrence of a registered form that is neither inside a published host nor inside a
  marker: none is missed, and nothing else is blanked.
\<close>
theorem spans_exact:
  assumes "redactor_wf r"
  shows "spans_ok (length t) 0 (spans u U r t) \<and>
    (covered (spans u U r t) i \<longleftrightarrow>
      (\<exists>v\<in>set (im_keys (rd_values r)). \<exists>k. prefix v (drop k t) \<and> k \<le> i \<and> i < k + length v \<and>
         k + length v \<le> length t \<and> \<not> exempt u U r t v k))"
  using assms by (rule spans_characterised)

definition example_redactor :: redactor where
  "example_redactor = register ascii_tables example_crate redactor_new (lit ''n'') (lit ''tok'') None"

lemma example_redactor_wf: "redactor_wf example_redactor"
  unfolding example_redactor_def by (intro wf_intros)

theorem spans_exact_witness:
  "covered (spans ascii_tables example_crate example_redactor (lit ''a token'')) 3 \<and>
   (\<exists>v k. prefix v (drop k (lit ''a token'')) \<and> k \<le> 3 \<and> 3 < k + length v)"
proof -
  have c: "covered (spans ascii_tables example_crate example_redactor (lit ''a token'')) 3" by code_simp
  with spans_exact [OF example_redactor_wf, of "lit ''a token''" ascii_tables example_crate 3] show ?thesis
    by blast
qed

lemma mask_length: "redactor_wf r \<Longrightarrow> length (mask_text u U r t) = length t"
  by (simp add: mask_text_def redactor_spans.blank_length)

lemma mask_nth:
  "redactor_wf r \<Longrightarrow> i < length t \<Longrightarrow> mask_text u U r t ! i = (if covered (spans u U r t) i then BULLET else t ! i)"
  by (simp add: mask_text_def redactor_spans.blank_nth)

lemma mask_occurrence:
  assumes wf: "redactor_wf r" and v: "v \<in> set (im_keys (rd_values r))" "BULLET \<notin> set v"
    and occ: "prefix v (drop k (mask_text u U r t))"
  shows "prefix v (drop k t) \<and> exempt u U r t v k"
proof -
  let ?m = "mask_text u U r t"
  have ne: "v \<noteq> []" using v(1) wf by (auto simp: redactor_wf_def)
  then have "0 < length v" by simp
  then have len: "k + length v \<le> length t"
    using prefix_length_le [OF occ, unfolded length_drop mask_length [OF wf]] by linarith
  obtain z where z: "drop k ?m = v @ z" using occ by (auto simp: prefix_def)
  have at: "?m ! (k + j) = v ! j" if "j < length v" for j
  proof -
    have "?m ! (k + j) = drop k ?m ! j" using len that mask_length [OF wf, of u U t] by simp
    then show ?thesis using that by (simp add: z nth_append)
  qed
  have "?m ! (k + j) \<noteq> BULLET" if "j < length v" for j using at [OF that] that v(2) nth_mem by metis
  with len mask_nth [OF wf] have open_at: "\<not> covered (spans u U r t) (k + j)" and same: "t ! (k + j) = v ! j"
    if "j < length v" for j
    using that at by (metis add_less_cancel_left less_le_trans)+
  have "take (length v) (drop k t) = v"
    using len same by (intro nth_equalityI) auto
  then have pre: "prefix v (drop k t)" by (metis take_is_prefix)
  have "\<not> covered (spans u U r t) k" using open_at [of 0] ne by simp
  with pre len v(1) ne spans_characterised [OF wf, of t u U k] show ?thesis by auto
qed

text \<open>
  C26: masking hides every secret.  It keeps the length of the text, so offsets into it stay
  valid, changes no position outside a span, and in the masked text a registered form (one
  that holds no bullet itself) occurs only where the original already had it inside the host
  of an address it was typed on or inside a marker.
\<close>
theorem mask_hides_secrets:
  assumes "redactor_wf r"
  shows "length (mask_text u U r t) = length t \<and>
    (\<forall>i < length t. mask_text u U r t ! i = (if covered (spans u U r t) i then BULLET else t ! i)) \<and>
    (\<forall>v k. v \<in> set (im_keys (rd_values r)) \<and> BULLET \<notin> set v \<and> prefix v (drop k (mask_text u U r t)) \<longrightarrow>
       prefix v (drop k t) \<and> exempt u U r t v k)"
  using mask_length [OF assms] mask_nth [OF assms] mask_occurrence [OF assms] by blast

theorem mask_hides_secrets_witness:
  "length (mask_text ascii_tables example_crate example_redactor (lit ''a token'')) = 7 \<and>
   \<not> prefix (lit ''tok'') (drop 2 (mask_text ascii_tables example_crate example_redactor (lit ''a token'')))"
proof -
  have "\<not> exempt ascii_tables example_crate example_redactor (lit ''a token'') (lit ''tok'') 2"
    "lit ''tok'' \<in> set (im_keys (rd_values example_redactor))" "BULLET \<notin> set (lit ''tok'')"
    by code_simp+
  with mask_hides_secrets [OF example_redactor_wf, of ascii_tables example_crate "lit ''a token''"]
  show ?thesis by auto
qed

text \<open>
  registering a secret registers every form a page or a log carries it in: the value
  itself, percent-encoded with and without plus signs, and escaped inside JSON with and
  without \<^verbatim>\<open>ensure_ascii\<close>.  Each non-empty form is then found under the secret's name, earlier
  registrations of other forms are kept, and no empty form is ever registered.
\<close>
theorem register_covers_forms:
  assumes "redactor_wf r"
  shows "im_get (rd_values (register u U r name v orig)) form =
      (if form \<in> {v, quote v, quote_plus v, json_escaped v True, json_escaped v False} \<and> form \<noteq> []
       then Some name else im_get (rd_values r) form) \<and>
    redactor_wf (register u U r name v orig)"
proof
  show "im_get (rd_values (register u U r name v orig)) form =
      (if form \<in> {v, quote v, quote_plus v, json_escaped v True, json_escaped v False} \<and> form \<noteq> []
       then Some name else im_get (rd_values r) form)"
    unfolding register_def register_values by (auto simp: secret_forms_def)
qed (rule register_wf [OF assms])

theorem register_covers_forms_witness:
  "im_get (rd_values (register ascii_tables example_crate redactor_new (lit ''n'') (lit ''a b'') None)) (lit ''a+b'') =
     Some (lit ''n'')"
proof -
  have "quote_plus (lit ''a b'') = lit ''a+b''" by code_simp
  with register_covers_forms [OF redactor_new_wf, of ascii_tables example_crate "lit ''n''" "lit ''a b''" None "lit ''a+b''"]
  show ?thesis by simp
qed

text \<open>
  two corner cases of the redactor.  Redacting a text twice can change it: a value that
  straddles the end of a marker is found again in the redacted text.  And merged spans are
  named for the value that starts first, not for the longest value in them.
\<close>
theorem redactor_corner_cases:
  "(let r = register ascii_tables example_crate
              (register ascii_tables example_crate redactor_new (lit ''n'') (lit ''SECRET'') None)
              (lit ''m'') (lit '']b'') None
    in redact ascii_tables example_crate r (redact ascii_tables example_crate r (lit ''SECRETb'')) \<noteq>
       redact ascii_tables example_crate r (lit ''SECRETb'')) \<and>
   (let r = register ascii_tables example_crate
              (register ascii_tables example_crate redactor_new (lit ''short'') (lit ''ab'') None)
              (lit ''long'') (lit ''bcdef'') None
    in spans ascii_tables example_crate r (lit ''abcdef'') = [(0, 6, lit ''short'')])"
  by code_simp

end
