(* ===== verification/Navigation.thy ===== *)
theory Navigation
  imports Origins
begin

text \<open>
  \<^verbatim>\<open>crates/fastbrowse-core/src/navigation.rs\<close>: the addresses a task names.  A run only ever
  navigates to these, so what matters is where each of them comes from.
\<close>

definition SENTENCE_END :: "uchar list" where
  "SENTENCE_END = lit ''.,;:'' @ [0x27, 0x2019, 0x201D, 0x2026]"

definition QUESTION_END :: "uchar list" where
  "QUESTION_END = SENTENCE_END @ lit ''!?''"

definition ends_address :: "uchar \<Rightarrow> bool" where
  "ends_address c \<longleftrightarrow> is_space c \<or> c \<in> {60, 62, 34, 96}"

section \<open>Trimming\<close>

text \<open>The \<^verbatim>\<open>for marker\<close> loop: the first marker that wraps the address is taken off.\<close>

fun strip_marker :: "str \<Rightarrow> str list \<Rightarrow> str \<Rightarrow> str" where
  "strip_marker before [] url = url"
| "strip_marker before (m # ms) url =
     (if suffix m before \<and> suffix m url then take (length url - length m) url
      else strip_marker before ms url)"

text \<open>The \<^verbatim>\<open>while\<close> loop: a closing bracket that nothing in the address opens is taken off.\<close>

function strip_closers :: "uchar \<Rightarrow> uchar \<Rightarrow> str \<Rightarrow> str" where
  "strip_closers left right url =
     (if url \<noteq> [] \<and> last url = right \<and> count_char right url > count_char left url
      then strip_closers left right (butlast url) else url)"
  by pat_completeness auto

termination strip_closers
  by (relation "measure (\<lambda>(_, _, url). length url)") auto

declare strip_closers.simps [simp del]

definition trimmed :: "str \<Rightarrow> nat \<Rightarrow> str \<Rightarrow> uchar list \<Rightarrow> str" where
  "trimmed task start found sentence_end =
     (let url = trim_end (\<lambda>c. c \<in> set sentence_end) found;
          url = strip_marker (take start task) [lit ''**'', lit ''__'', lit ''*'', lit ''_''] url
      in foldl (\<lambda>u (l, r). strip_closers l r u) url [(40, 41), (91, 93), (123, 125)])"

section \<open>Finding addresses\<close>

definition scheme_length :: "unicode_tables \<Rightarrow> str \<Rightarrow> nat option" where
  "scheme_length u s =
     (case starts_with_ignore_case u s (lit ''http'') of
        None \<Rightarrow> None
      | Some k \<Rightarrow>
          let k = (if prefix (lit ''s'') (drop k s) \<or> prefix (lit ''S'') (drop k s) then k + 1 else k)
          in if prefix (lit ''://'') (drop k s) then Some (k + 3) else None)"

fun space_after_separators :: "unicode_tables \<Rightarrow> str \<Rightarrow> str" where
  "space_after_separators u [] = []"
| "space_after_separators u (c # rest) =
     (if (c = 44 \<or> c = 59) \<and> scheme_length u rest \<noteq> None
      then c # 32 # space_after_separators u rest
      else c # space_after_separators u rest)"

text \<open>\<^verbatim>\<open>body.find(ends_address).unwrap_or(body.len())\<close>.\<close>

definition address_length :: "str \<Rightarrow> nat" where
  "address_length body = (case find_pos ends_address body of Some n \<Rightarrow> n | None \<Rightarrow> length body)"

function absolute_from :: "unicode_tables \<Rightarrow> nat \<Rightarrow> str \<Rightarrow> (nat \<times> str) list" where
  "absolute_from u k rest =
     (if rest = [] then []
      else (case scheme_length u rest of
              None \<Rightarrow> absolute_from u (k + 1) (drop 1 rest)
            | Some scheme \<Rightarrow>
                let len = address_length (drop scheme rest)
                in if 0 < len then (k, take (scheme + len) rest) # absolute_from u (k + scheme + len) (drop (scheme + len) rest)
                   else absolute_from u (k + 1) (drop 1 rest)))"
  by pat_completeness auto

termination absolute_from
  by (relation "measure (\<lambda>(_, _, rest). length rest)") auto

declare absolute_from.simps [simp del]

definition absolute_addresses :: "unicode_tables \<Rightarrow> str \<Rightarrow> (nat \<times> str) list" where
  "absolute_addresses u task = absolute_from u 0 task"

definition opens_path :: "uchar option \<Rightarrow> bool" where
  "opens_path previous \<longleftrightarrow>
     (case previous of None \<Rightarrow> True
      | Some p \<Rightarrow> is_space p \<or> p \<in> {34, 39, 96, 40, 91, 60, 42, 95})"

definition starts_path :: "uchar option \<Rightarrow> bool" where
  "starts_path first \<longleftrightarrow>
     (case first of None \<Rightarrow> False | Some f \<Rightarrow> is_alnum f \<or> f \<in> {95, 126, 45})"

text \<open>
  After a path the loop has consumed all of it, and \<^verbatim>\<open>previous\<close> is its last character, which
  is not the slash: a path has at least one more.
\<close>

function paths_from :: "nat \<Rightarrow> uchar option \<Rightarrow> str \<Rightarrow> (nat \<times> str) list" where
  "paths_from k previous [] = []"
| "paths_from k previous (c # rest) =
     (if c = 47 \<and> opens_path previous \<and> starts_path (case rest of [] \<Rightarrow> None | f # _ \<Rightarrow> Some f)
      then (let len = address_length rest in
            (k, c # take len rest)
            # paths_from (k + 1 + len) (if len = 0 then previous else Some (last (take len rest))) (drop len rest))
      else paths_from (k + 1) (Some c) rest)"
  by pat_completeness auto

termination paths_from
  by (relation "measure (\<lambda>(_, _, rest). length rest)") (auto simp: less_Suc_eq_le)

definition task_paths :: "str \<Rightarrow> (nat \<times> str) list" where
  "task_paths task = paths_from 0 None task"

section \<open>Addresses\<close>

definition writes_userinfo :: "str \<Rightarrow> bool" where
  "writes_userinfo url =
     (case split_once_str (lit ''://'') url of
        None \<Rightarrow> False
      | Some (_, rest) \<Rightarrow> 64 \<in> set (hd (split_pred (\<lambda>c. c \<in> {47, 63, 35, 92}) rest)))"

definition valid_address :: "url_crate \<Rightarrow> str \<Rightarrow> bool" where
  "valid_address U url =
     (case url_parse U url of
        None \<Rightarrow> False
      | Some parsed \<Rightarrow>
          if origin_of U url = None \<or> writes_userinfo url then False
          else
            (case url_host_of parsed of
               Some (Host_Domain domain) \<Rightarrow>
                 domain \<noteq> [] \<and> list_all (\<lambda>b. is_alnum b \<or> b \<in> {46, 95, 45}) domain
             | Some (Host_Ipv4 _) \<Rightarrow> True
             | Some (Host_Ipv6 _) \<Rightarrow> True
             | None \<Rightarrow> False)
            \<and> url_port parsed \<noteq> Some 0)"

definition location :: "url_crate \<Rightarrow> str \<Rightarrow> str \<times> str \<times> str" where
  "location U url =
     (case url_parse U url of
        Some parsed \<Rightarrow>
          (if url_path parsed = [] then lit ''/'' else url_path parsed,
           (case url_query parsed of None \<Rightarrow> [] | Some q \<Rightarrow> q),
           (case url_fragment parsed of None \<Rightarrow> [] | Some f \<Rightarrow> f))
      | None \<Rightarrow> (url, [], []))"

definition same_address :: "url_crate \<Rightarrow> str \<Rightarrow> str \<Rightarrow> bool" where
  "same_address U left right \<longleftrightarrow> origin_of U left = origin_of U right \<and> location U left = location U right"

section \<open>What a task names\<close>

text \<open>\<^verbatim>\<open>IndexSet::insert\<close> keeps the first of equal addresses.\<close>

definition is_insert :: "'a list \<Rightarrow> 'a \<Rightarrow> 'a list" where
  "is_insert xs x = (if x \<in> set xs then xs else xs @ [x])"

definition spaced_task :: "unicode_tables \<Rightarrow> str \<Rightarrow> str" where
  "spaced_task u task = replace_all (lit '']('') (lit ''] ('') (space_after_separators u task)"

definition named_absolute :: "unicode_tables \<Rightarrow> url_crate \<Rightarrow> str \<Rightarrow> str list" where
  "named_absolute u U task =
     filter (valid_address U)
       (map (\<lambda>(k, found). trimmed task k found SENTENCE_END) (absolute_addresses u task))"

definition named_paths :: "url_crate \<Rightarrow> str \<Rightarrow> url_parts \<Rightarrow> str list" where
  "named_paths U task base =
     filter (valid_address U)
       (map url_text
         (List.map_filter (\<lambda>(k, found). url_join U base (trimmed task k found QUESTION_END)) (task_paths task)))"

definition task_urls :: "unicode_tables \<Rightarrow> url_crate \<Rightarrow> str \<Rightarrow> str option \<Rightarrow> bool \<Rightarrow> str list" where
  "task_urls u U task start include_start =
     (let spaced = spaced_task u task;
          urls = foldl is_insert [] (named_absolute u U spaced)
      in case start of
           None \<Rightarrow> urls
         | Some st \<Rightarrow>
             if \<not> valid_address U st then urls
             else (let urls = (case url_parse U st of
                                 None \<Rightarrow> urls
                               | Some base \<Rightarrow> foldl is_insert urls (named_paths U spaced base))
                   in if include_start then is_insert urls st else urls))"

definition navigation_urls ::
  "unicode_tables \<Rightarrow> url_crate \<Rightarrow> str \<Rightarrow> str \<Rightarrow> str option \<Rightarrow> str option \<Rightarrow> bool \<Rightarrow> str list" where
  "navigation_urls u U task current start start_landing include_start =
     filter (\<lambda>url. \<not> same_address U url current \<and>
               \<not> (case (start, start_landing) of
                    (Some st, Some landing) \<Rightarrow> same_address U url st \<and> same_address U landing current
                  | _ \<Rightarrow> False))
       (task_urls u U task start include_start)"

section \<open>Facts\<close>

lemma set_foldl_insert: "set (foldl is_insert xs ys) = set xs \<union> set ys"
  by (induction ys arbitrary: xs) (auto simp: is_insert_def)

lemma distinct_is_insert: "distinct xs \<Longrightarrow> distinct (is_insert xs x)"
  by (simp add: is_insert_def)

lemma distinct_foldl_insert: "distinct xs \<Longrightarrow> distinct (foldl is_insert xs ys)"
  by (induction ys arbitrary: xs) (auto simp: is_insert_def)

lemma strip_marker_prefix: "prefix (strip_marker before ms url) url"
  by (induction ms) (auto simp: take_is_prefix)

lemma strip_closers_prefix: "prefix (strip_closers l r url) url"
proof (induction l r url rule: strip_closers.induct)
  case (1 l r url)
  then show ?case
    by (subst strip_closers.simps) (auto dest: prefix_order.trans [OF _ prefixeq_butlast])
qed

lemma trimmed_prefix: "prefix (trimmed task k found ends) found"
proof -
  have "prefix (foldl (\<lambda>u (l, r). strip_closers l r u) url cs) url" for url cs
  proof (induction cs arbitrary: url)
    case (Cons c cs)
    then show ?case
      by (cases c) (auto intro: prefix_order.trans [OF _ strip_closers_prefix])
  qed simp
  note closers = this
  show ?thesis
    unfolding trimmed_def Let_def
    by (rule prefix_order.trans [OF closers prefix_order.trans [OF strip_marker_prefix prefix_trim_end]])
qed

text \<open>
  White space has no case: nothing but itself matches it up to case.  This is so in every
  version of the Unicode tables.
\<close>

definition spaces_caseless :: "unicode_tables \<Rightarrow> bool" where
  "spaces_caseless u \<longleftrightarrow> (\<forall>c d. is_space c \<longrightarrow> same_letter u c d \<longrightarrow> c = d)"

lemma starts_with_letters:
  "starts_with_ignore_case u s w = Some n \<Longrightarrow> list_all2 (same_letter u) (take n s) w"
  by (induction u s w arbitrary: n rule: starts_with_ignore_case.induct) (auto split: if_splits)

lemma scheme_length_no_space:
  assumes "scheme_length u s = Some n" and "spaces_caseless u"
  shows "\<forall>c\<in>set (take n s). \<not> is_space c"
proof -
  obtain k m where k: "starts_with_ignore_case u s (lit ''http'') = Some k"
    and m: "m = k \<or> m = k + 1 \<and> (prefix (lit ''s'') (drop k s) \<or> prefix (lit ''S'') (drop k s))"
    and p: "prefix (lit ''://'') (drop m s)" "n = m + 3"
    using assms(1) by (auto simp: scheme_length_def Let_def split: option.splits if_splits)
  have "\<not> is_space c" if c: "c \<in> set (take k s)" for c
  proof
    assume "is_space c"
    obtain i where "i < length (take k s)" "take k s ! i = c" using c by (auto simp only: in_set_conv_nth)
    then obtain d where "d \<in> set (lit ''http'')" "same_letter u c d"
      using list_all2_nthD [OF starts_with_letters [OF k]] list_all2_lengthD [OF starts_with_letters [OF k]]
      by (metis nth_mem)
    with \<open>is_space c\<close> assms(2) have "is_space d" by (auto simp: spaces_caseless_def)
    with \<open>d \<in> set (lit ''http'')\<close> show False by (auto simp: lit_def is_space_def is_whitespace_def)
  qed
  moreover have "\<not> is_space c" if "c \<in> set (take (m - k) (drop k s))" for c
    using that m by (auto simp: prefix_def lit_Cons is_space_def is_whitespace_def)
  moreover have "\<not> is_space c" if "c \<in> set (take 3 (drop m s))" for c
    using that p(1) by (auto simp: prefix_def lit_Cons is_space_def is_whitespace_def)
  moreover have "take n s = take k s @ take (m - k) (drop k s) @ take 3 (drop m s)"
    using m take_add [of k 1 s] by (auto simp: p(2) take_add)
  ultimately show ?thesis by auto
qed

lemma address_length_no_space:
  "c \<in> set (take (address_length body) body) \<Longrightarrow> \<not> is_space c"
proof -
  assume c: "c \<in> set (take (address_length body) body)"
  have "\<not> ends_address c"
  proof (cases "find_pos ends_address body")
    case None
    with c show ?thesis by (auto simp: address_length_def find_pos_None)
  next
    case (Some n)
    with c find_pos_Some [OF Some] show ?thesis
      by (auto simp: address_length_def in_set_conv_nth)
  qed
  then show ?thesis by (simp add: ends_address_def)
qed

lemma absolute_from_found:
  "(i, found) \<in> set (absolute_from u k rest) \<Longrightarrow> spaces_caseless u \<Longrightarrow>
   sublist found rest \<and> (\<forall>c\<in>set found. \<not> is_space c)"
proof (induction u k rest rule: absolute_from.induct)
  case (1 u k rest)
  have ne: "rest \<noteq> []" using 1(4) by (auto simp: absolute_from.simps [of u k rest])
  have drop: "sublist found rest" if "sublist found (drop n rest)" for n
    using that by (meson sublist_drop sublist_order.order_trans)
  show ?case
  proof (cases "scheme_length u rest")
    case None
    with 1(1) [OF ne None] 1(4,5) ne show ?thesis by (auto simp: absolute_from.simps [of u k rest] intro: drop)
  next
    case (Some n)
    let ?len = "address_length (drop n rest)"
    show ?thesis
    proof (cases "0 < ?len")
      case True
      have "\<forall>c\<in>set (take (n + ?len) rest). \<not> is_space c"
        using scheme_length_no_space [OF Some 1(5)] address_length_no_space [of _ "drop n rest"]
        by (auto simp: take_add)
      moreover have "found = take (n + ?len) rest \<or>
          (i, found) \<in> set (absolute_from u (k + n + ?len) (drop (n + ?len) rest))"
        using 1(4) ne Some True by (auto simp: absolute_from.simps [of u k rest] Let_def)
      ultimately show ?thesis
        using 1(2) [OF ne Some refl True] 1(5) by (auto intro: drop sublist_take)
    next
      case False
      with 1(3) [OF ne Some refl False] 1(4,5) ne Some show ?thesis
        by (auto simp: absolute_from.simps [of u k rest] Let_def intro: drop)
    qed
  qed
qed

text \<open>Spacing out a task only inserts spaces.\<close>

inductive spaced :: "str \<Rightarrow> str \<Rightarrow> bool" where
  spaced_Nil: "spaced [] []"
| spaced_Cons: "spaced s t \<Longrightarrow> spaced (c # s) (c # t)"
| spaced_space: "spaced s t \<Longrightarrow> spaced s (32 # t)"

inductive_cases spaced_NilE: "spaced s []"
inductive_cases spaced_ConsE: "spaced s (c # t)"

lemma spaced_refl: "spaced s s"
  by (induction s) (auto intro: spaced.intros)

lemma spaced_append: "spaced s t \<Longrightarrow> spaced s' t' \<Longrightarrow> spaced (s @ s') (t @ t')"
  by (induction rule: spaced.induct) (auto intro: spaced.intros)

lemma spaced_prefix: "spaced s (w @ b) \<Longrightarrow> 32 \<notin> set w \<Longrightarrow> \<exists>s'. s = w @ s'"
  by (induction w arbitrary: s) (auto elim!: spaced_ConsE)

lemma spaced_sublist: "spaced s t \<Longrightarrow> t = a @ w @ b \<Longrightarrow> 32 \<notin> set w \<Longrightarrow> sublist w s"
proof (induction a arbitrary: s t)
  case Nil
  then show ?case using spaced_prefix [of s w b] by auto
next
  case (Cons c a)
  from Cons.prems(1,2) obtain s' where "spaced s' (a @ w @ b)" "suffix s' s"
    by (auto elim!: spaced_ConsE intro: suffix_ConsI)
  with Cons.IH [OF this(1) refl] Cons.prems(3) show ?case
    by (meson sublist_order.order_trans suffix_imp_sublist)
qed

lemma spaced_separators: "spaced s (space_after_separators u s)"
  by (induction u s rule: space_after_separators.induct) (auto intro: spaced.intros)

lemma spaced_brackets: "spaced s (replace_all (lit ''](''  ) (lit ''] ('') s)"
proof (induction "lit ''](''" "lit ''] (''" s rule: replace_all.induct)
  case (1 s)
  show ?case
  proof (cases "prefix (lit '']('') s")
    case True
    then obtain r where "s = lit ''](''  @ r" by (auto simp: prefix_def)
    moreover from this 1(1) have "spaced r (replace_all (lit '']('') (lit ''] ('') r)"
      by (auto simp: lit_Cons split: list.splits)
    moreover have "spaced (lit ''](''  ) (lit ''] ('')" by (auto simp: lit_Cons intro: spaced.intros)
    ultimately show ?thesis using True
      by (subst replace_all.simps) (auto simp: lit_Cons intro: spaced.intros)
  next
    case False
    with 1(2) show ?thesis
      by (subst replace_all.simps) (auto split: list.splits intro: spaced.intros)
  qed
qed

lemma spaced_task_sublist:
  assumes "sublist w (spaced_task u task)" and "32 \<notin> set w"
  shows "sublist w task"
proof -
  obtain a b where "spaced_task u task = a @ w @ b" using assms(1) by (auto simp: sublist_def)
  then have "sublist w (space_after_separators u task)"
    using spaced_sublist [OF spaced_brackets] assms(2) by (simp add: spaced_task_def)
  then obtain a b where "space_after_separators u task = a @ w @ b" by (auto simp: sublist_def)
  then show ?thesis using spaced_sublist [OF spaced_separators] assms(2) by blast
qed

lemma named_absolute_verbatim:
  assumes "spaces_caseless u" and "url \<in> set (named_absolute u U (spaced_task u task))"
  shows "sublist url task"
proof -
  obtain k found where f: "(k, found) \<in> set (absolute_from u 0 (spaced_task u task))"
    and url: "url = trimmed (spaced_task u task) k found SENTENCE_END"
    using assms(2) by (auto simp: named_absolute_def absolute_addresses_def)
  have pre: "prefix url found" using trimmed_prefix url by simp
  from absolute_from_found [OF f assms(1)] have "sublist found (spaced_task u task)"
    and "32 \<notin> set found" by (auto simp: is_space_def is_whitespace_def)
  with pre have "sublist url (spaced_task u task)" "32 \<notin> set url"
    by (meson prefix_imp_sublist sublist_order.order_trans, meson set_mono_prefix subset_eq)
  then show ?thesis by (rule spaced_task_sublist)
qed

lemma task_urls_sources:
  assumes "url \<in> set (task_urls u U task start include_start)"
  shows "valid_address U url \<and>
    (url \<in> set (named_absolute u U (spaced_task u task)) \<or>
     (\<exists>st base. start = Some st \<and> valid_address U st \<and> url_parse U st = Some base \<and>
        (url \<in> set (named_paths U (spaced_task u task) base) \<or> include_start \<and> url = st)))"
proof -
  have "valid_address U v" if "v \<in> set (named_absolute u U t)" for v t
    using that by (auto simp: named_absolute_def)
  moreover have "valid_address U v" if "v \<in> set (named_paths U t b)" for v t b
    using that by (auto simp: named_paths_def)
  moreover have "\<exists>b. url_parse U st = Some b" if "valid_address U st" for st
    using that by (auto simp: valid_address_def split: option.splits)
  ultimately show ?thesis
    using assms
    by (fastforce simp: task_urls_def Let_def set_foldl_insert is_insert_def split: option.splits if_splits)
qed

section \<open>Properties\<close>


lemma ascii_spaces_caseless: "spaces_caseless ascii_tables"
  by (auto simp: spaces_caseless_def same_letter_def ascii_tables_def is_space_def is_whitespace_def is_upper_def
      split: if_splits)


text \<open>
  the eligible destinations are the task's addresses in their order, less exactly those
  that are the current document, and less the start address when the current document is
  where the start address redirected.
\<close>
theorem navigation_urls_spec:
  "set (navigation_urls u U task current start landing include_start) =
     {url \<in> set (task_urls u U task start include_start).
        \<not> same_address U url current \<and>
        \<not> (\<exists>st l. start = Some st \<and> landing = Some l \<and> same_address U url st \<and> same_address U l current)} \<and>
   subseq (navigation_urls u U task current start landing include_start) (task_urls u U task start include_start)"
  by (cases start; cases landing) (auto simp: navigation_urls_def)

end
