(* ===== verification/Recipes.thy ===== *)
theory Recipes
  imports Redaction Navigation
begin

text \<open>
  \<^verbatim>\<open>crates/fastbrowse-core/src/recipe.rs\<close>, \<^verbatim>\<open>crates/fastbrowse-agent/src/agent/replay.rs\<close> and the
  \<^verbatim>\<open>Decision\<close> of \<^verbatim>\<open>policy.rs\<close>: the steps a run keeps, and the machine that offers them to a later run.
  \<open>U\<close> is the \<^verbatim>\<open>url\<close> crate.  Reading and writing recipe files is left out.
\<close>

section \<open>Recipes\<close>

definition RECIPE_VERSION :: int where
  "RECIPE_VERSION = 1"

definition REPLAYABLE :: "operation list" where
  "REPLAYABLE = [Op_Click, Op_Enter, Op_Fill, Op_Hover, Op_Scroll, Op_ScrollUp, Op_Back, Op_Escape]"

record recipe_page =
  rp_origin :: str
  rp_path :: str
  rp_query :: "str option"
  rp_fragment :: "str option"

record recipe_target =
  rt_role :: str
  rt_label :: str
  rt_context :: "str option"
  rt_href :: "str option"
  rt_input_type :: "str option"
  rt_input_name :: "str option"
  rt_frame_origin :: "str option"

datatype recipe_text = Text_Literal str | Text_Live | Text_Input str | Text_Secret str

record recipe_step =
  rs_operation :: operation
  rs_page :: recipe_page
  rs_target :: "recipe_target option"
  rs_text :: "recipe_text option"
  rs_option :: "str option"
  rs_read_first :: bool
  rs_replay :: bool

record recipe =
  rec_version :: int
  rec_task :: str
  rec_start :: "str option"
  rec_steps :: "recipe_step list"

text \<open>\<^verbatim>\<open>Recipe::from_json\<close> after the document is read: \<open>parsed\<close> is what \<^verbatim>\<open>serde_json\<close> made of it.\<close>

definition recipe_from_json :: "url_crate \<Rightarrow> str + recipe \<Rightarrow> str + recipe" where
  "recipe_from_json U parsed =
     and_then parsed (\<lambda>r.
       if rec_version r \<noteq> RECIPE_VERSION
       then Inl (lit ''recipe version '' @ dec_int (rec_version r) @ lit ''; this fastbrowse reads version '' @ dec_int RECIPE_VERSION)
       else if is_some_and (rec_start r) (\<lambda>s. \<not> valid_address U s)
       then Inl (lit ''recipe start must be a credential-free http or https URL with a usable host and port'')
       else Inr r)"

definition replayable :: "recipe_step \<Rightarrow> bool" where
  "replayable s \<longleftrightarrow>
     rs_replay s \<and> rs_operation s \<in> set REPLAYABLE
     \<and> (is_targeted (rs_operation s) \<longrightarrow> rs_target s \<noteq> None)
     \<and> (rs_operation s = Op_Fill \<longrightarrow> is_some_and (rs_text s) (\<lambda>t. t \<noteq> Text_Live))"

definition page_of :: "url_crate \<Rightarrow> str \<Rightarrow> recipe_page option" where
  "page_of U url =
     (case url_parse U url of
        None \<Rightarrow> None
      | Some p \<Rightarrow>
          if url_scheme p = lit ''http'' \<or> url_scheme p = lit ''https''
          then Some \<lparr>rp_origin = url_origin p, rp_path = url_path p, rp_query = url_query p, rp_fragment = url_fragment p\<rparr>
          else None)"

definition page_matches :: "recipe_page \<Rightarrow> recipe_page \<Rightarrow> bool" where
  "page_matches a b \<longleftrightarrow> a = b"

text \<open>The address a link leads to, without its fragment: a serialized address has a hash sign only
  before its fragment.\<close>

definition resolve :: "url_crate \<Rightarrow> str \<Rightarrow> str \<Rightarrow> str option" where
  "resolve U base href =
     (case url_parse U base of
        None \<Rightarrow> None
      | Some b \<Rightarrow>
          (case url_join U b href of
             None \<Rightarrow> None
           | Some p \<Rightarrow> Some (takeWhile (\<lambda>c. c \<noteq> ch (CHR ''#'')) (url_text p))))"

definition resolved_href :: "url_crate \<Rightarrow> str \<Rightarrow> control \<Rightarrow> str option" where
  "resolved_href U page_url c = (case ctl_href c of None \<Rightarrow> None | Some h \<Rightarrow> resolve U page_url h)"

definition target_of :: "url_crate \<Rightarrow> control \<Rightarrow> str \<Rightarrow> recipe_target" where
  "target_of U c page_url =
     \<lparr>rt_role = ctl_role c, rt_label = ctl_label c, rt_context = ctl_context c, rt_href = resolved_href U page_url c,
      rt_input_type = ctl_input_type c, rt_input_name = ctl_input_name c, rt_frame_origin = ctl_frame_origin c\<rparr>"

definition target_matches :: "url_crate \<Rightarrow> recipe_target \<Rightarrow> control \<Rightarrow> str \<Rightarrow> bool" where
  "target_matches U t c page_url \<longleftrightarrow>
     rt_role t = ctl_role c \<and> rt_label t = ctl_label c \<and> rt_context t = ctl_context c
     \<and> rt_input_type t = ctl_input_type c \<and> rt_input_name t = ctl_input_name c
     \<and> rt_frame_origin t = ctl_frame_origin c \<and> rt_href t = resolved_href U page_url c"

definition find_target :: "url_crate \<Rightarrow> recipe_target \<Rightarrow> control list \<Rightarrow> str \<Rightarrow> control option" where
  "find_target U t controls page_url =
     (case filter (\<lambda>c. target_matches U t c page_url) controls of [c] \<Rightarrow> Some c | _ \<Rightarrow> None)"

section \<open>Decisions and history\<close>

datatype reduction =
  Reduction_None | Reduction_Relevance | Reduction_OnscreenOnly | Reduction_Capped | Reduction_Trimmed

record decision =
  dec_operation :: operation
  dec_url :: "str option"
  dec_target :: "control option"
  dec_tab_id :: "str option"
  dec_operation_confidence :: real
  dec_target_confidence :: "real option"
  dec_login_required :: "real option"
  dec_offered_controls :: int
  dec_reduction :: reduction
  dec_cost :: "cost_line list"
  dec_input_tokens :: int
  dec_bot_check :: "real option"
  dec_shows_answer :: "real option"
  dec_site_failure :: "real option"
  dec_destination :: "control option"
  dec_replayed :: bool
  dec_by_code :: bool
  dec_offered :: "control list"
  dec_ahead :: "(str, answer) index_map"

definition decider_of :: "decision \<Rightarrow> decider" where
  "decider_of d = (if dec_replayed d then Decider_Recipe else if dec_by_code d then Decider_Code else Decider_Jev)"

definition confidence :: "decision \<Rightarrow> real" where
  "confidence d =
     (case dec_target_confidence d of
        None \<Rightarrow> dec_operation_confidence d
      | Some t \<Rightarrow> min (dec_operation_confidence d) t)"

record history_entry =
  he_operation :: "operation option"
  he_target :: "str option"
  he_outcome :: step_outcome
  he_page_changed :: bool
  he_note :: "str option"
  he_text :: "str option"
  he_effect :: "str option"
  he_read_progress :: bool
  he_setting :: "bool option"
  he_added :: bool

definition history_new :: "operation option \<Rightarrow> str option \<Rightarrow> step_outcome \<Rightarrow> bool \<Rightarrow> history_entry" where
  "history_new op target outcome changed =
     \<lparr>he_operation = op, he_target = target, he_outcome = outcome, he_page_changed = changed, he_note = None,
      he_text = None, he_effect = None, he_read_progress = False, he_setting = None, he_added = False\<rparr>"

section \<open>Replay\<close>

record replay =
  replay_steps :: "recipe_step list"
  replay_next :: nat
  replay_pending :: "nat option"
  replay_failed :: "nat list"
  replay_replayed :: nat
  replay_fell_back :: nat

definition replay_new :: "recipe \<Rightarrow> replay" where
  "replay_new r =
     \<lparr>replay_steps = rec_steps r, replay_next = 0, replay_pending = None, replay_failed = [], replay_replayed = 0,
      replay_fell_back = 0\<rparr>"

definition replay_active :: "replay \<Rightarrow> bool" where
  "replay_active r \<longleftrightarrow> replay_next r < length (replay_steps r)"

definition replay_text :: "replay \<Rightarrow> recipe_text option" where
  "replay_text r = (case replay_pending r of None \<Rightarrow> None | Some i \<Rightarrow> rs_text (replay_steps r ! i))"

definition text_for :: "replay \<Rightarrow> control \<Rightarrow> bool \<Rightarrow> recipe_text option" where
  "text_for r target missing =
     (if missing \<or> is_password target then None
      else case replay_text r of
             None \<Rightarrow> None
           | Some (Text_Literal s) \<Rightarrow> if ctl_sensitive target then None else Some (Text_Literal s)
           | Some Text_Live \<Rightarrow> None
           | Some source \<Rightarrow> Some source)"

text \<open>The control a saved step acts on here: \<open>Inr None\<close> for a step without one, \<open>Inl ()\<close> when the step does
  not fit the page.\<close>

definition live_target :: "url_crate \<Rightarrow> recipe_step \<Rightarrow> control list \<Rightarrow> str \<Rightarrow> unit + control option" where
  "live_target U s offered url =
     (case rs_target s of
        Some t \<Rightarrow>
          (case find_target U t offered url of
             Some c \<Rightarrow> if rs_operation s \<in> ctl_operations c then Inr (Some c) else Inl ()
           | None \<Rightarrow> Inl ())
      | None \<Rightarrow> Inr None)"

definition ahead_decision :: "recipe_step \<Rightarrow> control option \<Rightarrow> control list \<Rightarrow> decision" where
  "ahead_decision s target offered =
     \<lparr>dec_operation = rs_operation s, dec_url = None, dec_target = target, dec_tab_id = None,
      dec_operation_confidence = 1, dec_target_confidence = map_option (\<lambda>_. 1) target, dec_login_required = None,
      dec_offered_controls = int (length offered), dec_reduction = Reduction_None, dec_cost = [], dec_input_tokens = 0,
      dec_bot_check = None, dec_shows_answer = None, dec_site_failure = None, dec_destination = None,
      dec_replayed = True, dec_by_code = False, dec_offered = [], dec_ahead = []\<rparr>"

definition replay_replaced :: "replay \<Rightarrow> replay" where
  "replay_replaced r = r\<lparr>replay_pending := None\<rparr>"

definition replay_ahead ::
  "url_crate \<Rightarrow> str \<Rightarrow> control list \<Rightarrow> (control \<Rightarrow> bool) \<Rightarrow> replay \<Rightarrow> decision option \<times> replay" where
  "replay_ahead U url offered missing r0 =
     (let r = replay_replaced r0; i = replay_next r in
      if length (replay_steps r) \<le> i then (None, r)
      else let s = replay_steps r ! i in
      if i \<in> set (replay_failed r) \<or> \<not> replayable s \<or> rs_read_first s then (None, r)
      else if \<not> is_some_and (page_of U url) (page_matches (rs_page s)) then (None, r)
      else case live_target U s offered url of
        Inl _ \<Rightarrow> (None, r)
      | Inr target \<Rightarrow>
          if target = None \<and> is_targeted (rs_operation s) then (None, r)
          else let armed = r\<lparr>replay_pending := Some i\<rparr> in
            if rs_operation s = Op_Fill \<and> \<not> is_some_and target (\<lambda>t. text_for armed t (missing t) \<noteq> None)
            then (None, r)
            else (Some (ahead_decision s target offered), armed))"

definition recorded :: "operation \<Rightarrow> bool" where
  "recorded op \<longleftrightarrow> op \<notin> {Op_Read, Op_Wait, Op_Done}"

definition step_fits :: "url_crate \<Rightarrow> str \<Rightarrow> recipe_page \<Rightarrow> control list \<Rightarrow> decision \<Rightarrow> recipe_step \<Rightarrow> bool" where
  "step_fits U url page offered chosen s \<longleftrightarrow>
     replayable s \<and> page_matches (rs_page s) page \<and> rs_operation s = dec_operation chosen
     \<and> (case live_target U s offered url of
          Inl _ \<Rightarrow> False
        | Inr target \<Rightarrow> map_option ctl_id target = map_option ctl_id (dec_target chosen))"

definition first_index :: "(nat \<Rightarrow> bool) \<Rightarrow> nat \<Rightarrow> nat \<Rightarrow> nat option" where
  "first_index P a b = find P [a..<b]"

definition matching_step :: "url_crate \<Rightarrow> str \<Rightarrow> control list \<Rightarrow> decision \<Rightarrow> replay \<Rightarrow> nat option \<times> replay" where
  "matching_step U url offered chosen r0 =
     (let r = replay_replaced r0 in
      if \<not> replay_active r then (None, r)
      else case page_of U url of
        None \<Rightarrow> (None, r\<lparr>replay_fell_back := replay_fell_back r + 1\<rparr>)
      | Some page \<Rightarrow>
          (case first_index (\<lambda>i. step_fits U url page offered chosen (replay_steps r ! i))
                  (replay_next r) (length (replay_steps r)) of
             Some i \<Rightarrow> (Some i, r\<lparr>replay_pending := Some i\<rparr>)
           | None \<Rightarrow> (None, r\<lparr>replay_fell_back := replay_fell_back r + 1\<rparr>)))"

definition replay_confirm ::
  "url_crate \<Rightarrow> str \<Rightarrow> control list \<Rightarrow> decision \<Rightarrow> bool \<Rightarrow> replay \<Rightarrow> decision \<times> replay" where
  "replay_confirm U url offered d missing r0 =
     (if \<not> recorded (dec_operation d) then (d, r0)
      else case matching_step U url offered d r0 of
        (None, r) \<Rightarrow> (d, r)
      | (Some _, r) \<Rightarrow>
          if dec_operation d = Op_Fill \<and> \<not> is_some_and (dec_target d) (\<lambda>t. text_for r t missing \<noteq> None)
          then (d, r\<lparr>replay_pending := None, replay_fell_back := replay_fell_back r + 1\<rparr>)
          else (d\<lparr>dec_replayed := True\<rparr>, r))"

definition replay_advance :: "nat \<Rightarrow> replay \<Rightarrow> replay" where
  "replay_advance i r = r\<lparr>replay_next := i + 1\<rparr>"

definition took_step :: "url_crate \<Rightarrow> str \<Rightarrow> recipe_page \<Rightarrow> decision \<Rightarrow> recipe_step \<Rightarrow> bool" where
  "took_step U url page d s \<longleftrightarrow>
     rs_operation s = dec_operation d \<and> page_matches (rs_page s) page
     \<and> (case (rs_target s, dec_target d) of
          (Some t, Some c) \<Rightarrow> target_matches U t c url
        | (None, None) \<Rightarrow> True
        | _ \<Rightarrow> False)"

definition replay_followed :: "url_crate \<Rightarrow> str \<Rightarrow> decision \<Rightarrow> replay \<Rightarrow> replay" where
  "replay_followed U url d r =
     (case page_of U url of
        None \<Rightarrow> r
      | Some page \<Rightarrow>
          if \<not> replay_active r then r
          else case first_index (\<lambda>i. took_step U url page d (replay_steps r ! i))
                      (replay_next r) (length (replay_steps r)) of
                 Some i \<Rightarrow> replay_advance i r
               | None \<Rightarrow> r)"

definition replay_settled :: "bool \<Rightarrow> replay \<Rightarrow> replay" where
  "replay_settled executed r =
     (case replay_pending r of
        None \<Rightarrow> r
      | Some i \<Rightarrow>
          let r = r\<lparr>replay_pending := None\<rparr>
          in if executed then (replay_advance i r)\<lparr>replay_replayed := replay_replayed r + 1\<rparr>
             else r\<lparr>replay_failed := replay_failed r @ [i]\<rparr>)"

definition replay_declined :: "replay \<Rightarrow> replay" where
  "replay_declined r =
     (case replay_pending r of
        None \<Rightarrow> r
      | Some i \<Rightarrow> r\<lparr>replay_pending := None, replay_failed := replay_failed r @ [i]\<rparr>)"

section \<open>Recording\<close>

definition target_texts :: "recipe_target \<Rightarrow> str list" where
  "target_texts t =
     [rt_role t, rt_label t]
     @ concat (map (\<lambda>x. case x of Some s \<Rightarrow> [s] | None \<Rightarrow> [])
         [rt_context t, rt_href t, rt_input_type t, rt_input_name t, rt_frame_origin t])"

definition saved_text :: "(str \<Rightarrow> bool) \<Rightarrow> decision \<Rightarrow> act \<Rightarrow> recipe_text option \<Rightarrow> recipe_text option \<times> bool" where
  "saved_text shows_secret d a source =
     (let replay = (dec_operation d \<in> set REPLAYABLE) in
      if dec_operation d \<noteq> Op_Fill then (None, replay)
      else case source of
        Some Text_Live \<Rightarrow> (Some Text_Live, False)
      | Some (Text_Input n) \<Rightarrow> (Some (Text_Input n), replay)
      | Some (Text_Secret n) \<Rightarrow> (Some (Text_Secret n), replay)
      | _ \<Rightarrow>
          (let typed = (case act_text a of Some s \<Rightarrow> s | None \<Rightarrow> []);
               sensitive = is_some_and (dec_target d) (\<lambda>t. ctl_sensitive t \<or> is_password t)
           in if act_secret a \<or> sensitive \<or> shows_secret typed then (None, False)
              else (Some (Text_Literal typed), replay)))"

definition step_of ::
  "url_crate \<Rightarrow> str \<Rightarrow> decision \<Rightarrow> act \<Rightarrow> recipe_text option \<Rightarrow> (str \<Rightarrow> bool) \<Rightarrow> recipe_step option" where
  "step_of U page_url d a source shows_secret =
     (if shows_secret page_url then None
      else case page_of U page_url of
        None \<Rightarrow> None
      | Some page \<Rightarrow>
          (let target = map_option (\<lambda>t. target_of U t page_url) (dec_target d) in
           if is_some_and target (\<lambda>t. list_ex shows_secret (target_texts t)) then None
           else let (txt, replay) = saved_text shows_secret d a source in
             Some \<lparr>rs_operation = dec_operation d, rs_page = page, rs_target = target, rs_text = txt, rs_option = None,
                   rs_read_first = is_some_and (dec_shows_answer d) (\<lambda>p. p > EVEN_ODDS), rs_replay = replay\<rparr>))"

definition recipe_step_of ::
  "url_crate \<Rightarrow> decision \<Rightarrow> observation \<Rightarrow> act \<Rightarrow> recipe_text option \<Rightarrow> (str \<Rightarrow> bool) \<Rightarrow> recipe_step option" where
  "recipe_step_of U d raw a source shows_secret =
     (let recorded =
            (case dec_target d of
               None \<Rightarrow> d
             | Some t \<Rightarrow>
                 (case find (\<lambda>c. ctl_id c = ctl_id t) (obs_controls raw) of
                    Some c \<Rightarrow> d\<lparr>dec_target := Some c\<rparr>
                  | None \<Rightarrow> d))
      in step_of U (obs_url raw) recorded a source shows_secret)"

definition or_empty :: "str option \<Rightarrow> str" where
  "or_empty x = (case x of Some s \<Rightarrow> s | None \<Rightarrow> [])"

definition page_texts :: "recipe_page \<Rightarrow> str list" where
  "page_texts p = [rp_origin p, rp_path p, or_empty (rp_query p), or_empty (rp_fragment p)]"

definition safe_target_texts :: "recipe_target \<Rightarrow> str list" where
  "safe_target_texts t =
     [rt_role t, rt_label t, or_empty (rt_context t), or_empty (rt_href t), or_empty (rt_input_type t),
      or_empty (rt_input_name t), or_empty (rt_frame_origin t)]"

definition safe_step :: "(str \<Rightarrow> bool) \<Rightarrow> recipe_step \<Rightarrow> bool" where
  "safe_step shows_secret s \<longleftrightarrow>
     \<not> list_ex shows_secret (page_texts (rs_page s))
     \<and> \<not> is_some_and (rs_target s) (\<lambda>t. list_ex shows_secret (safe_target_texts t))
     \<and> \<not> is_some_and (rs_option s) shows_secret
     \<and> (case rs_text s of Some (Text_Literal v) \<Rightarrow> \<not> shows_secret v | _ \<Rightarrow> True)"

definition safe_steps :: "recipe_step list \<Rightarrow> (str \<Rightarrow> bool) \<Rightarrow> recipe_step list" where
  "safe_steps saved shows_secret = filter (safe_step shows_secret) saved"

text \<open>\<^verbatim>\<open>Agent::store_recipe\<close>: no recipe when the task or the start address names a resolved secret.\<close>

definition store_recipe ::
  "(str \<Rightarrow> str) \<Rightarrow> (str \<Rightarrow> bool) \<Rightarrow> str \<Rightarrow> str option \<Rightarrow> recipe_step list \<Rightarrow> recipe option" where
  "store_recipe redact_text shows_secret given_task started_url recipe_log =
     (if redact_text given_task \<noteq> given_task \<or> map_option redact_text started_url \<noteq> started_url then None
      else Some \<lparr>rec_version = RECIPE_VERSION, rec_task = redact_text given_task,
                 rec_start = map_option redact_text started_url, rec_steps = safe_steps recipe_log shows_secret\<rparr>)"

section \<open>The replay machine: facts\<close>

definition replay_ok :: "replay \<Rightarrow> bool" where
  "replay_ok r \<longleftrightarrow>
     replay_next r \<le> length (replay_steps r) \<and> replay_replayed r \<le> replay_next r
     \<and> is_some_and (replay_pending r) (\<lambda>i. i < length (replay_steps r)) = (replay_pending r \<noteq> None)
     \<and> (\<forall>i\<in>set (replay_failed r). i < length (replay_steps r))"

text \<open>A saved step is handed out: it can be carried out again and the machine has not passed it yet.\<close>

definition handed_out :: "replay \<Rightarrow> bool" where
  "handed_out r \<longleftrightarrow> is_some_and (replay_pending r) (\<lambda>i. replay_next r \<le> i \<and> i < length (replay_steps r) \<and> replayable (replay_steps r ! i))"

lemma first_index_Some: "first_index P a b = Some i \<Longrightarrow> a \<le> i \<and> i < b \<and> P i"
  by (auto simp: first_index_def find_Some_iff)

lemma first_index_None: "first_index P a b = None \<longleftrightarrow> (\<forall>i. a \<le> i \<and> i < b \<longrightarrow> \<not> P i)"
  by (auto simp: first_index_def find_None_iff)

lemma replay_ahead_cases:
  obtains "replay_ahead U url offered missing r = (None, replay_replaced r)"
  | d where "replay_ahead U url offered missing r = (Some d, r\<lparr>replay_pending := Some (replay_next r)\<rparr>)"
      "replay_next r < length (replay_steps r)" "replay_next r \<notin> set (replay_failed r)"
      "dec_replayed d" "dec_operation d = rs_operation (replay_steps r ! replay_next r)"
      "replayable (replay_steps r ! replay_next r)" "\<not> rs_read_first (replay_steps r ! replay_next r)"
      "page_of U url = Some (rs_page (replay_steps r ! replay_next r))"
      "live_target U (replay_steps r ! replay_next r) offered url = Inr (dec_target d)"
proof -
  let ?s = "replay_steps r ! replay_next r"
  have armed: "replay_replaced r\<lparr>replay_pending := Some i\<rparr> = r\<lparr>replay_pending := Some i\<rparr>" for i
    by (simp add: replay_replaced_def)
  show ?thesis
  proof (cases "replay_ahead U url offered missing r")
    case (Pair x r')
    show ?thesis
    proof (cases x)
      case None
      with Pair have "r' = replay_replaced r"
        by (auto simp: replay_ahead_def Let_def split: if_splits sum.splits)
      with Pair None that(1) show ?thesis by simp
    next
      case (Some d)
      with Pair have "r' = r\<lparr>replay_pending := Some (replay_next r)\<rparr>" "replay_next r < length (replay_steps r)"
        "replay_next r \<notin> set (replay_failed r)" "replayable ?s" "\<not> rs_read_first ?s"
        "page_of U url = Some (rs_page ?s)"
        "\<exists>target. live_target U ?s offered url = Inr target \<and> d = ahead_decision ?s target offered"
        by (auto simp: replay_ahead_def Let_def replay_replaced_def page_matches_def is_some_and_iff
            split: if_splits sum.splits)
      with Pair Some that(2) [of d] show ?thesis by (auto simp: ahead_decision_def)
    qed
  qed
qed

lemma matching_step_cases:
  obtains k where "matching_step U url offered d r = (None, r\<lparr>replay_pending := None, replay_fell_back := k\<rparr>)"
  | i where "matching_step U url offered d r = (Some i, r\<lparr>replay_pending := Some i\<rparr>)"
      "replay_next r \<le> i" "i < length (replay_steps r)" "replayable (replay_steps r ! i)"
proof -
  show ?thesis
  proof (cases "fst (matching_step U url offered d r)")
    case None
    then have "\<exists>k. matching_step U url offered d r = (None, r\<lparr>replay_pending := None, replay_fell_back := k\<rparr>)"
      by (auto simp: matching_step_def Let_def replay_replaced_def split: option.splits if_splits
          intro: exI [of _ "replay_fell_back r"] exI [of _ "replay_fell_back r + 1"])
    with that(1) show ?thesis by blast
  next
    case (Some i)
    obtain page where page: "matching_step U url offered d r = (Some i, r\<lparr>replay_pending := Some i\<rparr>)"
      "first_index (\<lambda>i. step_fits U url page offered d (replay_steps r ! i)) (replay_next r) (length (replay_steps r)) = Some i"
      using Some by (auto simp: matching_step_def Let_def replay_replaced_def split: option.splits if_splits)
    from first_index_Some [OF page(2)] page(1) that(2) show ?thesis by (simp add: step_fits_def)
  qed
qed

text \<open>
  One event of a replaying run, with whether the decision now in hand came from a saved step
  (\<^verbatim>\<open>decision.replayed\<close>): the saved step is offered and taken or declined, a live decision is compared
  with the saved ones, the decision is dropped or replaced, or its action is carried out.
\<close>

inductive replay_event :: "url_crate \<Rightarrow> replay \<times> bool \<Rightarrow> replay \<times> bool \<Rightarrow> bool" for U where
  taken: "replay_ahead U url offered missing r = (Some d, r') \<Longrightarrow> replay_event U (r, b) (r', True)"
| declined: "replay_ahead U url offered missing r = (Some d, r') \<Longrightarrow> replay_event U (r, b) (replay_declined r', False)"
| live: "replay_ahead U url offered missing r = (None, r') \<Longrightarrow> \<not> dec_replayed d \<Longrightarrow>
    replay_confirm U url offered d m r' = (d', r'') \<Longrightarrow> replay_event U (r, b) (r'', dec_replayed d')"
| replaced: "replay_event U (r, b) (replay_replaced r, False)"
| dropped: "replay_event U (r, b) (r, False)"
| settled: "replay_event U (r, True) (replay_settled executed r, False)"
| followed: "replay_event U (r, False) (replay_followed U url d r, False)"

inductive_cases replay_eventE: "replay_event U (r, b) (r', b')"

definition replay_inv :: "replay \<times> bool \<Rightarrow> bool" where
  "replay_inv s \<longleftrightarrow> replay_ok (fst s) \<and> (snd s \<longrightarrow> handed_out (fst s))"

text \<open>How one event may move the machine.\<close>

definition replay_moves :: "replay \<Rightarrow> replay \<Rightarrow> bool" where
  "replay_moves r r' \<longleftrightarrow>
     replay_steps r' = replay_steps r \<and> replay_next r \<le> replay_next r'
     \<and> (replay_replayed r' = replay_replayed r
        \<or> replay_replayed r' = replay_replayed r + 1
          \<and> is_some_and (replay_pending r) (\<lambda>i. replay_next r \<le> i \<and> replay_next r' = i + 1 \<and> replayable (replay_steps r ! i)))"

lemma replay_confirm_inv:
  assumes "replay_ok r" and "\<not> dec_replayed d" and "replay_confirm U url offered d m r = (d', r')"
  shows "replay_inv (r', dec_replayed d') \<and> replay_moves r r'"
proof (cases "recorded (dec_operation d)")
  case False
  with assms show ?thesis by (auto simp: replay_confirm_def replay_inv_def replay_moves_def)
next
  case True
  show ?thesis
  proof (cases rule: matching_step_cases [of U url offered d r])
    case (1 k)
    with assms True show ?thesis
      by (auto simp: replay_confirm_def replay_inv_def replay_moves_def replay_ok_def)
  next
    case (2 i)
    with assms True show ?thesis
      by (auto simp: replay_confirm_def replay_inv_def replay_moves_def replay_ok_def handed_out_def split: if_splits)
  qed
qed

lemma replay_followed_inv:
  assumes "replay_ok r"
  shows "replay_ok (replay_followed U url d r) \<and> replay_moves r (replay_followed U url d r)"
proof (cases "\<exists>i. replay_followed U url d r = replay_advance i r \<and> replay_next r \<le> i \<and> i < length (replay_steps r)")
  case True
  with assms show ?thesis by (auto simp: replay_advance_def replay_ok_def replay_moves_def)
next
  case False
  then have "replay_followed U url d r = r"
    by (auto simp: replay_followed_def split: option.splits dest: first_index_Some)
  with assms show ?thesis by (simp add: replay_moves_def)
qed

lemma replay_settled_inv:
  assumes "replay_ok r" and "handed_out r"
  shows "replay_ok (replay_settled e r) \<and> replay_moves r (replay_settled e r)"
proof -
  obtain i where "replay_pending r = Some i" "replay_next r \<le> i" "i < length (replay_steps r)" "replayable (replay_steps r ! i)"
    using assms(2) by (auto simp: handed_out_def is_some_and_iff)
  then show ?thesis
    using assms(1) by (auto simp: replay_settled_def replay_advance_def replay_ok_def replay_moves_def Let_def)
qed

lemma replay_event_inv:
  assumes "replay_event U s s'" and "replay_inv s"
  shows "replay_inv s' \<and> replay_moves (fst s) (fst s')"
  using assms
proof (induction rule: replay_event.cases)
  case (taken url offered missing r d r' b)
  then show ?case
    by (cases rule: replay_ahead_cases [of U url offered missing r])
      (auto simp: replay_inv_def replay_moves_def replay_ok_def handed_out_def)
next
  case (declined url offered missing r d r' b)
  then show ?case
    by (cases rule: replay_ahead_cases [of U url offered missing r])
      (auto simp: replay_inv_def replay_moves_def replay_ok_def replay_declined_def)
next
  case (live url offered missing r r' d m d' r'' b)
  have r': "r' = replay_replaced r" using live(3) by (cases rule: replay_ahead_cases [of U url offered missing r]) auto
  have ok: "replay_ok r'" using live(6) [unfolded live(1)] by (simp add: r' replay_inv_def replay_ok_def replay_replaced_def)
  from replay_confirm_inv [OF ok live(4,5)]
  have inv: "replay_inv (r'', dec_replayed d')" and moves: "replay_moves r' r''" by simp_all
  have "replay_moves r r''" using moves by (auto simp: r' replay_moves_def replay_replaced_def)
  with inv live(1,2) show ?case by simp
next
  case (settled r executed)
  then show ?case using replay_settled_inv by (simp add: replay_inv_def)
next
  case (followed r url d)
  then show ?case using replay_followed_inv by (simp add: replay_inv_def)
qed (auto simp: replay_inv_def replay_moves_def replay_ok_def replay_replaced_def)

interpretation replay_machine: stable_predicate "replay_event U" replay_inv
  by unfold_locales (use replay_event_inv in blast)

lemma replay_new_inv: "replay_inv (replay_new rec, False)"
  by (simp add: replay_inv_def replay_new_def replay_ok_def)

lemma replay_star_steps:
  assumes "(replay_event U)\<^sup>*\<^sup>* (replay_new rec, False) s"
  shows "replay_inv s \<and> replay_steps (fst s) = rec_steps rec"
  using assms
proof (induction rule: rtranclp_induct)
  case base
  then show ?case using replay_new_inv by (simp add: replay_new_def)
next
  case (step s s')
  then show ?case using replay_event_inv [of U s s'] by (simp add: replay_moves_def)
qed

section \<open>Properties\<close>

text \<open>
  C39: A replaying run takes each saved step at most once and never out of order.  After any sequence of
  events the place in the recipe lies within it and never moves back, at most as many steps were
  replayed as were passed, and a step counts as replayed only when it was the one handed out, can
  be carried out again and was not passed yet; the machine then goes on after it.
\<close>

theorem replay_at_most_once:
  assumes "(replay_event U)\<^sup>*\<^sup>* (replay_new rec, False) (r, b)" and "replay_event U (r, b) (r', b')"
  shows "replay_steps r' = rec_steps rec
     \<and> replay_replayed r' \<le> replay_next r' \<and> replay_next r' \<le> length (rec_steps rec)
     \<and> replay_next r \<le> replay_next r'
     \<and> (replay_replayed r' \<noteq> replay_replayed r \<longrightarrow>
          (\<exists>i. replay_pending r = Some i \<and> replay_next r \<le> i \<and> replay_next r' = i + 1
               \<and> i < length (rec_steps rec) \<and> replayable (rec_steps rec ! i)))"
proof -
  have start: "replay_inv (r, b)" "replay_steps r = rec_steps rec" using replay_star_steps [OF assms(1)] by simp_all
  from replay_event_inv [OF assms(2) start(1)]
  have "replay_inv (r', b')" "replay_moves r r'" by simp_all
  then show ?thesis
    using start by (auto simp: replay_inv_def replay_ok_def replay_moves_def is_some_and_iff)
qed

definition example_button :: control where
  "example_button = control_new (lit ''7'') (lit ''button'') (lit ''Save'') [Op_Click]"

definition example_step :: recipe_step where
  "example_step =
     \<lparr>rs_operation = Op_Click,
      rs_page = \<lparr>rp_origin = lit ''https://a.example'', rp_path = lit ''/'', rp_query = None, rp_fragment = None\<rparr>,
      rs_target = Some (target_of example_crate example_button (lit ''https://a.example'')),
      rs_text = None, rs_option = None, rs_read_first = False, rs_replay = True\<rparr>"

definition example_recipe :: recipe where
  "example_recipe = \<lparr>rec_version = 1, rec_task = lit ''save it'', rec_start = None, rec_steps = [example_step]\<rparr>"

definition example_armed :: replay where
  "example_armed = snd (replay_ahead example_crate (lit ''https://a.example'') [example_button] (\<lambda>_. False) (replay_new example_recipe))"

theorem replay_at_most_once_witness:
  "replay_replayed (replay_settled True example_armed) = 1 \<and> replay_next (replay_settled True example_armed) = 1
   \<and> replay_steps (replay_settled True example_armed) = rec_steps example_recipe"
proof -
  have ne: "fst (replay_ahead example_crate (lit ''https://a.example'') [example_button] (\<lambda>_. False) (replay_new example_recipe)) \<noteq> None"
    by code_simp
  then obtain d where "replay_ahead example_crate (lit ''https://a.example'') [example_button] (\<lambda>_. False)
      (replay_new example_recipe) = (Some d, example_armed)"
    unfolding example_armed_def by (metis option.exhaust prod.collapse)
  then have taken: "replay_event example_crate (replay_new example_recipe, False) (example_armed, True)"
    by (rule replay_event.taken)
  have "replay_steps (replay_settled True example_armed) = rec_steps example_recipe"
    using replay_at_most_once [OF r_into_rtranclp [of "replay_event example_crate", OF taken] replay_event.settled [of _ _ True]] by simp
  moreover have "replay_replayed (replay_settled True example_armed) = 1" "replay_next (replay_settled True example_armed) = 1"
    by code_simp+
  ultimately show ?thesis by simp
qed

text \<open>
  What a run records, a later run finds.  When an executed click, Enter or Hover on a control is recorded,
  then a replay that has come to that step, on a page with the same address where exactly one offered
  control agrees with the recorded one and still offers the operation, hands out the same operation
  on that control, whatever its id is now; and when two offered controls agree, it hands out nothing.
\<close>

theorem recorded_step_replays:
  assumes "step_of U url d a source shows_secret = Some s"
    and "dec_operation d \<in> {Op_Click, Op_Enter, Op_Hover}" and "dec_target d = Some c" and "\<not> rs_read_first s"
    and "replay_next r < length (replay_steps r)" and "replay_steps r ! replay_next r = s"
    and "replay_next r \<notin> set (replay_failed r)"
    and "filter (\<lambda>x. target_of U x url = target_of U c url) offered = c' # rest" and "dec_operation d \<in> ctl_operations c'"
  shows "fst (replay_ahead U url offered missing r)
     = (if rest = [] then Some (ahead_decision s (Some c') offered) else None)"
proof -
  have s: "rs_operation s = dec_operation d" "rs_target s = Some (target_of U c url)"
    "page_of U url = Some (rs_page s)" "rs_replay s"
    using assms(1-3)
    by (auto simp: step_of_def saved_text_def REPLAYABLE_def Let_def split: if_splits option.splits)
  have match: "target_matches U (target_of U c url) x url \<longleftrightarrow> target_of U x url = target_of U c url" for x
    by (auto simp: target_matches_def target_of_def)
  have found: "find_target U (target_of U c url) offered url = (if rest = [] then Some c' else None)"
    using assms(8) by (simp add: find_target_def match split: list.splits)
  have live: "live_target U s offered url = (if rest = [] then Inr (Some c') else Inl ())"
    using s assms(9) found by (simp add: live_target_def)
  have "replayable s" using s assms(2) by (auto simp: replayable_def REPLAYABLE_def)
  moreover have "is_some_and (page_of U url) (page_matches (rs_page s))" using s(3) by (simp add: page_matches_def)
  moreover have "rs_operation s \<noteq> Op_Fill" using s assms(2) by auto
  ultimately show ?thesis
    using assms(4-7) live by (simp add: replay_ahead_def Let_def replay_replaced_def)
qed

definition example_click :: decision where
  "example_click = (ahead_decision example_step (Some example_button) [example_button])\<lparr>dec_replayed := False\<rparr>"

theorem recorded_step_replays_witness:
  "fst (replay_ahead example_crate (lit ''https://a.example'') [example_button\<lparr>ctl_id := lit ''9''\<rparr>] (\<lambda>_. False)
     (replay_new example_recipe))
   = Some (ahead_decision example_step (Some (example_button\<lparr>ctl_id := lit ''9''\<rparr>)) [example_button\<lparr>ctl_id := lit ''9''\<rparr>])"
proof -
  let ?url = "lit ''https://a.example''" and ?new = "example_button\<lparr>ctl_id := lit ''9''\<rparr>"
  have "step_of example_crate ?url example_click (act_new Op_Click) None (\<lambda>_. False) = Some example_step" by code_simp
  moreover have "filter (\<lambda>x. target_of example_crate x ?url = target_of example_crate example_button ?url) [?new] = [?new]"
    by code_simp
  ultimately show ?thesis
    using recorded_step_replays [of example_crate ?url example_click "act_new Op_Click" None "\<lambda>_. False" example_step
        example_button "replay_new example_recipe" "[?new]" ?new "[]" "\<lambda>_. False"]
    by (simp add: example_click_def ahead_decision_def example_step_def replay_new_def example_recipe_def
        example_button_def control_new_def)
qed

lemma target_texts_safe: "set (target_texts t) \<subseteq> set (safe_target_texts t)"
  by (cases "rt_context t"; cases "rt_href t"; cases "rt_input_type t"; cases "rt_input_name t"; cases "rt_frame_origin t")
    (simp_all add: target_texts_def safe_target_texts_def or_empty_def subset_eq)

lemma safe_steps_texts:
  assumes "s \<in> set (safe_steps saved shows_secret)"
  shows "(\<forall>t\<in>set (page_texts (rs_page s)). \<not> shows_secret t)
    \<and> (\<forall>target. rs_target s = Some target \<longrightarrow> (\<forall>t\<in>set (target_texts target). \<not> shows_secret t))
    \<and> (\<forall>t. rs_option s = Some t \<or> rs_text s = Some (Text_Literal t) \<longrightarrow> \<not> shows_secret t)"
proof -
  have safe: "safe_step shows_secret s" using assms by (simp add: safe_steps_def)
  have "\<forall>t\<in>set (page_texts (rs_page s)). \<not> shows_secret t" using safe by (auto simp: safe_step_def list_ex_iff)
  moreover have "\<not> shows_secret t" if "rs_target s = Some target" "t \<in> set (target_texts target)" for target t
    using safe that target_texts_safe [of target] by (auto simp: safe_step_def list_ex_iff)
  moreover have "\<not> shows_secret t" if "rs_option s = Some t \<or> rs_text s = Some (Text_Literal t)" for t
    using safe that by (auto simp: safe_step_def)
  ultimately show ?thesis by blast
qed

text \<open>
  C40: A stored recipe shows no resolved secret.  Whatever a run recorded and whenever a secret became
  known, the recipe it leaves has the caller's own task and start address, which redaction leaves
  unchanged, and in its steps no page address, no attribute of a control, no option and no typed text
  in which the redactor finds a secret; a filled secret appears by its name alone.  And what a fill
  into a sensitive field typed is never kept as text.
\<close>

theorem stored_recipe_hides_secrets:
  assumes "store_recipe (redact u U rd) (reveals u U rd) given_task started_url recipe_log = Some r"
  shows "rec_task r = given_task \<and> redact u U rd (rec_task r) = rec_task r
     \<and> (\<forall>url. rec_start r = Some url \<longrightarrow> started_url = Some url \<and> redact u U rd url = url)
     \<and> set (rec_steps r) \<subseteq> set recipe_log
     \<and> (\<forall>s\<in>set (rec_steps r).
          (\<forall>t\<in>set (page_texts (rs_page s)). \<not> reveals u U rd t)
          \<and> (\<forall>target. rs_target s = Some target \<longrightarrow> (\<forall>t\<in>set (target_texts target). \<not> reveals u U rd t))
          \<and> (\<forall>t. rs_option s = Some t \<or> rs_text s = Some (Text_Literal t) \<longrightarrow> \<not> reveals u U rd t))
     \<and> (\<forall>url d a source c t s. step_of U url d a source (reveals u U rd) = Some s \<and> dec_target d = Some c
          \<and> (ctl_sensitive c \<or> is_password c) \<and> rs_text s = Some (Text_Literal t) \<longrightarrow> False)"
proof -
  have r: "rec_task r = given_task" "redact u U rd given_task = given_task" "rec_start r = started_url"
    "map_option (redact u U rd) started_url = started_url" "rec_steps r = safe_steps recipe_log (reveals u U rd)"
    using assms by (auto simp: store_recipe_def split: if_splits)
  have start: "redact u U rd url = url" if "rec_start r = Some url" for url
    using r(3,4) that by (cases started_url) simp_all
  have sub: "set (rec_steps r) \<subseteq> set recipe_log" using r(5) by (auto simp: safe_steps_def)
  have typed: "False" if "step_of U url d a source (reveals u U rd) = Some s" "dec_target d = Some c"
      "ctl_sensitive c \<or> is_password c" "rs_text s = Some (Text_Literal t)" for url d a source c t s
    using that
    by (auto simp: step_of_def saved_text_def Let_def split: if_splits option.splits recipe_text.splits)
  show ?thesis
    using r(1-3) start sub typed safe_steps_texts [of _ recipe_log "reveals u U rd"] unfolding r(5) by blast
qed

theorem stored_recipe_hides_secrets_witness:
  "\<exists>r. store_recipe (redact ascii_tables example_crate example_redactor) (reveals ascii_tables example_crate example_redactor)
        (lit ''save it'') None [example_step, example_step\<lparr>rs_text := Some (Text_Literal (lit ''my tok''))\<rparr>] = Some r
     \<and> rec_steps r = [example_step] \<and> rec_task r = lit ''save it''"
proof -
  let ?log = "[example_step, example_step\<lparr>rs_text := Some (Text_Literal (lit ''my tok''))\<rparr>]"
  let ?red = "redact ascii_tables example_crate example_redactor" and ?rev = "reveals ascii_tables example_crate example_redactor"
  have "?red (lit ''save it'') = lit ''save it''" and steps: "safe_steps ?log ?rev = [example_step]" by code_simp+
  then obtain r where r: "store_recipe ?red ?rev (lit ''save it'') None ?log = Some r" "rec_steps r = [example_step]"
    by (simp add: store_recipe_def)
  then show ?thesis using stored_recipe_hides_secrets [OF r(1)] by blast
qed

end
