(* ===== verification/RunState.thy ===== *)
theory RunState
  imports Memory Recipes
begin

text \<open>
  \<^verbatim>\<open>crates/fastbrowse-agent/src/agent/state.rs\<close>: what one run keeps between steps and the stops a step
  can raise, with the types of \<^verbatim>\<open>policy.rs\<close>, \<^verbatim>\<open>retrieval\<close> and \<^verbatim>\<open>recovery.rs\<close> it holds.  A
  \<^verbatim>\<open>HashMap\<close> is a map, a \<^verbatim>\<open>HashSet\<close> a set, a \<^verbatim>\<open>Vec\<close> a list; the shared ledger is its value.
\<close>

section \<open>How a step is interrupted\<close>

datatype output_intent = Intent_Unknown | Intent_Text | Intent_Image | Intent_TextAndImage | Intent_CarriedOut

record stop =
  stop_status :: status
  stop_error :: "str option"
  stop_evidence :: "evidence list"
  stop_wall :: "wall_kind option"

definition stop_new :: "status \<Rightarrow> str \<Rightarrow> stop" where
  "stop_new st error = \<lparr>stop_status = st, stop_error = Some error, stop_evidence = [], stop_wall = None\<rparr>"

record unsure =
  unsure_reason :: str
  gives_up_as :: status

definition unsure_new :: "str \<Rightarrow> unsure" where
  "unsure_new why = \<lparr>unsure_reason = why, gives_up_as = Status_Stuck\<rparr>"

text \<open>
  Why a handler ends early.  \<open>Flow_Panic\<close> is no value of the source: it stands for an index out of range, where the
  code would panic, so that theorems can say a handler never does.
\<close>

datatype flow =
    Flow_Stop stop
  | Flow_Unsure unsure
  | Flow_Agent agent_error
  | Flow_Browser browser_error
  | Flow_Panic

definition flow_of_budget :: "budget_exceeded \<Rightarrow> flow" where
  "flow_of_budget e = Flow_Agent (Agent_Budget e)"

definition flow_of_decision :: "decision_error \<Rightarrow> flow" where
  "flow_of_decision e = Flow_Agent (Agent_Jev e)"

definition flow_of_llm :: "llm_error \<Rightarrow> flow" where
  "flow_of_llm e = Flow_Agent (agent_error_of_llm e)"

section \<open>Site failures\<close>

datatype failure_cause = Cause_Http int | Cause_Navigation str | Cause_Reported

record site_failure =
  failure_url :: str
  failure_cause :: failure_cause
  failure_since :: nat

definition failure_http :: "str \<Rightarrow> int \<Rightarrow> nat \<Rightarrow> site_failure" where
  "failure_http url st since = \<lparr>failure_url = url, failure_cause = Cause_Http st, failure_since = since\<rparr>"

definition failure_message :: "site_failure \<Rightarrow> str" where
  "failure_message f =
     (case failure_cause f of
        Cause_Http st \<Rightarrow>
          if st = 403
          then lit ''HTTP 403 at '' @ failure_url f @
               lit '': the site refused this browser session, which may be an access or bot check or a sign-in it requires.''
          else lit ''HTTP '' @ dec_int st @ lit '' at '' @ failure_url f @ lit '' in this browser session; the cause is unknown.''
      | Cause_Navigation e \<Rightarrow>
          lit ''opening '' @ failure_url f @ lit '' failed in this browser session: '' @ e @ lit ''.''
      | Cause_Reported \<Rightarrow>
          lit ''the page at '' @ failure_url f @ lit '' reported that the site failed to deliver what was asked.'')"

definition failure_stop :: "site_failure \<Rightarrow> stop" where
  "failure_stop f =
     stop_new
       (case failure_cause f of
          Cause_Http st \<Rightarrow>
            if st = 401 then Status_NeedsLogin
            else if st = 403 then Status_Blocked
            else if st \<in> {408, 419, 429} \<or> 500 \<le> st then Status_Unavailable
            else Status_Stuck
        | _ \<Rightarrow> Status_Unavailable)
       (lit ''Could not complete the task after '' @ failure_message f)"

definition transient :: "site_failure \<Rightarrow> bool" where
  "transient f \<longleftrightarrow> stop_status (failure_stop f) = Status_Unavailable"

section \<open>What was written into fields\<close>

record written =
  written_fields :: "str set"
  written_values :: "str set"

definition written_default :: written where
  "written_default = \<lparr>written_fields = {}, written_values = {}\<rparr>"

definition written_field :: "control \<Rightarrow> str" where
  "written_field c =
     json_write (JArray [JString (ctl_role c), JString (ctl_label c), json_text (ctl_context c),
                         json_text (ctl_input_name c)]) HTTPX"

definition written_key :: "control \<Rightarrow> str \<Rightarrow> str" where
  "written_key c v = written_field c @ [0] @ v"

definition written_record :: "control \<Rightarrow> str \<Rightarrow> written \<Rightarrow> written" where
  "written_record c v w =
     w\<lparr>written_fields := insert (written_field c) (written_fields w),
       written_values := insert (written_key c v) (written_values w)\<rparr>"

definition wrote :: "written \<Rightarrow> control \<Rightarrow> bool" where
  "wrote w c \<longleftrightarrow> written_field c \<in> written_fields w"

definition holds :: "written \<Rightarrow> control \<Rightarrow> str \<Rightarrow> bool" where
  "holds w c v \<longleftrightarrow> written_key c v \<in> written_values w"

section \<open>Types of other modules the state holds\<close>

record claim =
  claim_text :: str
  claim_evidence_ids :: "str list"

record composed_answer =
  composed_text :: str
  composed_linked :: str
  composed_claims :: "claim list"
  composed_citations :: "citation list"
  composed_problem :: "str option"

record relevance_cache =
  cache_context :: "(str \<times> str) option"
  cache_answers :: "str \<rightharpoonup> real"

text \<open>\<^verbatim>\<open>recovery.rs\<close>: the action a stall is about, and an action counted as moving nothing.\<close>

type_synonym withheld = "(operation \<times> str option) option"

record idle =
  idle_action :: withheld
  idle_outcome :: step_outcome

section \<open>The state\<close>

record run_state =
  task :: str
  run_replay :: "replay option"
  recipe_log :: "recipe_step list"
  text_source :: "recipe_text option"
  given_task :: str
  caller_context :: "str option"
  inputs :: "(str, str) index_map"
  attachments :: "attachment list"
  authority :: authorization
  run_ledger :: ledger
  run_memory :: run_notes
  challenge_reloads :: "str set"
  relevance :: relevance_cache
  taken_steps :: "step_result list"
  choices :: "step_choice list"
  history :: "history_entry list"
  site_failed :: "site_failure option"
  http_seen :: "(str \<times> str \<times> int) set"
  hint :: "str option"
  picked :: "(str \<times> decision) option"
  unchanged :: int
  written_at :: "str \<rightharpoonup> written"
  recoveries :: int
  blank_opening_checked :: bool
  blank_waited :: "(str \<times> str) set"
  hung_page_reopened :: bool
  last_page :: "(str \<times> str) option"
  navigation_from :: "((str \<times> str) \<times> observation) option"
  login_readings :: "(str \<times> str) \<rightharpoonup> real"
  reached :: "str \<rightharpoonup> nat"
  evidence_reads :: nat
  landing :: "withheld option"
  idle_actions :: "idle list"
  acted_from :: "observation option"
  downloads_forbidden_kept :: "bool option"
  read_documents :: "(str \<times> str) \<rightharpoonup> bool"
  unanswered_images :: "str set"
  changed_page :: "(str \<times> str) option"
  page_failed :: bool
  compose :: bool
  extraction_pending :: bool
  composition_feedback :: "str option"
  composition_partial :: "(composed_answer \<times> (fact \<times> bool) list) option"
  read_whole :: "capture list"
  to_carry_out :: bool
  intent :: output_intent
  appearance :: bool
  every_page :: bool
  pager_pages :: "str list"
  pager_start :: "str option"
  pager_followed :: "str set"
  fetched :: "str set"
  committing :: bool
  read_pages :: "str set"
  read_urls :: "str set"
  followed :: "str option"
  arrived_by :: "((str \<times> str) \<times> str) option"
  started_url :: "str option"
  caller_start :: "str option"
  start_landing_url :: "str option"
  first_url :: "str option"
  redecided :: bool
  missing :: "(str \<times> str \<times> str option) set"

end
