(* ===== verification/StateOps.thy ===== *)
theory StateOps
  imports RunState
begin

text \<open>
  \<^verbatim>\<open>crates/fastbrowse-agent/src/agent/state.rs\<close>: the operations of \<^verbatim>\<open>RunState\<close>, with the page slices and the
  whole-page facts of \<^verbatim>\<open>retrieval\<close> they use.
\<close>

section \<open>Pages as notes\<close>

definition page_clamp :: "capture \<Rightarrow> int \<Rightarrow> nat" where
  "page_clamp c k = nat (max 0 (min k (int (length (cap_text c)))))"

definition page_slice :: "capture \<Rightarrow> int \<Rightarrow> int \<Rightarrow> str" where
  "page_slice c start stop =
     (let a = page_clamp c start; b = page_clamp c stop
      in if b \<le> a then [] else take (b - a) (drop a (cap_text c)))"

definition evidence_of :: "capture \<Rightarrow> block \<Rightarrow> int \<Rightarrow> int \<Rightarrow> evidence" where
  "evidence_of c b start stop =
     \<lparr>ev_source_id = blk_source_id b,
      ev_url = (case blk_source_url b of Some url \<Rightarrow> url | None \<Rightarrow> cap_url c),
      ev_frame_id = blk_frame_id b, ev_captured_at = cap_captured_at c, ev_capture_sha256 = cap_sha256 c,
      ev_start = start, ev_end = stop, ev_quote = page_slice c start stop,
      ev_complete_source =
        (blk_complete_source b \<and> blk_start b \<le> start \<and> start < stop \<and> stop \<le> blk_end b
         \<and> strip (page_slice c (blk_start b) start) = [] \<and> strip (page_slice c stop (blk_end b)) = []),
      ev_control_context = blk_control_context b,
      ev_rendered_text =
        (\<not> list_ex (\<lambda>item. blk_kind item = Block_Observation \<and> blk_start item < stop \<and> start < blk_end item) (cap_blocks c)),
      ev_heading_path = blk_heading_path b, ev_capture_artifact = None\<rparr>"

definition whole_page_facts :: "capture \<Rightarrow> fact list" where
  "whole_page_facts c =
     map (\<lambda>b. let q = evidence_of c b (blk_start b) (blk_end b)
              in fact_read (strip (ev_quote q)) q Reader_JevChoice)
       (filter (\<lambda>b. strip (page_slice c (blk_start b) (blk_end b)) \<noteq> []) (cap_blocks c))"

definition page_quotes :: "capture \<Rightarrow> evidence list" where
  "page_quotes c =
     map (\<lambda>b. evidence_of c b (blk_start b) (blk_end b))
       (filter (\<lambda>b. blk_kind b \<noteq> Block_Observation \<and> blk_source_url b = None
                    \<and> strip (page_slice c (blk_start b) (blk_end b)) \<noteq> []) (cap_blocks c))"

section \<open>Inputs in the task\<close>

text \<open>\<^verbatim>\<open>max_by_key(|(name, _)| name.len())\<close>: the last of the longest.\<close>

fun longest_name :: "(str \<times> str) list \<Rightarrow> (str \<times> str) option" where
  "longest_name [] = None"
| "longest_name (p # ps) =
     (case longest_name ps of
        None \<Rightarrow> Some p
      | Some q \<Rightarrow> if length (fst p) \<le> length (fst q) then Some q else Some p)"

definition starts_word :: "unicode_tables \<Rightarrow> str \<Rightarrow> bool" where
  "starts_word u s = (case s of [] \<Rightarrow> False | c # _ \<Rightarrow> is_word u c)"

definition named_input ::
  "unicode_tables \<Rightarrow> (str, str) index_map \<Rightarrow> uchar option \<Rightarrow> str \<Rightarrow> (str \<times> str) option" where
  "named_input u ins before rest =
     (if is_some_and before (is_word u) then None
      else longest_name (filter (\<lambda>(name, _). prefix name rest \<and> \<not> starts_word u (drop (length name) rest)) ins))"

definition INPUT_WORD :: str where
  "INPUT_WORD = lit ''input ''"

lemma find_str_bound: "find_str p s = Some k \<Longrightarrow> k + length p \<le> length s"
  using find_str_Some [of p s k] prefix_length_le [of p "drop k s"] by auto

text \<open>
  The loop of \<^verbatim>\<open>with_inputs\<close>: \<open>before\<close> is the character before the rest of the task.
\<close>

function show_inputs :: "unicode_tables \<Rightarrow> (str, str) index_map \<Rightarrow> uchar option \<Rightarrow> str \<Rightarrow> str" where
  "show_inputs u ins before rest =
     (case find_str INPUT_WORD rest of
        None \<Rightarrow> rest
      | Some k \<Rightarrow>
          let name_at = k + length INPUT_WORD;
              ahead = drop name_at rest;
              previous = (if k = 0 then before else Some (rest ! (k - 1)))
          in case named_input u ins previous ahead of
               Some (name, v) \<Rightarrow>
                 let stop = name_at + length name
                 in take stop rest @ lit '' ('' @ v @ lit '')'' @ show_inputs u ins (Some (rest ! (stop - 1))) (drop stop rest)
             | None \<Rightarrow> take name_at rest @ show_inputs u ins (Some (rest ! (name_at - 1))) ahead)"
  by pat_completeness auto

termination show_inputs
  by (relation "measure (\<lambda>(_, _, _, rest). length rest)") (auto simp: INPUT_WORD_def lit_def dest: find_str_bound)

declare show_inputs.simps [simp del]

definition with_inputs :: "unicode_tables \<Rightarrow> str \<Rightarrow> (str, str) index_map \<Rightarrow> str" where
  "with_inputs u t ins = show_inputs u ins None t"

section \<open>A new state\<close>

definition run_state_new ::
  "unicode_tables \<Rightarrow> str \<Rightarrow> (str, str) index_map \<Rightarrow> attachment list \<Rightarrow> authorization \<Rightarrow> ledger \<Rightarrow> run_state" where
  "run_state_new u t ins files auth L =
     \<lparr>task = with_inputs u t ins, run_replay = None, recipe_log = [], text_source = None, given_task = t,
      caller_context = None, inputs = ins, attachments = files, authority = auth, run_ledger = L,
      run_memory = notes_default, challenge_reloads = {},
      relevance = \<lparr>cache_context = None, cache_answers = Map.empty\<rparr>,
      taken_steps = [], choices = [], history = [], site_failed = None, http_seen = {}, hint = None, picked = None,
      unchanged = 0, written_at = Map.empty, recoveries = 0, blank_opening_checked = False, blank_waited = {},
      hung_page_reopened = False, last_page = None, navigation_from = None, login_readings = Map.empty,
      reached = Map.empty, evidence_reads = 0, landing = None, idle_actions = [], acted_from = None,
      downloads_forbidden_kept = None, read_documents = Map.empty, unanswered_images = {}, changed_page = None,
      page_failed = False, compose = False, extraction_pending = False, composition_feedback = None,
      composition_partial = None, read_whole = [], to_carry_out = False, intent = Intent_Unknown,
      appearance = False, every_page = False, pager_pages = [], pager_start = None, pager_followed = {},
      fetched = {}, committing = False, read_pages = {}, read_urls = {}, followed = None, arrived_by = None,
      started_url = None, caller_start = None, start_landing_url = None, first_url = None, redecided = False,
      missing = {}\<rparr>"

text \<open>What a run that moves from fetching to a browser keeps.\<close>

definition carried_on :: "ledger \<Rightarrow> run_state \<Rightarrow> run_state" where
  "carried_on L s =
     s\<lparr>run_ledger := L, fetched := read_urls s, picked := None, landing := None, idle_actions := [],
       acted_from := None, followed := None, changed_page := None, unchanged := 0, committing := False,
       redecided := False, last_page := None, navigation_from := None\<rparr>"

section \<open>Reads\<close>

definition reload_target :: "run_state \<Rightarrow> str \<Rightarrow> str option" where
  "reload_target s url =
     (case site_failed s of
        Some f \<Rightarrow> if failure_url f = url \<and> transient f then Some (failure_url f) else None
      | None \<Rightarrow> None)"

definition read_note :: "run_state \<Rightarrow> str" where
  "read_note s =
     (if answered (run_memory s) then lit ''Read this content. The notes hold evidence that answers the task.''
      else if compose s \<and> (notes_evidence (run_memory s) \<noteq> [] \<or> read_whole s \<noteq> [])
        then lit ''Read this content. The notes hold source material for an answer that still needs composing.''
      else lit ''Read this content. The notes hold nothing that answers the task.'')"

definition composition_sources :: "(nat list \<Rightarrow> str) \<Rightarrow> run_notes \<Rightarrow> (fact \<times> bool) list" where
  "composition_sources sha n = map (\<lambda>(_, f). (f, superseded n (fact_id sha f))) (facts n)"

definition checked_composition :: "(nat list \<Rightarrow> str) \<Rightarrow> run_state \<Rightarrow> run_notes \<Rightarrow> composed_answer option" where
  "checked_composition sha s n =
     (case composition_partial s of
        None \<Rightarrow> None
      | Some (partial, sources) \<Rightarrow>
          if composed_claims partial \<noteq> [] \<and> sources = composition_sources sha n then Some partial else None)"

definition record_read ::
  "(nat list \<Rightarrow> str) \<Rightarrow> unicode_tables \<Rightarrow> capture \<Rightarrow> fact list \<Rightarrow> bool \<Rightarrow> run_state \<Rightarrow> run_state" where
  "record_read sha u c fs composing s =
     (let n = foldl (\<lambda>n f. snd (notes_add sha f n)) (remember_capture c (run_memory s)) fs;
          whole = filter (\<lambda>r. address (cap_url r) \<noteq> address (cap_url c)) (read_whole s);
          whole = (if \<not> composing \<and> fs \<noteq> [] then whole @ [c] else whole);
          n = (if fs \<noteq> [] then supersede u (cap_url c) (cap_sha256 c) (cap_text c) n else n)
      in s\<lparr>run_memory := n, read_whole := whole\<rparr>)"

definition notes_to_compose :: "(nat list \<Rightarrow> str) \<Rightarrow> run_state \<Rightarrow> run_notes" where
  "notes_to_compose sha s =
     foldl (\<lambda>n f. snd (notes_add sha f n)) (run_memory s) (concat (map whole_page_facts (read_whole s)))"

text \<open>What a read is filed under: the document, and its address within it.\<close>

definition read_key :: "observation \<Rightarrow> str \<times> str" where
  "read_key obs = (obs_document_key obs, obs_url obs)"

definition settle_change :: "observation \<Rightarrow> run_state \<Rightarrow> run_state" where
  "settle_change landed s =
     (case changed_page s of
        None \<Rightarrow> s
      | Some page \<Rightarrow>
          let s' = s\<lparr>changed_page := None\<rparr> in
          if page = read_key landed \<and> read_documents s page \<noteq> None
          then s'\<lparr>read_documents := (read_documents s)(page \<mapsto> True)\<rparr> else s')"

definition mark_read :: "observation \<Rightarrow> run_state \<Rightarrow> run_state" where
  "mark_read obs s =
     (let page = read_key obs;
          urls = (case arrived_by s of
                    Some (landed, href) \<Rightarrow> if landed = page then insert href (read_urls s) else read_urls s
                  | None \<Rightarrow> read_urls s)
      in s\<lparr>read_documents := (read_documents s)(page \<mapsto> False),
           read_pages := insert (obs_page_key obs) (read_pages s),
           read_urls := insert (obs_url obs) urls\<rparr>)"

section \<open>Lists over several pages\<close>

text \<open>
  \<^verbatim>\<open>Url::origin\<close> equality: an opaque origin, written \<^verbatim>\<open>null\<close>, equals no other.
\<close>

definition same_origin :: "url_parts \<Rightarrow> url_parts \<Rightarrow> bool" where
  "same_origin a b \<longleftrightarrow> url_origin a = url_origin b \<and> url_origin a \<noteq> lit ''null''"

definition next_pages :: "url_crate \<Rightarrow> url_parts \<Rightarrow> observation \<Rightarrow> str list" where
  "next_pages U here obs =
     map url_text
       (filter (\<lambda>page. same_origin page here)
          (List.map_filter (\<lambda>c. case ctl_href c of Some href \<Rightarrow> url_join U here href | None \<Rightarrow> None)
             (filter pager_link (obs_controls obs))))"

definition push_new :: "'a list \<Rightarrow> 'a \<Rightarrow> 'a list" where
  "push_new xs x = (if x \<in> set xs then xs else xs @ [x])"

text \<open>The start and the pages of the list in view, after a page at \<open>here\<close> that names next pages.\<close>

definition list_after :: "str \<Rightarrow> str option \<Rightarrow> str list \<Rightarrow> str option \<Rightarrow> str list \<Rightarrow> str option \<times> str list" where
  "list_after here requested named start noted =
     (let known = (\<lambda>page. start = Some page \<or> page \<in> set noted);
          continues = (known here \<or> is_some_and requested known);
          (start', noted') =
            (if named \<noteq> [] \<and> \<not> continues then (Some here, [])
             else if continues \<and> requested \<noteq> None \<and> here \<notin> set noted then (start, noted @ [here])
             else (start, noted))
      in (start', foldl push_new noted' named))"

definition note_pager_pages :: "url_crate \<Rightarrow> observation \<Rightarrow> run_state \<Rightarrow> run_state" where
  "note_pager_pages U obs s =
     (case url_parse U (obs_url obs) of
        None \<Rightarrow> s
      | Some here \<Rightarrow>
          let requested = (case arrived_by s of
                             Some (landed, href) \<Rightarrow> if landed = read_key obs then Some href else None
                           | None \<Rightarrow> None);
              r = list_after (url_text here) requested (next_pages U here obs) (pager_start s) (pager_pages s)
          in s\<lparr>pager_start := fst r, pager_pages := snd r\<rparr>)"

definition unread_list_pages :: "run_state \<Rightarrow> str list" where
  "unread_list_pages s =
     (let pages_of_list = map address ((case pager_start s of Some p \<Rightarrow> [p] | None \<Rightarrow> []) @ pager_pages s);
          noted = list_ex (\<lambda>(_, f). is_some_and (fact_evidence f) (\<lambda>e. address (ev_url e) \<in> set pages_of_list))
                    (facts (run_memory s))
      in filter (\<lambda>page. noted \<and> page \<notin> read_urls s) (pager_pages s))"

definition unread_pager_page :: "run_state \<Rightarrow> str option" where
  "unread_pager_page s = find (\<lambda>page. page \<notin> pager_followed s) (unread_list_pages s)"

definition mark_read_links :: "url_crate \<Rightarrow> run_state \<Rightarrow> observation \<Rightarrow> observation" where
  "mark_read_links U s obs =
     (let here = url_parse U (obs_url obs);
          leads_to = (\<lambda>c. case (ctl_href c, here) of (Some href, Some h) \<Rightarrow> url_join U h href | _ \<Rightarrow> None)
      in obs\<lparr>obs_controls :=
               map (\<lambda>c. if is_some_and (leads_to c) (\<lambda>url. url_text url \<in> read_urls s)
                        then c\<lparr>ctl_already_read := Some True\<rparr> else c) (obs_controls obs)\<rparr>)"

section \<open>Fields and values\<close>

definition same_field :: "control \<Rightarrow> control \<Rightarrow> bool" where
  "same_field a b \<longleftrightarrow>
     ctl_role a = ctl_role b \<and> ctl_label a = ctl_label b \<and> ctl_context a = ctl_context b
     \<and> ctl_input_name a = ctl_input_name b"

definition scalar_field :: "control \<Rightarrow> bool" where
  "scalar_field c \<longleftrightarrow>
     list_all scalar (ctl_role c) \<and> list_all scalar (ctl_label c)
     \<and> (case ctl_context c of Some s \<Rightarrow> list_all scalar s | None \<Rightarrow> True)
     \<and> (case ctl_input_name c of Some s \<Rightarrow> list_all scalar s | None \<Rightarrow> True)"

definition written_json :: "control \<Rightarrow> json" where
  "written_json c =
     JArray [JString (ctl_role c), JString (ctl_label c), json_text (ctl_context c), json_text (ctl_input_name c)]"

lemma plain_written_json: "scalar_field c \<Longrightarrow> plain_json (written_json c)"
  by (auto simp: written_json_def scalar_field_def json_text_def split: option.splits)

lemma written_field_append:
  assumes "scalar_field a" and "scalar_field b" and "written_field a @ x = written_field b @ y"
  shows "same_field a b \<and> x = y"
proof -
  have "written_json a = written_json b \<and> x = y"
    using assms(3) write_value_inj [OF _ plain_written_json [OF assms(1)] plain_written_json [OF assms(2)], of HTTPX 0 x 0 y]
    by (simp add: written_field_def written_json_def json_write_def del: write_value.simps)
  then show ?thesis by (simp add: written_json_def same_field_def)
qed

lemma written_field_eq:
  assumes "scalar_field a" and "scalar_field b"
  shows "written_field a = written_field b \<longleftrightarrow> same_field a b"
  using written_field_append [OF assms, of "[]" "[]"] by (auto simp: same_field_def written_field_def)

lemma written_key_eq:
  assumes "scalar_field a" and "scalar_field b"
  shows "written_key a v = written_key b w \<longleftrightarrow> same_field a b \<and> v = w"
  using written_field_append [OF assms, of "0 # v" "0 # w"] written_field_eq [OF assms]
  by (auto simp: written_key_def)

lemma written_foldl:
  "written_fields (foldl (\<lambda>w (c, v). written_record c v w) w ws)
     = written_fields w \<union> (\<lambda>(c, v). written_field c) ` set ws"
  "written_values (foldl (\<lambda>w (c, v). written_record c v w) w ws)
     = written_values w \<union> (\<lambda>(c, v). written_key c v) ` set ws"
  by (induction ws arbitrary: w) (auto simp: written_record_def)

text \<open>
  C7: What a form received is told apart exactly.  After any sequence of writes, a field counts as written
  exactly when a write went to a field with the same role, label, context and name, whatever its
  element was, and as holding a value exactly when such a write had that very value.
\<close>

theorem written_exact:
  assumes "list_all (\<lambda>(c, _). scalar_field c) ws" and "scalar_field c"
  defines "w \<equiv> foldl (\<lambda>w (c, v). written_record c v w) written_default ws"
  shows "(wrote w c \<longleftrightarrow> list_ex (\<lambda>(a, _). same_field a c) ws)
     \<and> (holds w c v \<longleftrightarrow> list_ex (\<lambda>(a, b). same_field a c \<and> b = v) ws)"
proof -
  have sc: "scalar_field a" if "(a, b) \<in> set ws" for a b using assms(1) that by (auto simp: list_all_iff)
  have "wrote w c \<longleftrightarrow> (\<exists>(a, b)\<in>set ws. written_field c = written_field a)"
    by (auto simp: w_def wrote_def written_foldl written_default_def)
  also have "\<dots> \<longleftrightarrow> (\<exists>(a, b)\<in>set ws. same_field a c)"
    by (intro bex_cong refl) (use sc written_field_eq [OF _ assms(2)] in \<open>auto simp: eq_commute [of "written_field c"]\<close>)
  finally have 1: "wrote w c \<longleftrightarrow> list_ex (\<lambda>(a, _). same_field a c) ws" by (simp add: list_ex_iff)
  have "holds w c v \<longleftrightarrow> (\<exists>(a, b)\<in>set ws. written_key c v = written_key a b)"
    by (auto simp: w_def holds_def written_foldl written_default_def)
  also have "\<dots> \<longleftrightarrow> (\<exists>(a, b)\<in>set ws. same_field a c \<and> b = v)"
    by (intro bex_cong refl) (use sc written_key_eq [OF _ assms(2)] in \<open>auto simp: eq_commute [of "written_key c v"]\<close>)
  finally show ?thesis using 1 by (simp add: list_ex_iff)
qed

theorem written_exact_witness:
  "let box = control_new (lit ''4'') (lit ''textbox'') (lit ''City'') [Op_Fill];
       w = foldl (\<lambda>w (c, v). written_record c v w) written_default [(box, lit ''Paris'')]
   in wrote w (box\<lparr>ctl_id := lit ''9''\<rparr>) \<and> holds w (box\<lparr>ctl_id := lit ''9''\<rparr>) (lit ''Paris'')
      \<and> \<not> holds w box (lit ''Rome'') \<and> \<not> wrote w (box\<lparr>ctl_label := lit ''Town''\<rparr>)"
proof -
  let ?box = "control_new (lit ''4'') (lit ''textbox'') (lit ''City'') [Op_Fill]"
  have sc: "list_all (\<lambda>(c, _). scalar_field c) [(?box, lit ''Paris'')]" "scalar_field (?box\<lparr>ctl_id := lit ''9''\<rparr>)"
    "scalar_field ?box" "scalar_field (?box\<lparr>ctl_label := lit ''Town''\<rparr>)" by code_simp+
  have same: "same_field ?box (?box\<lparr>ctl_id := lit ''9''\<rparr>)" "\<not> same_field ?box (?box\<lparr>ctl_label := lit ''Town''\<rparr>)"
    "lit ''Paris'' \<noteq> lit ''Rome''" by code_simp+
  show ?thesis
    using written_exact [OF sc(1,2), of "lit ''Paris''"] written_exact [OF sc(1,3), of "lit ''Rome''"]
      written_exact [OF sc(1,4), of "[]"] same by (simp add: Let_def)
qed

section \<open>The invariant of a run\<close>

definition run_ok :: "(nat list \<Rightarrow> str) \<Rightarrow> run_state \<Rightarrow> bool" where
  "run_ok sha s \<longleftrightarrow>
     notes_ok sha (run_memory s)
     \<and> distinct (map (\<lambda>c. address (cap_url c)) (read_whole s))
     \<and> distinct (pager_pages s) \<and> (pager_pages s = [] \<or> pager_start s \<noteq> None)
     \<and> (\<forall>doc url. read_documents s (doc, url) \<noteq> None \<longrightarrow> url \<in> read_urls s)
     \<and> (pager_followed s \<noteq> {} \<longrightarrow> pager_start s \<noteq> None)"

text \<open>
  What a step does to the reads and the lists of a run.  \<open>opened\<close> is the first act of
  \<^verbatim>\<open>Agent::open_unread_page\<close>; every other part of the code leaves these fields as they are.
\<close>

inductive run_event :: "(nat list \<Rightarrow> str) \<Rightarrow> unicode_tables \<Rightarrow> url_crate \<Rightarrow> run_state \<Rightarrow> run_state \<Rightarrow> bool"
  for sha u U where
  read: "run_event sha u U s (record_read sha u c fs composing s)"
| noted: "notes_step sha u (run_memory s) n \<Longrightarrow> run_event sha u U s (s\<lparr>run_memory := n\<rparr>)"
| cleared: "run_event sha u U s (s\<lparr>run_memory := notes_default\<rparr>)"
| settled: "run_event sha u U s (settle_change obs s)"
| marked: "run_event sha u U s (mark_read obs s)"
| listed: "run_event sha u U s (note_pager_pages U obs s)"
| opened: "unread_pager_page s = Some page \<Longrightarrow> run_event sha u U s (s\<lparr>pager_followed := insert page (pager_followed s)\<rparr>)"
| carried: "run_event sha u U s (carried_on L s)"

lemma notes_ok_adds: "notes_ok sha n \<Longrightarrow> notes_ok sha (foldl (\<lambda>n f. snd (notes_add sha f n)) n fs)"
  by (induction fs arbitrary: n) (simp_all add: notes_ok_add)

lemma notes_ok_remember: "notes_ok sha n \<Longrightarrow> notes_ok sha (remember_capture c n)"
  using notes_step_ok notes_step.remember by blast

lemma record_read_ok:
  assumes "run_ok sha s"
  shows "run_ok sha (record_read sha u c fs composing s)"
proof -
  let ?s = "record_read sha u c fs composing s"
  have "notes_ok sha (run_memory s)" using assms by (simp add: run_ok_def)
  then have "notes_ok sha (run_memory ?s)"
    by (simp add: record_read_def Let_def notes_ok_adds notes_ok_remember notes_ok_supersede)
  moreover have "distinct (map (\<lambda>c. address (cap_url c)) (read_whole ?s))"
  proof -
    have "distinct (map (\<lambda>c. address (cap_url c)) (filter P (read_whole s)))" for P
      using assms by (simp add: run_ok_def distinct_map_filter)
    then show ?thesis by (auto simp: record_read_def Let_def)
  qed
  ultimately show ?thesis using assms by (simp add: run_ok_def record_read_def Let_def)
qed

lemma push_new_distinct: "distinct xs \<Longrightarrow> distinct (foldl push_new xs ys)"
  by (induction ys arbitrary: xs) (auto simp: push_new_def)

lemma push_new_set: "set (foldl push_new xs ys) = set xs \<union> set ys"
  by (induction ys arbitrary: xs) (auto simp: push_new_def)

lemma push_new_Nil: "foldl push_new xs ys = [] \<longleftrightarrow> xs = [] \<and> ys = []"
  by (simp add: push_new_set flip: set_empty)

lemma note_pager_pages_frame:
  "run_memory (note_pager_pages U obs s) = run_memory s" "read_whole (note_pager_pages U obs s) = read_whole s"
  "read_documents (note_pager_pages U obs s) = read_documents s" "read_urls (note_pager_pages U obs s) = read_urls s"
  "pager_followed (note_pager_pages U obs s) = pager_followed s"
  by (simp_all add: note_pager_pages_def Let_def split: option.splits)

lemma list_after_ok:
  assumes "distinct noted" and "noted = [] \<or> start \<noteq> None"
    and "list_after here requested named start noted = r"
  shows "distinct (snd r)" and "snd r = [] \<or> fst r \<noteq> None" and "start \<noteq> None \<longrightarrow> fst r \<noteq> None"
  using assms(1,2) push_new_distinct [of "[]" named] push_new_distinct [of noted named] push_new_distinct [of "noted @ [here]" named]
  unfolding assms(3) [symmetric] by (auto simp: list_after_def Let_def push_new_Nil is_some_and_iff)

lemma note_pager_pages_list:
  assumes "distinct (pager_pages s)" and "pager_pages s = [] \<or> pager_start s \<noteq> None"
  shows "distinct (pager_pages (note_pager_pages U obs s))
    \<and> (pager_pages (note_pager_pages U obs s) = [] \<or> pager_start (note_pager_pages U obs s) \<noteq> None)
    \<and> (pager_start s \<noteq> None \<longrightarrow> pager_start (note_pager_pages U obs s) \<noteq> None)"
  using list_after_ok [OF assms refl] assms by (simp add: note_pager_pages_def Let_def split: option.split)

lemma note_pager_pages_ok: "run_ok sha s \<Longrightarrow> run_ok sha (note_pager_pages U obs s)"
  unfolding run_ok_def note_pager_pages_frame using note_pager_pages_list [of s U obs] by blast

lemma opened_ok:
  assumes "run_ok sha s" and "unread_pager_page s = Some page"
  shows "run_ok sha (s\<lparr>pager_followed := insert page (pager_followed s)\<rparr>)"
proof -
  have "page \<in> set (pager_pages s)"
    using assms(2) by (auto simp: unread_pager_page_def unread_list_pages_def Let_def find_Some_iff dest!: nth_mem)
  then show ?thesis using assms(1) by (auto simp: run_ok_def)
qed

lemma run_event_ok: "run_event sha u U s s' \<Longrightarrow> run_ok sha s \<Longrightarrow> run_ok sha s'"
proof (induction rule: run_event.induct)
  case (noted s n)
  then show ?case using notes_step_ok [of sha u "run_memory s" n] by (simp add: run_ok_def)
next
  case (settled s obs)
  then show ?case by (auto simp: run_ok_def settle_change_def Let_def read_key_def split: option.splits)
next
  case (marked s obs)
  then show ?case by (auto simp: run_ok_def mark_read_def Let_def read_key_def split: option.splits)
qed (simp_all add: record_read_ok note_pager_pages_ok opened_ok, simp_all add: run_ok_def notes_ok_default carried_on_def)

interpretation run_inv: stable_predicate "run_event sha u U" "run_ok sha"
  by unfold_locales (rule run_event_ok)


definition example_pager :: control where
  "example_pager = (control_new (lit ''3'') (lit ''link'') (lit ''Next'') [Op_Click])
     \<lparr>ctl_href := Some (lit ''/2''), ctl_next_page := Some True\<rparr>"

definition example_crate_pages :: url_crate where
  "example_crate_pages = example_crate\<lparr>url_join := (\<lambda>base href. Some (base\<lparr>url_text := url_origin base @ href\<rparr>))\<rparr>"

definition example_state :: run_state where
  "example_state = run_state_new ascii_tables (lit ''count them'') [] [] \<lparr>irreversible_actions = False\<rparr>
     (ledger_new \<lparr>max_steps = None, max_jev_calls = None, max_llm_calls = None, max_dollars = None, max_seconds = None\<rparr> 0)"

definition example_list_page :: observation where
  "example_list_page = (example_observation [example_pager] (lit ''1''))\<lparr>obs_url := lit ''https://a.example''\<rparr>"

definition example_listed :: run_state where
  "example_listed = note_pager_pages example_crate_pages example_list_page (mark_read example_list_page example_state)"

lemma example_listed_run: "(run_event sha ascii_tables example_crate_pages)\<^sup>*\<^sup>* example_state example_listed"
  unfolding example_listed_def
  by (rule converse_rtranclp_into_rtranclp [OF run_event.marked r_into_rtranclp [of "run_event _ _ _", OF run_event.listed]])


lemma run_event_followed: "run_event sha u U s s' \<Longrightarrow> page \<in> pager_followed s \<Longrightarrow> page \<in> pager_followed s'"
  by (induction rule: run_event.induct)
    (simp_all add: record_read_def Let_def settle_change_def mark_read_def note_pager_pages_frame carried_on_def
      split: option.split)

interpretation followed_inv: stable_predicate "run_event sha u U" "\<lambda>s. page \<in> pager_followed s"
  by unfold_locales (rule run_event_followed)

lemma unread_pager_page_SomeD:
  assumes "unread_pager_page s = Some page"
  shows "page \<in> set (pager_pages s)" "page \<notin> read_urls s" "page \<notin> pager_followed s"
  using assms unfolding unread_pager_page_def find_Some_iff
  by (auto simp: unread_list_pages_def Let_def split: if_splits dest!: nth_mem)

text \<open>
  C9: A task over a whole list opens each page the list names at most once.  The page a run turns to is one the
  list named, not read and not opened for the list before; and whatever the run does after opening
  it, also when the page failed or it moved to a browser, it is never the page to turn to again.
\<close>

theorem pager_page_opened_once:
  assumes "unread_pager_page s = Some page"
    and "(run_event sha u U)\<^sup>*\<^sup>* (s\<lparr>pager_followed := insert page (pager_followed s)\<rparr>) s'"
  shows "page \<in> set (pager_pages s) \<and> page \<notin> read_urls s \<and> page \<notin> pager_followed s
     \<and> unread_pager_page s' \<noteq> Some page"
proof -
  have "page \<in> pager_followed s'" using followed_inv.stable_star [OF assms(2)] by simp
  then show ?thesis using unread_pager_page_SomeD [OF assms(1)] unread_pager_page_SomeD(3) [of s' page] by blast
qed

definition example_listed_noted :: run_state where
  "example_listed_noted = example_listed\<lparr>run_memory := snd (notes_add (take 4)
     (fact_read (lit ''x'')
        (evidence_of \<lparr>cap_url = lit ''https://a.example/'', cap_title = [], cap_captured_at = from_timestamp 0 0,
            cap_sha256 = [], cap_text = lit ''x'', cap_blocks = [], cap_inaccessible_frames = 0\<rparr>
          \<lparr>blk_source_id = [], blk_source_url = None, blk_complete_source = True, blk_kind = Block_Paragraph,
            blk_frame_id = None, blk_start = 0, blk_end = 1, blk_heading_path = [], blk_control_context = None,
            blk_href = None, blk_list_id = None, blk_list_count = None, blk_list_frameless = False\<rparr> 0 1)
        Reader_JevChoice) notes_default)\<rparr>"

theorem pager_page_opened_once_witness:
  "unread_pager_page example_listed_noted = Some (lit ''https://a.example/2'')
   \<and> unread_pager_page (carried_on (run_ledger example_listed_noted)
       (example_listed_noted\<lparr>pager_followed := insert (lit ''https://a.example/2'') (pager_followed example_listed_noted)\<rparr>))
     \<noteq> Some (lit ''https://a.example/2'')"
proof -
  have unread: "unread_pager_page example_listed_noted = Some (lit ''https://a.example/2'')" by code_simp
  show ?thesis
    using unread pager_page_opened_once [OF unread r_into_rtranclp [of "run_event (take 4) ascii_tables example_crate_pages",
        OF run_event.carried]] by blast
qed

section \<open>Inputs shown in the task\<close>

lemma longest_name_in: "longest_name ps = Some p \<Longrightarrow> p \<in> set ps"
  by (induction ps) (auto split: option.splits if_splits)

text \<open>An insertion is the value of an input named by the words before it.\<close>

definition input_insertion :: "(str, str) index_map \<Rightarrow> str \<times> str \<Rightarrow> bool" where
  "input_insertion ins p \<longleftrightarrow>
     snd p = [] \<or> list_ex (\<lambda>(name, v). suffix (INPUT_WORD @ name) (fst p) \<and> snd p = lit '' ('' @ v @ lit '')'') ins"

lemma show_inputs_pieces:
  "\<exists>ps. rest = concat (map fst ps) \<and> show_inputs u ins before rest = concat (map (\<lambda>(p, i). p @ i) ps)
     \<and> list_all (input_insertion ins) ps"
proof (induction "length rest" arbitrary: before rest rule: less_induct)
  case less
  show ?case
  proof (cases "find_str INPUT_WORD rest")
    case None
    then show ?thesis
      by (intro exI [of _ "[(rest, [])]"]) (simp add: input_insertion_def show_inputs.simps [of u ins before rest])
  next
    case (Some k)
    define name_at where "name_at = k + length INPUT_WORD"
    define previous where "previous = (if k = 0 then before else Some (rest ! (k - 1)))"
    have at_k: "prefix INPUT_WORD (drop k rest)" using find_str_Some [OF Some] by simp
    have pos: "0 < name_at" "0 < length rest"
      using find_str_bound [OF Some] by (auto simp: name_at_def INPUT_WORD_def lit_def)
    have step: ?thesis
      if shown: "show_inputs u ins before rest = take n rest @ i @ show_inputs u ins b (drop n rest)"
        and "0 < n" and now: "input_insertion ins (take n rest, i)" for n i b
    proof -
      obtain ps where ps: "drop n rest = concat (map fst ps)"
        "show_inputs u ins b (drop n rest) = concat (map (\<lambda>(p, i). p @ i) ps)" "list_all (input_insertion ins) ps"
        using less [of "drop n rest" b] pos \<open>0 < n\<close> by auto
      then show ?thesis
        using shown now by (intro exI [of _ "(take n rest, i) # ps"]) (simp flip: ps(1))
    qed
    show ?thesis
    proof (cases "named_input u ins previous (drop name_at rest)")
      case None
      show ?thesis
        by (rule step [of name_at "[]" "Some (rest ! (name_at - 1))"])
          (use Some None pos in \<open>simp_all add: input_insertion_def show_inputs.simps [of u ins before rest] Let_def
            flip: name_at_def previous_def\<close>)
    next
      case (Some p)
      obtain name v where p: "p = (name, v)" by (cases p)
      have mem: "(name, v) \<in> set ins" "prefix name (drop name_at rest)"
        using Some p by (auto simp: named_input_def split: if_splits dest!: longest_name_in)
      have "take (name_at + length name) rest = take k rest @ INPUT_WORD @ name"
        using at_k mem(2) by (auto simp: prefix_def name_at_def take_add)
      then have ins: "input_insertion ins (take (name_at + length name) rest, lit '' ('' @ v @ lit '')'')"
        using mem(1) by (auto simp: input_insertion_def list_ex_iff suffix_def)
      show ?thesis
        by (rule step [OF _ _ ins, of "Some (rest ! (name_at + length name - 1))"])
          (use \<open>find_str _ _ = _\<close> Some p pos in \<open>simp_all add: show_inputs.simps [of u ins before rest] Let_def
            flip: name_at_def previous_def\<close>)
    qed
  qed
qed

text \<open>
  Showing the inputs in the task only adds to it.  The task splits into pieces, each shown as it was written
  and followed by nothing or, where it ends in the word input and an input's name, by that input's
  value in parentheses; and without inputs the task is shown as written.
\<close>

theorem with_inputs_inserts:
  "(\<exists>ps. t = concat (map fst ps) \<and> with_inputs u t ins = concat (map (\<lambda>(p, i). p @ i) ps)
      \<and> list_all (input_insertion ins) ps)
   \<and> with_inputs u t [] = t"
proof -
  obtain ps where ps: "t = concat (map fst ps)" "with_inputs u t [] = concat (map (\<lambda>(p, i). p @ i) ps)"
    "list_all (input_insertion []) ps"
    using show_inputs_pieces [of t u "[]" None] unfolding with_inputs_def by blast
  have "map (\<lambda>(p, i). p @ i) ps = map fst ps"
    using ps(3) by (intro map_cong refl) (auto simp: list_all_iff input_insertion_def)
  then have "with_inputs u t [] = t" using ps(1,2) by metis
  then show ?thesis using show_inputs_pieces [of t u ins None] unfolding with_inputs_def by blast
qed

end
