(* ===== verification/PageState.thy ===== *)
theory PageState
  imports StateOps
begin

text \<open>
  What Jev is shown of a page beside its notes: the dumps of \<^verbatim>\<open>crates/fastbrowse-core/src/py/dump.rs\<close> for the
  models of \<^verbatim>\<open>page.rs\<close>, \<^verbatim>\<open>decision.rs\<close> and \<^verbatim>\<open>policy.rs\<close>, the calendar of \<^verbatim>\<open>Observation::today\<close>, and
  \<^verbatim>\<open>page_state\<close> of \<^verbatim>\<open>crates/fastbrowse-agent/src/verification/mod.rs\<close>.  \<open>num\<close> is the decimal form of a number.
\<close>

section \<open>Dumps\<close>

text \<open>
  A struct is a model: with \<^verbatim>\<open>exclude_none\<close> its null fields are left out.  Fields the model skips while unset
  are left out either way.
\<close>

definition model_dump :: "bool \<Rightarrow> (str \<times> json) list \<Rightarrow> json" where
  "model_dump exclude_none members = JObject (if exclude_none then filter (\<lambda>(_, v). v \<noteq> JNull) members else members)"

definition skip_none :: "str \<Rightarrow> json \<Rightarrow> (str \<times> json) list" where
  "skip_none key v = (if v = JNull then [] else [(key, v)])"

fun include_fields :: "json \<Rightarrow> str list \<Rightarrow> json" where
  "include_fields (JObject members) names = JObject (filter (\<lambda>(key, _). key \<in> set names) members)"
| "include_fields other names = other"

fun exclude_fields :: "json \<Rightarrow> str list \<Rightarrow> json" where
  "exclude_fields (JObject members) names = JObject (filter (\<lambda>(key, _). key \<notin> set names) members)"
| "exclude_fields other names = other"

definition json_float :: "(real \<Rightarrow> f64_form) \<Rightarrow> real \<Rightarrow> json" where
  "json_float num x = (case num x of Finite neg man e \<Rightarrow> JFloat (Finite neg man e) | _ \<Rightarrow> JNull)"

definition json_operations :: "operation set \<Rightarrow> json" where
  "json_operations ops = JArray (map (\<lambda>op. JString (operation_str op)) (sorted_list_of_set ops))"

definition control_fields :: "control \<Rightarrow> (str \<times> json) list" where
  "control_fields c =
     [(lit ''id'', JString (ctl_id c)), (lit ''frame_id'', json_text (ctl_frame_id c)),
      (lit ''frame_origin'', json_text (ctl_frame_origin c)), (lit ''form_id'', json_text (ctl_form_id c)),
      (lit ''role'', JString (ctl_role c)), (lit ''label'', JString (ctl_label c)),
      (lit ''context'', json_text (ctl_context c)), (lit ''operations'', json_operations (ctl_operations c)),
      (lit ''value'', json_text (ctl_value c))]
     @ skip_none (lit ''focused'') (json_flag (ctl_focused c))
     @ [(lit ''href'', json_text (ctl_href c)), (lit ''options'', JArray (map JString (ctl_options c))),
        (lit ''input_type'', json_text (ctl_input_type c)), (lit ''input_name'', json_text (ctl_input_name c))]
     @ skip_none (lit ''max_length'') (case ctl_max_length c of Some n \<Rightarrow> JInt (int n) | None \<Rightarrow> JNull)
     @ [(lit ''autocomplete'', json_text (ctl_autocomplete c)),
        (lit ''submit_semantics'', json_text (ctl_submit_semantics c)), (lit ''checked'', json_flag (ctl_checked c)),
        (lit ''selected'', json_flag (ctl_selected c)), (lit ''expanded'', json_flag (ctl_expanded c)),
        (lit ''sensitive'', JBool (ctl_sensitive c)), (lit ''offscreen'', JBool (ctl_offscreen c)),
        (lit ''required'', json_flag (ctl_required c)), (lit ''invalid'', json_flag (ctl_invalid c))]
     @ skip_none (lit ''validation_message'') (json_text (ctl_validation_message c))
     @ [(lit ''next_page'', json_flag (ctl_next_page c)), (lit ''download'', json_flag (ctl_download c))]
     @ skip_none (lit ''already_read'') (json_flag (ctl_already_read c))"

definition control_dump :: "bool \<Rightarrow> control \<Rightarrow> json" where
  "control_dump exclude_none c = model_dump exclude_none (control_fields c)"

definition media_dump :: "(real \<Rightarrow> f64_form) \<Rightarrow> media \<Rightarrow> json" where
  "media_dump num m =
     JObject [(lit ''kind'', JString (media_kind m)), (lit ''label'', json_text (media_label m)),
              (lit ''heading'', json_text (media_heading m)), (lit ''paused'', JBool (media_paused m)),
              (lit ''ended'', JBool (media_ended m)), (lit ''muted'', JBool (media_muted m)),
              (lit ''elapsed_seconds'', json_float num (media_elapsed_seconds m)),
              (lit ''duration_seconds'',
                 (case media_duration_seconds m of Some d \<Rightarrow> json_float num d | None \<Rightarrow> JNull))]"

definition tab_dump :: "tab \<Rightarrow> json" where
  "tab_dump t =
     JObject [(lit ''id'', JString (tab_id t)), (lit ''url'', JString (tab_url t)), (lit ''title'', JString (tab_title t)),
              (lit ''active'', JBool (tab_active t)), (lit ''opener_id'', json_text (tab_opener_id t))]"

definition dialog_dump :: "dialog \<Rightarrow> json" where
  "dialog_dump d =
     JObject [(lit ''kind'', JString (dialog_kind d)), (lit ''message'', JString (dialog_message d)),
              (lit ''default_prompt'', json_text (dialog_default_prompt d))]"

definition observation_dump :: "(real \<Rightarrow> f64_form) \<Rightarrow> observation \<Rightarrow> json" where
  "observation_dump num obs =
     JObject [(lit ''url'', JString (obs_url obs)), (lit ''title'', JString (obs_title obs)),
       (lit ''page_key'', JString (obs_page_key obs)), (lit ''captured_at'', JString (isoformat (obs_captured_at obs))),
       (lit ''response_status'', (case obs_response_status obs of Some n \<Rightarrow> JInt n | None \<Rightarrow> JNull)),
       (lit ''document_key'', JString (obs_document_key obs)),
       (lit ''controls'', JArray (map (control_dump False) (obs_controls obs))),
       (lit ''viewport_text'', JString (obs_viewport_text obs)), (lit ''offscreen_text'', JString (obs_offscreen_text obs)),
       (lit ''visual_content'', JBool (obs_visual_content obs)),
       (lit ''media'', JArray (map (media_dump num) (obs_media obs))),
       (lit ''tabs'', JArray (map tab_dump (obs_tabs obs))),
       (lit ''dialog'', (case obs_dialog obs of Some d \<Rightarrow> dialog_dump d | None \<Rightarrow> JNull)),
       (lit ''inaccessible_frames'', JInt (obs_inaccessible_frames obs)),
       (lit ''can_go_back'', JBool (obs_can_go_back obs)), (lit ''history_entry'', json_text (obs_history_entry obs))]"

definition history_dump :: "history_entry \<Rightarrow> json" where
  "history_dump h =
     model_dump True
       [(lit ''operation'', (case he_operation h of Some op \<Rightarrow> JString (operation_str op) | None \<Rightarrow> JNull)),
        (lit ''target'', json_text (he_target h)), (lit ''outcome'', JString (step_outcome_str (he_outcome h))),
        (lit ''page_changed'', JBool (he_page_changed h)), (lit ''note'', json_text (he_note h)),
        (lit ''text'', json_text (he_text h)), (lit ''effect'', json_text (he_effect h)),
        (lit ''read_progress'', JBool (he_read_progress h)), (lit ''setting'', json_flag (he_setting h))]"

fun question_dump :: "question \<Rightarrow> json" where
  "question_dump (Q_Choice q) =
     JObject [(lit ''type'', JString (lit ''choice'')), (lit ''instructions'', JString (cq_instructions q)),
              (lit ''criteria'', JObject (cq_criteria q))]"
| "question_dump (Q_Noul q) =
     JObject [(lit ''type'', JString (lit ''noul'')), (lit ''instructions'', JString (nq_instructions q)),
              (lit ''true'', json_text (nq_true q)), (lit ''false'', json_text (nq_false q))]"
| "question_dump (Q_Score q) =
     JObject [(lit ''type'', JString (lit ''score'')), (lit ''instructions'', JString (sq_instructions q)),
              (lit ''criteria'', JArray (map JString (sq_criteria q)))]"
| "question_dump (Q_Box instructions) =
     JObject [(lit ''type'', JString (lit ''box'')), (lit ''instructions'', JString instructions)]"

section \<open>The calendar\<close>

text \<open>
  \<^verbatim>\<open>(0..).take_while\<close>: the days of one weekday from \<open>start\<close> on.  Five weeks on is always another month
  (\<open>five_weeks_on\<close> below), so the first six suffice.
\<close>

definition weekday_days :: "datetime \<Rightarrow> datetime \<Rightarrow> str list" where
  "weekday_days first start =
     map (\<lambda>d. dec_int (dt_day d))
       (takeWhile (\<lambda>d. dt_month d = dt_month first) (map (\<lambda>weeks. add_days start (7 * int weeks)) [0..<6]))"

definition month_column :: "datetime \<Rightarrow> int \<Rightarrow> nat \<times> str" where
  "month_column first offset =
     (let start = add_days first offset
      in (weekday start, take 3 (weekday_name start) @ lit '' '' @ join (lit '' '') (weekday_days first start)))"

definition month_calendar :: "datetime \<Rightarrow> str option" where
  "month_calendar first =
     map_option (\<lambda>name.
         name @ lit '' '' @ dec_int (dt_year first) @ lit '': '' @
         join (lit ''; '') (map snd (sort_key fst (map (\<lambda>k. month_column first (int k)) [0..<7]))))
       (month_name first)"

fun calendar_lines :: "nat \<Rightarrow> datetime \<Rightarrow> str list option" where
  "calendar_lines 0 month = Some []"
| "calendar_lines (Suc n) month =
     (case (month_calendar month, calendar_lines n (first_of_month (add_days month 32))) of
        (Some line, Some rest) \<Rightarrow> Some (line # rest)
      | _ \<Rightarrow> None)"

text \<open>\<open>None\<close> is the panic of a month outside the table.\<close>

definition today :: "datetime \<Rightarrow> str option" where
  "today captured =
     map_option (\<lambda>months. join [10] ((date_string captured @ lit '' ('' @ weekday_name captured @ lit '')'') # months))
       (calendar_lines 13 (first_of_month captured))"

section \<open>The state a question is asked with\<close>

definition shown_state :: "control list \<Rightarrow> json list" where
  "shown_state cs =
     map (\<lambda>c. include_fields (control_dump True c)
                (map lit [''label'', ''context'', ''role'', ''value'', ''checked'', ''selected''])) cs"

definition stateful :: "control list \<Rightarrow> control list" where
  "stateful cs = filter (\<lambda>c. ctl_value c \<noteq> None \<or> ctl_checked c \<noteq> None \<or> ctl_selected c \<noteq> None) cs"

text \<open>The members of the state, as \<^verbatim>\<open>Map::insert\<close> and indexed assignment leave them.\<close>

type_synonym json_map = "(str, json) index_map"

definition page_value :: "(real \<Rightarrow> f64_form) \<Rightarrow> observation \<Rightarrow> str \<Rightarrow> json" where
  "page_value num obs shown =
     JObject ([(lit ''url'', JString (obs_url obs)), (lit ''title'', JString (obs_title obs)), (lit ''text'', JString shown)]
              @ (if obs_media obs = [] then [] else [(lit ''media'', JArray (map (media_dump num) (obs_media obs)))]))"

definition with_page :: "(real \<Rightarrow> f64_form) \<Rightarrow> observation \<Rightarrow> str \<Rightarrow> json_map \<Rightarrow> json_map" where
  "with_page num obs shown st = im_insert (lit ''page'') (page_value num obs shown) st"

definition with_notes :: "str \<Rightarrow> json_map \<Rightarrow> json_map" where
  "with_notes rendered st = im_insert (lit ''notes'') (JString rendered) st"

definition without_stateless :: "control list \<Rightarrow> json_map \<Rightarrow> json_map" where
  "without_stateless cs st =
     (let kept = stateful cs
      in im_insert (lit ''controls'') (JArray (shown_state kept))
           (im_insert (lit ''controls_omitted'') (JInt (int (length cs - length kept))) st))"

definition state_size :: "json_map \<Rightarrow> int" where
  "state_size st = int (text_len (dumps (JObject st)))"

definition opening_state :: "(real \<Rightarrow> f64_form) \<Rightarrow> observation \<Rightarrow> json_map \<Rightarrow> json_map" where
  "opening_state num obs context =
     (let st = im_insert (lit ''date'') (JString (the (today (obs_captured_at obs)))) context;
          st = with_page num obs (obs_viewport_text obs) st;
          st = im_insert (lit ''controls'') (JArray (shown_state (obs_controls obs))) st
      in with_notes [] st)"

text \<open>
  The notes within the room the rest leaves, cutting the page text and then the stateless controls when the
  answer's evidence does not fit: the state, and whether the page text is to be cut.
\<close>

definition noted_state ::
  "(real \<Rightarrow> f64_form) \<Rightarrow> observation \<Rightarrow> run_notes \<Rightarrow> int \<Rightarrow> json_map \<Rightarrow> agent_error + json_map \<times> bool" where
  "noted_state num obs n budget st =
     (let room = (\<lambda>st. max (budget - state_size st) 0) in
      case render n (room st) True True of
        Inr r \<Rightarrow> Inr (with_notes r st, False)
      | Inl (Agent_NotesTooLarge _) \<Rightarrow>
          let bare = with_page num obs [] st in
          (case render n (room bare) True True of
             Inr r \<Rightarrow> Inr (with_notes r bare, True)
           | Inl (Agent_NotesTooLarge _) \<Rightarrow>
               let few = without_stateless (obs_controls obs) bare in
               (case render n (room few) True True of
                  Inr r \<Rightarrow> Inr (with_notes r few, True)
                | Inl e \<Rightarrow> Inl e)
           | Inl e \<Rightarrow> Inl e)
      | Inl e \<Rightarrow> Inl e)"

definition page_state ::
  "(real \<Rightarrow> f64_form) \<Rightarrow> observation \<Rightarrow> run_notes \<Rightarrow> token_budget \<Rightarrow> str list \<Rightarrow> json_map option \<Rightarrow> agent_error + json" where
  "page_state num obs n budgets questions context =
     (let budget = input_chars budgets questions in
      and_then (noted_state num obs n budget (opening_state num obs (case context of Some m \<Rightarrow> m | None \<Rightarrow> []))) (\<lambda>(st, cut_page).
        let st = (if cut_page \<or> state_size st > budget
                  then let bare = with_page num obs [] st
                       in with_page num obs (cut_text (obs_viewport_text obs) (nat (max (budget - state_size bare) 0)) True) bare
                  else st);
            st = (if state_size st > budget \<and> im_get st (lit ''controls_omitted'') = None
                  then without_stateless (obs_controls obs) st else st)
        in if state_size st > budget
           then Inl (Agent_ObservationTooLarge
                       (lit ''the state on '' @ obs_url obs @ lit '' exceeds Jev's input limits with no page text''))
           else Inr (JObject st)))"

section \<open>The calendar: facts\<close>

lemma days_from_civil_linear: "days_from_civil y m d = days_from_civil y m 1 + (d - 1)"
  by (simp add: days_from_civil_def Let_def)

lemma days_from_civil_years:
  "days_from_civil year month day =
     (let y = year - (if month \<le> 2 then 1 else 0)
      in 365 * y + y div 4 - y div 100 + y div 400
         + (153 * (if month > 2 then month - 3 else month + 9) + 2) div 5 + day - 719469)"
proof -
  have era: "y div 400 * 146097 + ((y - y div 400 * 400) * 365 + (y - y div 400 * 400) div 4 - (y - y div 400 * 400) div 100)
      = 365 * y + y div 4 - y div 100 + y div 400" for y :: int
  proof -
    define q r where "q = y div 400" and "r = y mod 400"
    have y: "y = r + 400 * q" by (simp add: q_def r_def)
    have "(r + 4 * (100 * q)) div 4 = r div 4 + 100 * q" "(r + 100 * (4 * q)) div 100 = r div 100 + 4 * q" by simp_all
    then have "y div 4 = r div 4 + 100 * q" "y div 100 = r div 100 + 4 * q" using y by simp_all
    moreover have "y - q * 400 = r" using y by simp
    ultimately show ?thesis using y unfolding q_def [symmetric] by simp
  qed
  have assoc: "a + (b + c - d + (e + day - 1)) - 719468 = (a + (b + c - d)) + e + day - 719469" for a b c d e :: int
    by simp
  show ?thesis unfolding days_from_civil_def Let_def assoc era ..
qed

lemma div_before: "0 < c \<Longrightarrow> (y - 1) div c + (if y mod c = 0 then 1 else 0) = y div c" for y c :: int
proof (cases "y mod c = 0")
  case True
  assume "0 < c"
  then have "(y - 1) div c = y div c - 1"
    using True by (intro int_div_pos_eq [of _ _ _ "c - 1"]) (auto simp: algebra_simps elim!: dvdE)
  then show ?thesis using True by simp
next
  case False
  assume "0 < c"
  then have "0 < y mod c" using False pos_mod_sign [of c y] by linarith
  have "(y - 1) div c = y div c"
  proof (rule int_div_pos_eq)
    show "y - 1 = c * (y div c) + (y mod c - 1)" by (simp add: algebra_simps)
    show "0 \<le> y mod c - 1" using \<open>0 < y mod c\<close> by linarith
    show "y mod c - 1 < c" using pos_mod_bound [OF \<open>0 < c\<close>, of y] by linarith
  qed
  then show ?thesis using False by simp
qed

definition next_month :: "int \<Rightarrow> int \<Rightarrow> int \<times> int" where
  "next_month y m = (if m = 12 then (y + 1, 1) else (y, m + 1))"

lemma days_next_month:
  assumes "days_in_month y m = Some n"
  shows "days_from_civil y m 1 + n = days_from_civil (fst (next_month y m)) (snd (next_month y m)) 1"
proof (cases "m = 2")
  case True
  define A B C where "A = (y - 1) div 4" and "B = (y - 1) div 100" and "C = (y - 1) div 400"
  have divs: "y div 4 = A + (if y mod 4 = 0 then 1 else 0)" "y div 100 = B + (if y mod 100 = 0 then 1 else 0)"
    "y div 400 = C + (if y mod 400 = 0 then 1 else 0)"
    unfolding A_def B_def C_def by (rule div_before [symmetric], simp)+
  have mods: "y mod 400 = 0 \<Longrightarrow> y mod 100 = 0" "y mod 100 = 0 \<Longrightarrow> y mod 4 = 0"
    using dvd_trans [of 100 400 y] dvd_trans [of 4 100 y] by (auto simp: dvd_eq_mod_eq_0 [symmetric])
  have n: "n = (if y mod 4 = 0 \<and> y mod 100 \<noteq> 0 \<or> y mod 400 = 0 then 29 else 28)"
    using assms True by (simp add: days_in_month_def leap_year_def split: if_splits)
  have "days_from_civil y 2 1 = 365 * (y - 1) + A - B + C + 337 + 1 - 719469"
    by (simp add: days_from_civil_years Let_def A_def B_def C_def)
  moreover have "days_from_civil y 3 1 = 365 * y + y div 4 - y div 100 + y div 400 + 1 - 719469"
    by (simp add: days_from_civil_years Let_def)
  ultimately have "days_from_civil y 2 1 + n = days_from_civil y 3 1"
    unfolding divs n using mods by auto
  then show ?thesis using True by (simp add: next_month_def)
next
  case False
  then have "m \<in> {1, 3, 4, 5, 6, 7, 8, 9, 10, 11, 12}" using assms by (auto simp: days_in_month_def split: if_splits)
  then show ?thesis
    using assms by (elim insertE; simp add: days_in_month_def days_from_civil_years Let_def next_month_def)
qed

definition year_fits :: "int \<Rightarrow> bool" where
  "year_fits y \<longleftrightarrow> - (2 ^ 31) \<le> y \<and> y < 2 ^ 31 - 1"

lemma days_in_month_bounds: "days_in_month y m = Some n \<Longrightarrow> 28 \<le> n \<and> n \<le> 31 \<and> 1 \<le> m \<and> m \<le> 12"
  by (auto simp: days_in_month_def split: if_splits)

text \<open>Counting on from the first of a month: a day of that month, or one of the next.\<close>

lemma month_day_offset:
  assumes "days_in_month y m = Some n" and "year_fits y" and "0 \<le> k" and "k < n + 28"
  shows "civil_from_days (days_from_civil y m 1 + k)
    = (if k < n then (y, m, k + 1) else (fst (next_month y m), snd (next_month y m), k - n + 1))"
proof (cases "k < n")
  case True
  have "valid_date y m (k + 1)" using assms True by (simp add: valid_date_def)
  from civil_of_days [OF this] show ?thesis
    using True assms(2) days_from_civil_linear [of y m "k + 1"] by (simp add: year_fits_def)
next
  case False
  obtain y' m' where nm: "next_month y m = (y', m')" by (cases "next_month y m")
  have m: "1 \<le> m" "m \<le> 12" "28 \<le> n" using days_in_month_bounds [OF assms(1)] by simp_all
  then have "\<exists>n'. days_in_month y' m' = Some n' \<and> 28 \<le> n'"
    using nm by (auto simp: next_month_def days_in_month_def split: if_splits) presburger?
  then have "valid_date y' m' (k - n + 1)" using False assms(4) by (auto simp: valid_date_def)
  moreover have "- (2 ^ 31) \<le> y'" "y' < 2 ^ 31"
    using nm assms(2) by (auto simp: next_month_def year_fits_def split: if_splits)
  ultimately have "civil_from_days (days_from_civil y' m' (k - n + 1)) = (y', m', k - n + 1)" by (rule civil_of_days)
  moreover have "days_from_civil y m 1 + k = days_from_civil y' m' (k - n + 1)"
    using nm days_next_month [OF assms(1)] days_from_civil_linear [of y' m' "k - n + 1"] by simp
  ultimately show ?thesis using False nm by simp
qed

lemma next_month_other: "days_in_month y m = Some n \<Longrightarrow> snd (next_month y m) \<noteq> m"
  by (auto simp: next_month_def days_in_month_def split: if_splits)

definition month_days_on :: "datetime \<Rightarrow> nat \<Rightarrow> int list" where
  "month_days_on first w =
     filter (\<lambda>d. weekday (first\<lparr>dt_day := d\<rparr>) = w)
       [1..(case days_in_month (dt_year first) (dt_month first) of Some n \<Rightarrow> n | None \<Rightarrow> 0)]"

lemma weeks_table:
  "list_all (\<lambda>n. list_all (\<lambda>k. takeWhile (\<lambda>d. d \<le> n) (map (\<lambda>w. k + 7 * int w + 1) [0..<6]) = filter (\<lambda>d. (d - 1) mod 7 = k) [1..n])
     [0..6]) [28..31]"
  by code_simp

lemma add_days_within:
  assumes "days_in_month (dt_year first) (dt_month first) = Some n" and "dt_day first = 1" and "year_fits (dt_year first)"
    and "0 \<le> k" and "k < n"
  shows "add_days first k = first\<lparr>dt_day := k + 1\<rparr>"
  using month_day_offset [OF assms(1,3,4)] assms(2,5) by (simp add: add_days_def)

text \<open>Five weeks on from any of the first seven days is the next month.\<close>

lemma five_weeks_on:
  assumes "days_in_month (dt_year first) (dt_month first) = Some n" and "dt_day first = 1" and "year_fits (dt_year first)"
    and "0 \<le> k" and "k < 7" and "w < 6"
  shows "dt_month (add_days (add_days first k) (7 * int w)) = dt_month first \<longleftrightarrow> k + 7 * int w < n"
    and "k + 7 * int w < n \<Longrightarrow> dt_day (add_days (add_days first k) (7 * int w)) = k + 7 * int w + 1"
    and "n \<le> 35 + k"
proof -
  have n: "28 \<le> n" "n \<le> 31" using days_in_month_bounds [OF assms(1)] by simp_all
  have "add_days first k = first\<lparr>dt_day := k + 1\<rparr>" using add_days_within [OF assms(1-4)] assms(5) n by simp
  then have "add_days (add_days first k) (7 * int w)
      = (let (y, m, d) = civil_from_days (days_from_civil (dt_year first) (dt_month first) 1 + (k + 7 * int w))
         in first\<lparr>dt_year := y, dt_month := m, dt_day := d\<rparr>)"
    using days_from_civil_linear [of "dt_year first" "dt_month first" "k + 1"] by (simp add: add_days_def algebra_simps)
  moreover have "0 \<le> k + 7 * int w" "k + 7 * int w < n + 28" using assms(4-6) n by auto
  ultimately have "dt_month (add_days (add_days first k) (7 * int w)) = (if k + 7 * int w < n then dt_month first
        else snd (next_month (dt_year first) (dt_month first)))"
    and day: "k + 7 * int w < n \<Longrightarrow> dt_day (add_days (add_days first k) (7 * int w)) = k + 7 * int w + 1"
    using month_day_offset [OF assms(1,3)] by simp_all
  then show "dt_month (add_days (add_days first k) (7 * int w)) = dt_month first \<longleftrightarrow> k + 7 * int w < n"
    using next_month_other [OF assms(1)] by auto
  show "dt_day (add_days (add_days first k) (7 * int w)) = k + 7 * int w + 1" if "k + 7 * int w < n" using day [OF that] .
  show "n \<le> 35 + k" using n assms(4) by simp
qed

lemma weekday_mod:
  "weekday (first\<lparr>dt_day := d\<rparr>) = nat ((days_from_civil (dt_year first) (dt_month first) 1 + d + 2) mod 7)"
proof -
  have "days_from_civil (dt_year first) (dt_month first) d + 3 = days_from_civil (dt_year first) (dt_month first) 1 + d + 2"
    using days_from_civil_linear [of "dt_year first" "dt_month first" d] by linarith
  then have "(days_from_civil (dt_year first) (dt_month first) d + 3) mod 7
      = (days_from_civil (dt_year first) (dt_month first) 1 + d + 2) mod 7" by (rule arg_cong)
  moreover have "weekday (first\<lparr>dt_day := d\<rparr>) = nat ((days_from_civil (dt_year first) (dt_month first) d + 3) mod 7)"
    by (simp add: weekday_def)
  ultimately show ?thesis by (simp only:)
qed

lemma weekday_days_filter:
  assumes "days_in_month (dt_year first) (dt_month first) = Some n" and "dt_day first = 1" and "year_fits (dt_year first)"
    and "0 \<le> k" and "k < 7"
  shows "weekday_days first (add_days first k) = map dec_int (filter (\<lambda>d. (d - 1) mod 7 = k) [1..n])"
proof -
  let ?day = "\<lambda>w. add_days (add_days first k) (7 * int w)"
  have "weekday_days first (add_days first k)
      = map (\<lambda>w. dec_int (dt_day (?day w))) (takeWhile (\<lambda>w. dt_month (?day w) = dt_month first) [0..<6])"
    by (simp add: weekday_days_def takeWhile_map comp_def)
  also have "takeWhile (\<lambda>w. dt_month (?day w) = dt_month first) [0..<6] = takeWhile (\<lambda>w. k + 7 * int w < n) [0..<6]"
    using five_weeks_on(1) [OF assms] by (intro takeWhile_cong) auto
  also have "map (\<lambda>w. dec_int (dt_day (?day w))) \<dots> = map (\<lambda>w. dec_int (k + 7 * int w + 1)) \<dots>"
    using five_weeks_on(2) [OF assms] by (intro map_cong) (auto dest: set_takeWhileD)
  also have "\<dots> = map dec_int (takeWhile (\<lambda>d. d \<le> n) (map (\<lambda>w. k + 7 * int w + 1) [0..<6]))"
    by (simp add: takeWhile_map comp_def zless_imp_add1_zle add1_zle_eq del: upt_Suc upt_rec_numeral)
  also have "\<dots> = map dec_int (filter (\<lambda>d. (d - 1) mod 7 = k) [1..n])"
  proof -
    have "n \<in> set [28..31]" "k \<in> set [0..6]" using days_in_month_bounds [OF assms(1)] assms(4,5) by auto
    then show ?thesis using weeks_table unfolding list_all_iff by metis
  qed
  finally show ?thesis .
qed

lemma sort_rotated:
  fixes D :: int
  defines "wd \<equiv> \<lambda>k. nat ((D + int k) mod 7)" and "kk \<equiv> \<lambda>w. nat ((int w - D) mod 7)"
  shows "sort_key fst (map (\<lambda>k. (wd k, s k)) [0..<7]) = map (\<lambda>w. (w, s (kk w))) [0..<7]"
proof (rule sort_key_inj_key_eq)
  have range: "wd k < 7" "kk w < 7" for k w by (simp_all add: wd_def kk_def nat_less_iff)
  have inv: "wd (kk w) = w" if "w < 7" for w
    using that by (simp add: wd_def kk_def mod_add_right_eq)
  have inv': "kk (wd k) = k" if "k < 7" for k
    using that by (simp add: wd_def kk_def mod_diff_left_eq)
  have inj: "inj_on wd {0..<7}" by (rule inj_on_inverseI [of _ kk]) (simp add: inv')
  then show "inj_on fst (set (map (\<lambda>k. (wd k, s k)) [0..<7]))" by (auto simp: inj_on_def)
  have "distinct (map (\<lambda>k. (wd k, s k)) [0..<7])"
    using inj by (auto simp: distinct_map inj_on_def simp del: upt_rec_numeral)
  moreover have "distinct (map (\<lambda>w. (w, s (kk w))) [0..<7])" by (auto simp: distinct_map inj_on_def simp del: upt_rec_numeral)
  moreover have "(\<lambda>k. (wd k, s k)) ` {0..<7} = (\<lambda>w. (w, s (kk w))) ` {0..<7}"
  proof -
    have "(wd k, s k) \<in> (\<lambda>w. (w, s (kk w))) ` {0..<7}" if "k < 7" for k
      using inv' [OF that] range(1) [of k] by (intro image_eqI [of _ _ "wd k"]) simp_all
    moreover have "(w, s (kk w)) \<in> (\<lambda>k. (wd k, s k)) ` {0..<7}" if "w < 7" for w
      using inv [OF that] range(2) [of w] by (intro image_eqI [of _ _ "kk w"]) simp_all
    ultimately show ?thesis by (auto simp del: image_eqI)
  qed
  ultimately show "mset (map (\<lambda>k. (wd k, s k)) [0..<7]) = mset (map (\<lambda>w. (w, s (kk w))) [0..<7])"
    by (intro set_eq_iff_mset_eq_distinct [THEN iffD1]) (simp_all only: set_map set_upt)
  show "sorted (map fst (map (\<lambda>w. (w, s (kk w))) [0..<7]))" by (simp add: comp_def del: upt_rec_numeral)
qed

text \<open>
  C10: The calendar Jev is given for relative dates is right.  The line of a month names the month and the year and
  then, Monday first, every weekday with exactly the days of the month that fall on it, in order.
\<close>

theorem month_calendar_exact:
  assumes "days_in_month (dt_year first) (dt_month first) = Some n" and "dt_day first = 1" and "year_fits (dt_year first)"
  shows "month_calendar first =
    Some (MONTHS ! nat (dt_month first - 1) @ lit '' '' @ dec_int (dt_year first) @ lit '': '' @
      join (lit ''; '')
        (map (\<lambda>w. take 3 (WEEKDAYS ! w) @ lit '' '' @ join (lit '' '') (map dec_int (month_days_on first w))) [0..<7]))"
proof -
  let ?D = "days_from_civil (dt_year first) (dt_month first) 1 + 3"
  let ?wd = "\<lambda>k. nat ((?D + int k) mod 7)" and ?kk = "\<lambda>w. nat ((int w - ?D) mod 7)"
  define s where "s = (\<lambda>k. take 3 (WEEKDAYS ! ?wd k) @ lit '' '' @
      join (lit '' '') (map dec_int (filter (\<lambda>d. (d - 1) mod 7 = int k) [1..n])))"
  have m: "1 \<le> dt_month first" "dt_month first \<le> 12" "28 \<le> n" using days_in_month_bounds [OF assms(1)] by simp_all
  have col: "month_column first (int k) = (?wd k, s k)" if "k < 7" for k
  proof -
    have "weekday (add_days first (int k)) = ?wd k"
      using add_days_within [OF assms, of "int k"] weekday_mod [of "int k + 1" first] that m
      by (simp add: algebra_simps)
    then show ?thesis
      using weekday_days_filter [OF assms, of "int k"] that by (simp add: month_column_def Let_def weekday_name_def s_def)
  qed
  have days: "month_days_on first w = filter (\<lambda>d. (d - 1) mod 7 = int (?kk w)) [1..n]" "?wd (?kk w) = w" if "w < 7" for w
  proof -
    have "weekday (first\<lparr>dt_day := d\<rparr>) = w \<longleftrightarrow> (d - 1) mod 7 = (int w - ?D) mod 7" for d
    proof -
      have "weekday (first\<lparr>dt_day := d\<rparr>) = w \<longleftrightarrow> (?D + (d - 1)) mod 7 = int w mod 7"
        using that by (simp add: weekday_mod nat_eq_iff algebra_simps)
      also have "\<dots> \<longleftrightarrow> (d - 1) mod 7 = (int w - ?D) mod 7" by (simp add: mod_eq_dvd_iff algebra_simps)
      finally show ?thesis .
    qed
    then show "month_days_on first w = filter (\<lambda>d. (d - 1) mod 7 = int (?kk w)) [1..n]"
      using assms(1) by (simp add: month_days_on_def)
    show "?wd (?kk w) = w" using that by (simp add: mod_add_right_eq)
  qed
  have "map (\<lambda>k. month_column first (int k)) [0..<7] = map (\<lambda>k. (?wd k, s k)) [0..<7]"
    using col by (intro map_cong refl) (simp del: upt_rec_numeral)
  then have "map snd (sort_key fst (map (\<lambda>k. month_column first (int k)) [0..<7])) = map (\<lambda>w. s (?kk w)) [0..<7]"
    unfolding sort_rotated [of ?D s, folded \<open>map (\<lambda>k. month_column first (int k)) [0..<7] = _\<close>]
    by (simp only: map_map comp_def snd_conv)
  also have "\<dots> = map (\<lambda>w. take 3 (WEEKDAYS ! w) @ lit '' '' @ join (lit '' '') (map dec_int (month_days_on first w))) [0..<7]"
    using days by (intro map_cong refl) (simp add: s_def del: upt_rec_numeral)
  finally show ?thesis using m by (simp add: month_calendar_def month_name_def)
qed

theorem month_calendar_exact_witness:
  "month_calendar (datetime_new 2026 9 1 10 0 0) = Some (lit ''September 2026: Mon 7 14 21 28; Tue 1 8 15 22 29; Wed 2 9 16 23 30; Thu 3 10 17 24; Fri 4 11 18 25; Sat 5 12 19 26; Sun 6 13 20 27'')"
proof -
  let ?first = "datetime_new 2026 9 1 10 0 0"
  have "days_in_month (dt_year ?first) (dt_month ?first) = Some 30" "dt_day ?first = 1" "year_fits (dt_year ?first)"
    by code_simp+
  note line = month_calendar_exact [OF this]
  show ?thesis unfolding line by code_simp
qed

section \<open>The state: facts\<close>

lemma state_keys [simp]:
  "lit ''page'' \<noteq> lit ''notes''" "lit ''notes'' \<noteq> lit ''page''" "lit ''controls'' \<noteq> lit ''notes''"
  "lit ''notes'' \<noteq> lit ''controls''" "lit ''controls'' \<noteq> lit ''page''" "lit ''page'' \<noteq> lit ''controls''"
  "lit ''controls_omitted'' \<noteq> lit ''notes''" "lit ''notes'' \<noteq> lit ''controls_omitted''"
  "lit ''controls_omitted'' \<noteq> lit ''page''" "lit ''page'' \<noteq> lit ''controls_omitted''"
  "lit ''controls_omitted'' \<noteq> lit ''controls''" "lit ''controls'' \<noteq> lit ''controls_omitted''"
  "lit ''date'' \<noteq> lit ''page''" "lit ''page'' \<noteq> lit ''date''" "lit ''date'' \<noteq> lit ''notes''" "lit ''notes'' \<noteq> lit ''date''"
  "lit ''controls_omitted'' \<noteq> lit ''date''" "lit ''date'' \<noteq> lit ''controls_omitted''"
  "lit ''controls'' \<noteq> lit ''date''" "lit ''date'' \<noteq> lit ''controls''"
  by (simp_all add: lit_def)

text \<open>What every state on the way holds.\<close>

definition state_shows :: "(real \<Rightarrow> f64_form) \<Rightarrow> observation \<Rightarrow> json_map \<Rightarrow> bool" where
  "state_shows num obs st \<longleftrightarrow>
     (\<exists>shown. im_get st (lit ''page'') = Some (page_value num obs shown)
        \<and> (shown = obs_viewport_text obs \<or> shown = [] \<or> (\<exists>m. shown = cut_text (obs_viewport_text obs) m True)))
     \<and> (im_get st (lit ''controls'') = Some (JArray (shown_state (obs_controls obs)))
        \<or> im_get st (lit ''controls'') = Some (JArray (shown_state (stateful (obs_controls obs))))
          \<and> im_get st (lit ''controls_omitted'')
            = Some (JInt (int (length (obs_controls obs) - length (stateful (obs_controls obs))))))"

definition notes_shown :: "run_notes \<Rightarrow> json_map \<Rightarrow> bool" where
  "notes_shown n st \<longleftrightarrow> (\<exists>r m. im_get st (lit ''notes'') = Some (JString r) \<and> render n m True True = Inr r)"

lemma state_shows_steps:
  "state_shows num obs (opening_state num obs context)"
  "state_shows num obs st \<Longrightarrow> state_shows num obs (with_notes r st)"
  "state_shows num obs st \<Longrightarrow> state_shows num obs (with_page num obs [] st)"
  "state_shows num obs st \<Longrightarrow> state_shows num obs (with_page num obs (cut_text (obs_viewport_text obs) m True) st)"
  "state_shows num obs st \<Longrightarrow> state_shows num obs (without_stateless (obs_controls obs) st)"
  "notes_shown n st \<Longrightarrow> notes_shown n (with_page num obs shown st)"
  "notes_shown n st \<Longrightarrow> notes_shown n (without_stateless cs st)"
  "render n k True True = Inr r \<Longrightarrow> notes_shown n (with_notes r st)"
  by (auto simp: state_shows_def notes_shown_def opening_state_def with_notes_def with_page_def without_stateless_def Let_def im_insert_get)

lemma render_scan_error: "render_scan n m True j ks = Some (Inl e) \<Longrightarrow> \<exists>why. e = Agent_NotesTooLarge why"
  by (induction n m True j ks rule: render_scan.induct) (auto simp: Let_def simp del: upt_Suc split: if_splits)

lemma render_error: "0 \<le> m \<Longrightarrow> render n m True j = Inl e \<Longrightarrow> \<exists>why. e = Agent_NotesTooLarge why"
  by (auto simp: render_def Let_def simp del: upt_Suc split: if_splits option.splits dest: render_scan_error)

lemma noted_state_cases:
  "(\<exists>r k. noted_state num obs n budget st = Inr (with_notes r st, False) \<and> render n k True True = Inr r)
   \<or> (\<exists>r k. noted_state num obs n budget st = Inr (with_notes r (with_page num obs [] st), True) \<and> render n k True True = Inr r)
   \<or> (\<exists>r k. noted_state num obs n budget st
          = Inr (with_notes r (without_stateless (obs_controls obs) (with_page num obs [] st)), True) \<and> render n k True True = Inr r)
   \<or> (\<exists>why. noted_state num obs n budget st = Inl (Agent_NotesTooLarge why))"
proof -
  have rend: "(\<exists>r. render n (max (budget - state_size x) 0) True True = Inr r)
      \<or> (\<exists>why. render n (max (budget - state_size x) 0) True True = Inl (Agent_NotesTooLarge why))" for x
    using render_error [of "max (budget - state_size x) 0" n True] by (cases "render n (max (budget - state_size x) 0) True True") auto
  show ?thesis
    using rend [of st] rend [of "with_page num obs [] st"] rend [of "without_stateless (obs_controls obs) (with_page num obs [] st)"]
    unfolding noted_state_def Let_def by (elim disjE exE) (simp_all, blast+)
qed

lemma noted_state_shows:
  assumes "noted_state num obs n budget st = Inr (st', cut_page)" and "state_shows num obs st"
  shows "state_shows num obs st' \<and> notes_shown n st'"
  using noted_state_cases [of num obs n budget st] assms by (auto intro: state_shows_steps)


section \<open>Every date has a calendar\<close>

lemma year_at_most: "list_all (\<lambda>y. year_start (y + 1) - year_start y \<le> 366) [0..399]"
  by code_simp

lemma civil_month: "\<exists>y m d. civil_from_days days = (y, m, d) \<and> 1 \<le> m \<and> m \<le> 12"
proof -
  define era where "era = (days + 719468) div 146097"
  define doe where "doe = (days + 719468) mod 146097"
  have days: "days = era * 146097 + doe - 719468" by (simp add: era_def doe_def)
  have "0 \<le> doe" "doe < 146097" by (simp_all add: doe_def)
  then obtain y where y: "0 \<le> y" "y < 400" "year_start y \<le> doe" "doe < year_start (y + 1)" using year_exists by blast
  define doy where "doy = doe - year_start y"
  have doy: "0 \<le> doy" "year_start y + doy < year_start (y + 1)" "doe = year_start y + doy" using y by (simp_all add: doy_def)
  have "year_start (y + 1) - year_start y \<le> 366"
    using y(1,2) year_at_most unfolding list_all_iff by simp
  then have "doy \<in> set [0..365]" using doy by simp
  then have "1 \<le> month_of doy \<and> month_of doy \<le> 12" using month_table unfolding list_all_iff by blast
  then show ?thesis using civil_from_days_split [OF y(1,2) doy(1,2), of era] unfolding days doy(3) by blast
qed

lemma add_days_month: "1 \<le> dt_month (add_days dt n) \<and> dt_month (add_days dt n) \<le> 12"
  using civil_month [of "days_from_civil (dt_year dt) (dt_month dt) (dt_day dt) + n"] by (auto simp: add_days_def)

lemma calendar_lines_total:
  "1 \<le> dt_month m \<Longrightarrow> dt_month m \<le> 12 \<Longrightarrow> calendar_lines n m \<noteq> None"
proof (induction n m rule: calendar_lines.induct)
  case (2 n m)
  moreover have "calendar_lines n (first_of_month (add_days m 32)) \<noteq> None"
    using add_days_month [of m 32] by (intro 2) (simp_all add: first_of_month_def)
  ultimately show ?case by (auto simp: month_calendar_def month_name_def split: option.splits)
qed simp

lemma today_total: "1 \<le> dt_month captured \<Longrightarrow> dt_month captured \<le> 12 \<Longrightarrow> today captured \<noteq> None"
  using calendar_lines_total [of "first_of_month captured" 13] by (simp add: today_def first_of_month_def)

end
