(* ===== verification/Stalls.thy ===== *)
theory Stalls
  imports PageState
begin

text \<open>
  \<^verbatim>\<open>crates/fastbrowse-agent/src/agent/helpers.rs\<close>, the loop's stateless judgements over a page and the history, and
  the pure half of \<^verbatim>\<open>agent/recovery.rs\<close>: leaving actions that moved nothing out of an ask.
\<close>

section \<open>What an ask carries\<close>

record ahead_question =
  ahead_operation :: operation
  ahead_control :: str
  ahead_name :: str
  ahead_asked :: question

record step_context =
  ctx_task :: str
  ctx_subgoal :: "str option"
  ctx_notes :: str
  ctx_answered_in_notes :: bool
  ctx_history :: "history_entry list"
  ctx_check_login :: bool
  ctx_check_answer :: bool
  ctx_check_bot :: bool
  ctx_has_attachments :: bool
  ctx_secrets :: "str list"
  ctx_start_url :: "str option"
  ctx_start_landing_url :: "str option"
  ctx_background :: "str option"
  ctx_problem :: "str option"
  ctx_withheld :: "operation list"
  ctx_withheld_targets :: "(operation \<times> str) list"
  ctx_no_value_fields :: "str list"
  ctx_page_facts :: "str list"
  ctx_reload :: "str option"
  ctx_screenshot :: "8 word list option"
  ctx_ahead :: "ahead_question list"
  ctx_omitted_actions :: nat

definition step_context_new :: "str \<Rightarrow> step_context" where
  "step_context_new t =
     \<lparr>ctx_task = t, ctx_subgoal = None, ctx_notes = [], ctx_answered_in_notes = False, ctx_history = [],
      ctx_check_login = False, ctx_check_answer = False, ctx_check_bot = False, ctx_has_attachments = False,
      ctx_secrets = [], ctx_start_url = None, ctx_start_landing_url = None, ctx_background = None,
      ctx_problem = None, ctx_withheld = [], ctx_withheld_targets = [], ctx_no_value_fields = [],
      ctx_page_facts = [], ctx_reload = None, ctx_screenshot = None, ctx_ahead = [], ctx_omitted_actions = 0\<rparr>"

definition ahead_key :: "ahead_question \<Rightarrow> str" where
  "ahead_key a = operation_str (ahead_operation a) @ lit '':'' @ ahead_control a @ lit '':'' @ ahead_name a"

section \<open>Addresses\<close>

definition path_of :: "url_crate \<Rightarrow> str \<Rightarrow> str" where
  "path_of U url = (case url_parse U url of Some u \<Rightarrow> url_path u | None \<Rightarrow> [])"

definition scheme_of :: "url_crate \<Rightarrow> str \<Rightarrow> str" where
  "scheme_of U url = (case url_parse U url of Some u \<Rightarrow> url_scheme u | None \<Rightarrow> [])"

definition netloc :: "url_parts \<Rightarrow> str" where
  "netloc u =
     (case (host_str u, url_port u) of
        (Some host, Some port) \<Rightarrow> host @ lit '':'' @ dec port
      | (Some host, None) \<Rightarrow> host
      | _ \<Rightarrow> [])"

definition netloc_of :: "url_crate \<Rightarrow> str \<Rightarrow> str" where
  "netloc_of U url = (case url_parse U url of Some u \<Rightarrow> netloc u | None \<Rightarrow> [])"

section \<open>Sources\<close>

definition source_dump :: "run_notes \<Rightarrow> evidence \<Rightarrow> str" where
  "source_dump n e =
     dumps (JObject
       [(lit ''url'', JString (ev_url e)), (lit ''frame_id'', json_text (ev_frame_id e)),
        (lit ''quote'', JString (ev_quote e)), (lit ''source_id'', JString (ev_source_id e)),
        (lit ''heading_path'', JArray (map JString (ev_heading_path e))),
        (lit ''page_title'', json_text (map_option page_title (captured_page_of n e)))])"

definition read_sources :: "run_notes \<Rightarrow> (str \<times> str option \<times> str) set" where
  "read_sources n = set (map (\<lambda>(_, e). (ev_url e, ev_frame_id e, source_dump n e)) (notes_evidence n))"

section \<open>Pages and controls\<close>

definition drew_something :: "observation \<Rightarrow> bool" where
  "drew_something obs \<longleftrightarrow> obs_controls obs \<noteq> [] \<or> strip (obs_viewport_text obs) \<noteq> []"

definition describe :: "control \<Rightarrow> str" where
  "describe c =
     (case non_empty (ctl_context c) of
        Some context \<Rightarrow> ctl_label c @ lit '' ('' @ context @ lit '')''
      | None \<Rightarrow> ctl_label c)"

definition caller_link :: "str \<Rightarrow> control" where
  "caller_link url = (control_new (lit ''caller-address'') (lit ''link'') url [Op_Click])\<lparr>ctl_href := Some url\<rparr>"

definition navigation_question :: "str \<Rightarrow> noul_question" where
  "navigation_question url = irreversible_question Op_Click (caller_link url) None []"

definition decision_label :: "decision \<Rightarrow> str option" where
  "decision_label d =
     (case dec_target d of
        Some target \<Rightarrow> Some (describe target)
      | None \<Rightarrow> (case dec_url d of Some url \<Rightarrow> Some url | None \<Rightarrow> dec_tab_id d))"

definition dialog_question :: "str \<Rightarrow> dialog option \<Rightarrow> noul_question option" where
  "dialog_question t d =
     (case d of
        None \<Rightarrow> None
      | Some dialog \<Rightarrow>
          if dialog_kind dialog \<notin> {lit ''confirm'', lit ''prompt'', lit ''beforeunload''} then None
          else Some (noul_new
            (UNTRUSTED @ [10] @ lit ''Task: '' @ t @ [10] @ lit ''The agent is about to accept this '' @ dialog_kind dialog
             @ lit '' dialog: '' @ repr (dialog_message dialog)
             @ lit ''. Would accepting commit an irreversible or externally visible change, such as deleting data, sending a message or spending money?'')
            (Some (lit ''Acceptance commits a destructive or externally visible change.''))
            (Some (lit ''Acceptance only navigates, reveals information or edits a reversible draft.''))))"

section \<open>Facts code states about a page\<close>

text \<open>The targets of the fills no later action can have sent, walking the executed steps back.\<close>

fun unsent_fields :: "history_entry list \<Rightarrow> str list" where
  "unsent_fields [] = []"
| "unsent_fields (h # hs) =
     (case he_operation h of
        Some Op_Fill \<Rightarrow> (case he_target h of Some t \<Rightarrow> t # unsent_fields hs | None \<Rightarrow> unsent_fields hs)
      | Some op \<Rightarrow>
          if op \<in> {Op_Read, Op_Select, Op_Scroll, Op_ScrollUp, Op_Wait} \<or> op = Op_Click \<and> he_setting h = Some True
          then unsent_fields hs else []
      | None \<Rightarrow> [])"

definition shows_value :: "observation \<Rightarrow> str \<Rightarrow> bool" where
  "shows_value obs field \<longleftrightarrow>
     list_ex (\<lambda>c. describe c = field \<and> is_some_and (ctl_value c) (\<lambda>v. v \<noteq> [])) (obs_controls obs)"

definition unsent_fact :: "history_entry list \<Rightarrow> observation \<Rightarrow> str option" where
  "unsent_fact hs obs =
     (let named = unsent_fields (filter (\<lambda>h. he_outcome h = Outcome_Executed) (rev hs));
          kept = unique (rev (filter (shows_value obs) named))
      in if kept = [] then None
         else Some (lit ''No action has sent what was typed into '' @ join (lit '', '') kept
           @ lit '': the page holds the typed value, and it reaches the site only once the form'' @ [39]
           @ lit ''s own control sends it.''))"

definition empty_fields_fact :: "(str \<times> str \<times> str option) set \<Rightarrow> observation \<Rightarrow> str option" where
  "empty_fields_fact omitted obs =
     (let empty = map (\<lambda>c. repr (ctl_label c))
            (filter (\<lambda>c. Op_Fill \<in> ctl_operations c \<and> non_empty (ctl_value c) = None
                         \<and> \<not> (\<exists>(_, label, _)\<in>omitted. label = ctl_label c)) (obs_controls obs))
      in if empty = [] then None
         else Some (lit ''No value has been entered on this page: '' @ join (lit '', '') empty
           @ lit '' are empty. A value the task states goes into its field before the form is confirmed.''))"

definition page_change_fact :: "history_entry list \<Rightarrow> observation \<Rightarrow> str option" where
  "page_change_fact hs obs =
     (if hs = [] then None
      else let h = last hs in
        if \<not> (he_added h \<and> he_operation h = Some Op_Click) then None
        else case he_target h of
          None \<Rightarrow> None
        | Some target \<Rightarrow>
            if list_ex (\<lambda>c. describe c = target) (obs_controls obs)
            then Some (lit ''Since the last attempt to click '' @ target
                   @ lit '', page text or controls changed without removing earlier controls. '' @ target @ lit '' is still offered.'')
            else None)"

section \<open>Links in an answer\<close>

text \<open>The next \<^verbatim>\<open>](<destination>)\<close>: where it starts, and where its destination starts and ends.\<close>

function find_answer_link :: "nat \<Rightarrow> str \<Rightarrow> (nat \<times> nat \<times> nat) option" where
  "find_answer_link base s =
     (case find_str (lit '']('' @ lit ''<'') (drop base s) of
        None \<Rightarrow> None
      | Some found \<Rightarrow>
          let start = base + found; destination = start + 3 in
          case find_pos (\<lambda>c. c = 62) (drop destination s) of
            None \<Rightarrow> None
          | Some k \<Rightarrow>
              if prefix (lit ''>)'') (drop (destination + k) s) then Some (start, destination, destination + k)
              else find_answer_link (start + 1) s)"
  by pat_completeness auto

termination find_answer_link
proof (relation "measure (\<lambda>(base, s). Suc (length s) - base)", simp)
  fix s :: str and base found start destination k
  assume found: "find_str (lit '']('' @ lit ''<'') (drop base s) = Some found" and "start = base + found"
  then have "base + found + 3 \<le> length s \<or> length s < base"
    using find_str_bound [OF found] by (auto simp: lit_def)
  moreover have "base \<le> length s" using find_str_bound [OF found] by (cases "base \<le> length s") (auto simp: lit_def)
  ultimately show "((start + 1, s), (base, s)) \<in> measure (\<lambda>(base, s). Suc (length s) - base)"
    using \<open>start = base + found\<close> by simp
qed

declare find_answer_link.simps [simp del]

lemma find_answer_link_bounds:
  "find_answer_link base s = Some (start, destination, stop) \<Longrightarrow>
     base \<le> start \<and> destination = start + 3 \<and> destination \<le> stop \<and> stop + 2 \<le> length s"
proof (induction base s rule: find_answer_link.induct)
  case (1 base s)
  then show ?case
    using prefix_length_le
    by (fastforce simp: find_answer_link.simps [of base s] Let_def lit_def split: option.splits if_splits dest!: prefix_length_le)
qed

function split_answer_links :: "str \<Rightarrow> str list" where
  "split_answer_links s =
     (case find_answer_link 0 s of
        None \<Rightarrow> [s]
      | Some (start, destination, stop) \<Rightarrow>
          take start s # take (stop - destination) (drop destination s) # split_answer_links (drop (stop + 2) s))"
  by pat_completeness auto

termination split_answer_links
  by (relation "measure length") (auto dest: find_answer_link_bounds)

declare split_answer_links.simps [simp del]

section \<open>Leaving actions out of an ask\<close>

definition DONE :: withheld where
  "DONE = Some (Op_Done, None)"

definition idle_performed :: "withheld \<Rightarrow> idle" where
  "idle_performed w = \<lparr>idle_action = w, idle_outcome = Outcome_Executed\<rparr>"

definition idle_why :: "idle \<Rightarrow> str" where
  "idle_why i =
     (case idle_outcome i of
        Outcome_Covered \<Rightarrow> lit ''was not performed: something covers its target, so it is not offered until an action changes the page.''
      | Outcome_Stale \<Rightarrow> lit ''was not performed by the browser, so it is not offered this time.''
      | _ \<Rightarrow> lit ''did not move the task on from this page, so it is not offered this time.'')"

definition named_controls :: "str \<Rightarrow> control list \<Rightarrow> control list" where
  "named_controls label cs = filter (\<lambda>c. describe c = label) cs"

definition drop_operation :: "operation \<Rightarrow> str \<Rightarrow> control list \<Rightarrow> control list" where
  "drop_operation op label cs =
     filter (\<lambda>c. ctl_operations c \<noteq> {})
       (map (\<lambda>c. if describe c = label then c\<lparr>ctl_operations := ctl_operations c - {op}\<rparr> else c) cs)"

definition withhold :: "observation \<Rightarrow> step_context \<Rightarrow> str \<Rightarrow> idle \<Rightarrow> observation \<times> step_context" where
  "withhold offered ctx why i =
     (let (offered', ctx', problem) =
        (case idle_action i of
           None \<Rightarrow> (offered, ctx, why)
         | Some (op, label) \<Rightarrow>
             let (offered', ctx', left_out) =
               (case label of
                  Some l \<Rightarrow>
                    let named = named_controls l (obs_controls offered);
                        left = (if op = Op_Blur then filter leavable named else [])
                    in (offered\<lparr>obs_controls := drop_operation op l (obs_controls offered)\<rparr>,
                        ctx\<lparr>ctx_withheld_targets := ctx_withheld_targets ctx @ map (\<lambda>c. (op, ctl_id c)) left\<rparr>,
                        left \<noteq> [] \<or> list_ex (\<lambda>c. op \<in> ctl_operations c) named)
                | None \<Rightarrow> (offered, ctx\<lparr>ctx_withheld := ctx_withheld ctx @ [op]\<rparr>, True));
                 what = (case label of Some l \<Rightarrow> operation_str op @ lit '' '' @ repr l | None \<Rightarrow> operation_str op)
             in (offered', ctx',
                 (if left_out then (if why = [] then [] else why @ [10]) @ what @ lit '' '' @ idle_why i else why)))
      in (offered', ctx'\<lparr>ctx_problem := (if problem = [] then None else Some problem)\<rparr>))"

definition omitted_field :: "(str \<times> str \<times> str option) set \<Rightarrow> str \<Rightarrow> control \<Rightarrow> bool" where
  "omitted_field omitted url c \<longleftrightarrow> (url, ctl_label c, ctl_context c) \<in> omitted"

definition unfilled :: "observation \<Rightarrow> (str \<times> str \<times> str option) set \<Rightarrow> str list" where
  "unfilled obs omitted =
     foldl push_new []
       (map ctl_label (filter (\<lambda>c. Op_Fill \<in> ctl_operations c \<and> omitted_field omitted (obs_url obs) c) (obs_controls obs)))"

definition leave_out_one :: "observation \<times> step_context \<Rightarrow> idle \<Rightarrow> observation \<times> step_context" where
  "leave_out_one p i =
     withhold (fst p) ((snd p)\<lparr>ctx_problem := None\<rparr>) (case ctx_problem (snd p) of Some why \<Rightarrow> why | None \<Rightarrow> []) i"

definition leave_out_idle :: "run_state \<Rightarrow> observation \<Rightarrow> step_context \<Rightarrow> observation \<times> step_context" where
  "leave_out_idle s offered ctx =
     (let (offered, ctx) = foldl leave_out_one (offered, ctx) (idle_actions s)
      in (offered\<lparr>obs_controls := filter (\<lambda>c. \<not> omitted_field (missing s) (obs_url offered) c) (obs_controls offered)\<rparr>, ctx))"

definition uncover :: "idle list \<Rightarrow> idle list" where
  "uncover idles = filter (\<lambda>i. idle_outcome i \<noteq> Outcome_Covered) idles"

definition withheld_of :: "decision \<Rightarrow> withheld" where
  "withheld_of d = Some (dec_operation d, decision_label d)"

section \<open>What is left out: facts\<close>

definition left_controls :: "idle \<Rightarrow> control list \<Rightarrow> control list" where
  "left_controls i cs = (case idle_action i of Some (op, Some label) \<Rightarrow> drop_operation op label cs | _ \<Rightarrow> cs)"

definition withheld_operations :: "idle list \<Rightarrow> control \<Rightarrow> operation set" where
  "withheld_operations idles c = {op. \<exists>i\<in>set idles. idle_action i = Some (op, Some (describe c))}"

lemma withhold_controls: "obs_controls (fst (withhold offered ctx why i)) = left_controls i (obs_controls offered)"
  "obs_url (fst (withhold offered ctx why i)) = obs_url offered"
  by (auto simp: withhold_def left_controls_def Let_def split: option.splits prod.splits)

lemma withhold_context:
  "set (ctx_withheld ctx) \<subseteq> set (ctx_withheld (snd (withhold offered ctx why i)))"
  "idle_action i = Some (op, None) \<Longrightarrow> op \<in> set (ctx_withheld (snd (withhold offered ctx why i)))"
  by (auto simp: withhold_def Let_def split: option.splits prod.splits)

lemma describe_operations [simp]: "describe (c\<lparr>ctl_operations := ops\<rparr>) = describe c"
  by (simp add: describe_def split: option.split)

lemma drop_operation_set:
  "c' \<in> set (drop_operation op label cs) \<Longrightarrow>
     \<exists>c\<in>set cs. c' = c\<lparr>ctl_operations := ctl_operations c - {x. x = op \<and> describe c = label}\<rparr>"
proof -
  assume "c' \<in> set (drop_operation op label cs)"
  then obtain c where c: "c \<in> set cs" "c' = (if describe c = label then c\<lparr>ctl_operations := ctl_operations c - {op}\<rparr> else c)"
    unfolding drop_operation_def set_filter set_map by blast
  have "{x. x = op \<and> describe c = label} = (if describe c = label then {op} else {})" by auto
  with c show ?thesis by (intro bexI [of _ c]) (simp_all split: if_splits)
qed

lemma left_controls_in:
  assumes "c' \<in> set (left_controls i cs)"
  shows "\<exists>c\<in>set cs. c' = c\<lparr>ctl_operations := ctl_operations c - withheld_operations [i] c\<rparr>"
proof (cases "\<exists>op label. idle_action i = Some (op, Some label)")
  case True
  then obtain op label where i: "idle_action i = Some (op, Some label)" by blast
  have "withheld_operations [i] c = {x. x = op \<and> describe c = label}" for c using i by (auto simp: withheld_operations_def)
  then show ?thesis using drop_operation_set [of c' op label cs] assms i by (simp add: left_controls_def)
next
  case False
  then have "left_controls i cs = cs" "withheld_operations [i] c = {}" for c
    by (auto simp: left_controls_def withheld_operations_def split: option.splits)
  then show ?thesis using assms by (intro bexI [of _ c']) simp_all
qed

lemma left_controls_keep:
  assumes "c \<in> set cs" and "ctl_operations c - withheld_operations [i] c \<noteq> {}"
  shows "c\<lparr>ctl_operations := ctl_operations c - withheld_operations [i] c\<rparr> \<in> set (left_controls i cs)"
proof (cases "\<exists>op label. idle_action i = Some (op, Some label)")
  case True
  then obtain op label where i: "idle_action i = Some (op, Some label)" by blast
  have w: "withheld_operations [i] c = {x. x = op \<and> describe c = label}" using i by (auto simp: withheld_operations_def)
  show ?thesis
    using assms unfolding w by (cases "describe c = label") (auto simp: left_controls_def drop_operation_def i image_iff)
next
  case False
  then have "left_controls i cs = cs" "withheld_operations [i] c = {}"
    by (auto simp: left_controls_def withheld_operations_def split: option.splits)
  then show ?thesis using assms by simp
qed

lemma withheld_operations_Cons:
  "withheld_operations (i # idles) c = withheld_operations [i] c \<union> withheld_operations idles c"
  by (auto simp: withheld_operations_def)

lemma withheld_operations_same [simp]:
  "withheld_operations idles (c\<lparr>ctl_operations := ops\<rparr>) = withheld_operations idles c"
  by (simp add: withheld_operations_def)

lemma diff_union: "A - (B \<union> C) = A - B - C"
  by blast

lemma left_all_in:
  "c' \<in> set (foldl (\<lambda>cs i. left_controls i cs) cs idles) \<Longrightarrow>
     \<exists>c\<in>set cs. c' = c\<lparr>ctl_operations := ctl_operations c - withheld_operations idles c\<rparr>"
proof (induction idles arbitrary: cs)
  case Nil
  then show ?case by (intro bexI [of _ c']) (simp_all add: withheld_operations_def)
next
  case (Cons i idles)
  then obtain c1 where c1: "c1 \<in> set (left_controls i cs)"
    "c' = c1\<lparr>ctl_operations := ctl_operations c1 - withheld_operations idles c1\<rparr>" by auto
  then obtain c where "c \<in> set cs" "c1 = c\<lparr>ctl_operations := ctl_operations c - withheld_operations [i] c\<rparr>"
    using left_controls_in by blast
  then show ?case
    using c1(2) by (intro bexI [of _ c]) (simp_all add: withheld_operations_Cons [of i idles] diff_union)
qed

lemma left_all_keep:
  "c \<in> set cs \<Longrightarrow> ctl_operations c - withheld_operations idles c \<noteq> {} \<Longrightarrow>
     c\<lparr>ctl_operations := ctl_operations c - withheld_operations idles c\<rparr> \<in> set (foldl (\<lambda>cs i. left_controls i cs) cs idles)"
proof (induction idles arbitrary: cs c)
  case Nil
  then show ?case by (simp add: withheld_operations_def)
next
  case (Cons i idles)
  let ?c1 = "c\<lparr>ctl_operations := ctl_operations c - withheld_operations [i] c\<rparr>"
  have w: "withheld_operations (i # idles) c = withheld_operations [i] c \<union> withheld_operations idles c"
    by (rule withheld_operations_Cons)
  have "ctl_operations c - withheld_operations [i] c \<noteq> {}" using Cons.prems(2) unfolding w by blast
  then have "?c1 \<in> set (left_controls i cs)" using left_controls_keep Cons.prems(1) by blast
  from Cons.IH [OF this] Cons.prems(2) show ?case
    unfolding w by (simp add: diff_union)
qed

lemma leave_out_one_facts:
  "obs_controls (fst (leave_out_one p i)) = left_controls i (obs_controls (fst p))"
  "obs_url (fst (leave_out_one p i)) = obs_url (fst p)"
  "set (ctx_withheld (snd p)) \<union> {op. idle_action i = Some (op, None)} \<subseteq> set (ctx_withheld (snd (leave_out_one p i)))"
  using withhold_context(1) [of "(snd p)\<lparr>ctx_problem := None\<rparr>"] withhold_context(2) [of i]
  by (auto simp: leave_out_one_def withhold_controls subset_iff)

lemma leave_out_loop:
  "obs_controls (fst (foldl leave_out_one p idles)) = foldl (\<lambda>cs i. left_controls i cs) (obs_controls (fst p)) idles
   \<and> obs_url (fst (foldl leave_out_one p idles)) = obs_url (fst p)
   \<and> set (ctx_withheld (snd p)) \<union> {op. \<exists>i\<in>set idles. idle_action i = Some (op, None)}
       \<subseteq> set (ctx_withheld (snd (foldl leave_out_one p idles)))"
proof (induction idles arbitrary: p)
  case (Cons i idles)
  have "{op. \<exists>j\<in>set (i # idles). idle_action j = Some (op, None)}
      = {op. idle_action i = Some (op, None)} \<union> {op. \<exists>j\<in>set idles. idle_action j = Some (op, None)}" by auto
  moreover note Cons.IH [of "leave_out_one p i", unfolded leave_out_one_facts(1,2)] leave_out_one_facts(3) [of p i]
  ultimately show ?case unfolding foldl_Cons by blast
qed simp


section \<open>Links in an answer: facts\<close>

fun unsplit_links :: "str list \<Rightarrow> str" where
  "unsplit_links [] = []"
| "unsplit_links [prose] = prose"
| "unsplit_links (prose # destination # rest) = prose @ lit '']('' @ lit ''<'' @ destination @ lit ''>)'' @ unsplit_links rest"

fun destinations :: "str list \<Rightarrow> str list" where
  "destinations (prose # destination # rest) = destination # destinations rest"
| "destinations _ = []"

lemma find_answer_link_parts:
  "find_answer_link base s = Some (start, destination, stop) \<Longrightarrow>
     prefix (lit '']('' @ lit ''<'') (drop start s) \<and> prefix (lit ''>)'') (drop stop s)
     \<and> 62 \<notin> set (take (stop - destination) (drop destination s))"
proof (induction base s rule: find_answer_link.induct)
  case (1 base s)
  note unfolded = "1.prems" [unfolded find_answer_link.simps [of base s]]
  show ?case
  proof (cases "find_str (lit '']('' @ lit ''<'') (drop base s)")
    case None
    then show ?thesis using unfolded by simp
  next
    case (Some found)
    show ?thesis
    proof (cases "find_pos (\<lambda>c. c = 62) (drop (base + found + 3) s)")
      case None
      then show ?thesis using unfolded Some by (simp add: Let_def)
    next
      case pos: (Some k)
      show ?thesis
      proof (cases "prefix (lit ''>)'') (drop (base + found + 3 + k) s)")
        case True
        then have "start = base + found" "destination = base + found + 3" "stop = base + found + 3 + k"
          using unfolded Some pos by (simp_all add: Let_def)
        moreover have "prefix (lit '']('' @ lit ''<'') (drop (base + found) s)"
          using find_str_Some [OF Some] by (simp add: add.commute)
        moreover have "62 \<notin> set (take k (drop (base + found + 3) s))"
          using find_pos_Some [OF pos] by (auto simp: in_set_conv_nth)
        ultimately show ?thesis using True by simp
      next
        case False
        then have "find_answer_link (base + found + 1) s = Some (start, destination, stop)"
          using unfolded Some pos by (simp add: Let_def)
        with "1.IH" [OF Some refl refl pos] False show ?thesis by simp
      qed
    qed
  qed
qed

text \<open>
  Splitting an answer at its links loses nothing: the pieces are prose and destinations in turn, beginning and
  ending with prose, no destination holds the closing bracket, and put back together with the link
  marks they are the answer.
\<close>

theorem split_answer_links_roundtrip:
  "unsplit_links (split_answer_links s) = s \<and> odd (length (split_answer_links s))
   \<and> list_all (\<lambda>d. 62 \<notin> set d) (destinations (split_answer_links s))"
proof (induction s rule: split_answer_links.induct)
  case (1 s)
  show ?case
  proof (cases "find_answer_link 0 s")
    case None
    then show ?thesis by (simp add: split_answer_links.simps [of s])
  next
    case (Some p)
    obtain start destination stop where p: "p = (start, destination, stop)" by (cases p)
    note link = Some [unfolded p]
    have bounds: "destination = start + 3" "destination \<le> stop" "stop + 2 \<le> length s"
      using find_answer_link_bounds [OF link] by simp_all
    have parts: "prefix (lit '']('' @ lit ''<'') (drop start s)" "prefix (lit ''>)'') (drop stop s)"
      "62 \<notin> set (take (stop - destination) (drop destination s))"
      using find_answer_link_parts [OF link] by simp_all
    obtain zs where zs: "drop start s = lit '']('' @ lit ''<'' @ zs" using parts(1) by (auto simp: prefix_def)
    have "drop destination s = drop 3 (drop start s)" using bounds(1) by (simp add: add.commute)
    also have "\<dots> = zs" unfolding zs by (simp add: lit_def)
    finally have "s = take start s @ lit '']('' @ lit ''<'' @ drop destination s"
      using zs append_take_drop_id [of start s] by metis
    moreover have "drop destination s = take (stop - destination) (drop destination s) @ drop stop s"
      using bounds by (metis append_take_drop_id drop_drop le_add_diff_inverse2)
    moreover have "drop stop s = lit ''>)'' @ drop (stop + 2) s"
    proof -
      obtain ws where ws: "drop stop s = lit ''>)'' @ ws" using parts(2) by (auto simp: prefix_def)
      have "drop (stop + 2) s = drop 2 (drop stop s)" by (simp add: add.commute)
      also have "\<dots> = ws" unfolding ws by (simp add: lit_def)
      finally show ?thesis using ws by simp
    qed
    ultimately have whole: "s = take start s @ lit '']('' @ lit ''<'' @ take (stop - destination) (drop destination s)
        @ lit ''>)'' @ drop (stop + 2) s" by metis
    have split: "split_answer_links s = take start s # take (stop - destination) (drop destination s)
        # split_answer_links (drop (stop + 2) s)"
      using link by (simp add: split_answer_links.simps [of s])
    show ?thesis using "1.IH" [OF Some p [symmetric] refl] whole [symmetric] parts(3) unfolding split by simp
  qed
qed

end
