(* ===== verification/Agents.thy ===== *)
theory Agents
  imports Stalls
begin

text \<open>
  The agent as its handlers see it (\<^verbatim>\<open>crates/fastbrowse-agent/src/agent/mod.rs\<close>), the requests it sends Jev, the
  steps it records (\<^verbatim>\<open>agent/driving.rs\<close>) and the gates code owns (\<^verbatim>\<open>agent/acting.rs\<close>).

  A handler is a function of the world: the run's state and what the agent shares with the page and its caller.
  Jev, the LLM, the browser page, the clock and the store of secrets are the fields of \<open>agent_env\<close>; each may answer
  anything, depending on all that happened, since the world holds a log of every request.  An \<^verbatim>\<open>Err\<close> keeps the
  changes made before it.
\<close>

section \<open>The world\<close>

type_synonym questions = "(str, question) index_map"

type_synonym request = "jev_purpose \<times> json \<times> questions"

datatype llm_role = Role_System | Role_User | Role_Assistant

record llm_message =
  msg_role :: llm_role
  msg_content :: str
  msg_images :: "8 word list list"

definition message_new :: "llm_role \<Rightarrow> str \<Rightarrow> llm_message" where
  "message_new r content = \<lparr>msg_role = r, msg_content = content, msg_images = []\<rparr>"

text \<open>
  A request for a field's value leaves the client's own reservations in the ledger; its answer, when there is one,
  is the value and the receipt.
\<close>

record agent_world =
  w_run :: run_state
  w_redactor :: redactor
  w_raw :: "observation option"
  w_secret_on_screen :: bool
  w_asked :: "(request \<times> (decision_error + evaluation)) list"
  w_generated :: "(llm_purpose \<times> llm_message list) list"
  w_emitted :: "(step_result \<times> 8 word list option) list"
  w_traced :: "(str \<times> json) list"
  w_handed_over :: bool
  w_frames_withheld :: bool

record agent_env =
  env_unicode :: unicode_tables
  env_urls :: url_crate
  env_sha :: "nat list \<Rightarrow> str"
  env_num :: "real \<Rightarrow> f64_form"
  env_config :: config
  env_profile :: decision_profile
  env_clock :: "agent_world \<Rightarrow> real"
  env_evaluate :: "agent_world \<Rightarrow> request \<Rightarrow> decision_error + evaluation"
  env_write :: "agent_world \<Rightarrow> llm_message list \<Rightarrow> (llm_error + str option \<times> cost_line) \<times> ledger"
  env_on_event :: bool
  env_glance :: "agent_world \<Rightarrow> browser_error + observation"
  env_screenshot :: "agent_world \<Rightarrow> browser_error + 8 word list"
  env_over_http :: bool
  env_needs_browser :: "str \<Rightarrow> browser_error"
  env_secrets :: "(secret_ref list \<times> (agent_world \<Rightarrow> str \<Rightarrow> str \<Rightarrow> str option)) option"

type_synonym 'a step = "agent_world \<Rightarrow> (flow + 'a) \<times> agent_world"

definition step_ok :: "'a \<Rightarrow> 'a step" where
  "step_ok x w = (Inr x, w)"

definition step_fail :: "flow \<Rightarrow> 'a step" where
  "step_fail e w = (Inl e, w)"

definition step_bind :: "'a step \<Rightarrow> ('a \<Rightarrow> 'b step) \<Rightarrow> 'b step" where
  "step_bind m f w = (case m w of (Inl e, w') \<Rightarrow> (Inl e, w') | (Inr x, w') \<Rightarrow> f x w')"

definition step_of_result :: "('e \<Rightarrow> flow) \<Rightarrow> 'e + 'a \<Rightarrow> 'a step" where
  "step_of_result wrap r = (case r of Inl e \<Rightarrow> step_fail (wrap e) | Inr x \<Rightarrow> step_ok x)"

text \<open>Reading the state, and changing it.\<close>

definition with_run :: "(run_state \<Rightarrow> 'a step) \<Rightarrow> 'a step" where
  "with_run f w = f (w_run w) w"

definition change_run :: "(run_state \<Rightarrow> run_state) \<Rightarrow> unit step" where
  "change_run f w = (Inr (), w\<lparr>w_run := f (w_run w)\<rparr>)"

definition agent_redact :: "agent_env \<Rightarrow> agent_world \<Rightarrow> str \<Rightarrow> str" where
  "agent_redact E w s = redact (env_unicode E) (env_urls E) (w_redactor w) s"

definition agent_mask :: "agent_env \<Rightarrow> agent_world \<Rightarrow> str \<Rightarrow> str" where
  "agent_mask E w s = mask_text (env_unicode E) (env_urls E) (w_redactor w) s"

definition reveals_text :: "agent_env \<Rightarrow> agent_world \<Rightarrow> str \<Rightarrow> bool" where
  "reveals_text E w s = reveals (env_unicode E) (env_urls E) (w_redactor w) s"

definition secret_names :: "agent_env \<Rightarrow> str \<Rightarrow> str list" where
  "secret_names E orig =
     (case env_secrets E of
        None \<Rightarrow> []
      | Some (avail, _) \<Rightarrow> map secret_name (filter (\<lambda>s. secret_allowed (env_unicode E) (env_urls E) s orig) avail))"

definition trace_event :: "str \<Rightarrow> json \<Rightarrow> unit step" where
  "trace_event name v w = (Inr (), w\<lparr>w_traced := w_traced w @ [(name, v)]\<rparr>)"

section \<open>Requests\<close>

definition reserve_calls :: "agent_env \<Rightarrow> cost_component \<Rightarrow> int \<Rightarrow> unit step" where
  "reserve_calls E component calls w =
     (case reserve (env_num E) (env_clock E w) (run_ledger (w_run w)) component 0 calls of
        (r, L) \<Rightarrow> (map_sum flow_of_budget id r, w\<lparr>w_run := (w_run w)\<lparr>run_ledger := L\<rparr>\<rparr>))"

definition record_costs :: "agent_env \<Rightarrow> cost_line list \<Rightarrow> unit step" where
  "record_costs E ls w =
     (case ledger_record (env_num E) (env_clock E w) (run_ledger (w_run w)) ls of
        (r, L) \<Rightarrow> (map_sum flow_of_budget id r, w\<lparr>w_run := (w_run w)\<lparr>run_ledger := L\<rparr>\<rparr>))"

definition with_purpose :: "jev_purpose \<Rightarrow> evaluation \<Rightarrow> evaluation" where
  "with_purpose purpose ev = ev\<lparr>eval_cost := (eval_cost ev)\<lparr>line_decision_purpose := Some purpose\<rparr>\<rparr>"

fun error_with_purpose :: "jev_purpose \<Rightarrow> decision_error \<Rightarrow> decision_error" where
  "error_with_purpose purpose (Decision_RetriesExhausted x) =
     Decision_RetriesExhausted (x\<lparr>re_answered := map (with_purpose purpose) (re_answered x)\<rparr>)"
| "error_with_purpose purpose e = e"

definition evaluate :: "agent_env \<Rightarrow> request \<Rightarrow> evaluation step" where
  "evaluate E r w =
     (let result = map_sum (error_with_purpose (fst r)) (with_purpose (fst r)) (env_evaluate E w r)
      in step_of_result flow_of_decision result (w\<lparr>w_asked := w_asked w @ [(r, result)]\<rparr>))"

text \<open>The reserve, the request and the receipt, as every handler that asks Jev once does them.\<close>

definition ask_jev :: "agent_env \<Rightarrow> request \<Rightarrow> evaluation step" where
  "ask_jev E r =
     step_bind (reserve_calls E Cost_Jev 1) (\<lambda>_.
     step_bind (evaluate E r) (\<lambda>ev.
     step_bind (record_costs E [eval_cost ev]) (\<lambda>_. step_ok ev)))"

definition noul_of :: "evaluation \<Rightarrow> str \<Rightarrow> real option" where
  "noul_of ev key = Option.bind (im_get (eval_answers ev) key) answer_probability"

section \<open>Frames and steps\<close>

definition reveals_page :: "agent_env \<Rightarrow> observation \<Rightarrow> bool step" where
  "reveals_page E obs w =
     (let revealed = (obs_dialog obs \<noteq> None \<or> reveals_text E w (dump_json (observation_dump (env_num E) obs)))
      in (Inr revealed, w\<lparr>w_frames_withheld := revealed\<rparr>))"

definition take_screenshot :: "agent_env \<Rightarrow> 8 word list option step" where
  "take_screenshot E w =
     (case env_screenshot E w of
        Inr png \<Rightarrow> (Inr (Some png), w)
      | Inl (Browser_ScreenshotsUnavailable _) \<Rightarrow> (Inr None, w)
      | Inl e \<Rightarrow> (Inl (Flow_Browser e), w))"

definition glance :: "agent_env \<Rightarrow> observation step" where
  "glance E w = step_of_result Flow_Browser (env_glance E w) w"

definition frame :: "agent_env \<Rightarrow> 8 word list option step" where
  "frame E =
     step_bind (glance E) (\<lambda>now.
     step_bind (reveals_page E now) (\<lambda>revealed.
       if revealed then step_ok None else take_screenshot E))"

definition screenshots :: "agent_env \<Rightarrow> 8 word list list step" where
  "screenshots E w =
     (if w_secret_on_screen w then (Inr [], w)
      else step_bind (glance E) (\<lambda>now.
           step_bind (reveals_page E now) (\<lambda>revealed.
             if revealed then step_ok []
             else step_bind (take_screenshot E) (\<lambda>shot. step_ok (case shot of Some png \<Rightarrow> [png] | None \<Rightarrow> [])))) w)"

definition viewport :: "agent_env \<Rightarrow> 8 word list option step" where
  "viewport E =
     (if \<not> profile_images (env_profile E) then step_ok None
      else step_bind (screenshots E) (\<lambda>pngs. step_ok (find jev_takes_png pngs)))"

definition drawn_viewport :: "agent_env \<Rightarrow> observation \<Rightarrow> 8 word list option step" where
  "drawn_viewport E obs = (if \<not> obs_visual_content obs then step_ok None else viewport E)"

definition recorded_form :: "agent_env \<Rightarrow> agent_world \<Rightarrow> step_result \<Rightarrow> step_result" where
  "recorded_form E w st =
     st\<lparr>step_url := agent_redact E w (step_url st),
        step_target := map_option (agent_redact E w) (step_target st),
        step_note := map_option (agent_redact E w) (step_note st),
        step_choices := map (\<lambda>c. c\<lparr>choice_label := agent_mask E w (choice_label c),
                                   choice_context := map_option (agent_mask E w) (choice_context c)\<rparr>)
                          (choices (w_run w))\<rparr>"

definition keep_step :: "step_result \<Rightarrow> run_state \<Rightarrow> run_state" where
  "keep_step st s =
     s\<lparr>choices := [], taken_steps := taken_steps s @ [st], run_ledger := count_step (step_outcome st) (run_ledger s)\<rparr>"

definition emit_step :: "step_result \<Rightarrow> 8 word list option \<Rightarrow> unit step" where
  "emit_step st shot w = (Inr (), w\<lparr>w_emitted := w_emitted w @ [(st, shot)]\<rparr>)"

definition record_step :: "agent_env \<Rightarrow> step_result \<Rightarrow> bool \<Rightarrow> 8 word list option \<Rightarrow> unit step" where
  "record_step E st capture_frame given w =
     (let st = recorded_form E w st in
      step_bind (change_run (keep_step st)) (\<lambda>_.
        if \<not> env_on_event E then step_ok ()
        else step_bind (if capture_frame \<and> step_frames (env_config E) then frame E else step_ok given) (emit_step st)) w)"

definition failed_step ::
  "run_state \<Rightarrow> observation \<Rightarrow> operation \<Rightarrow> str \<Rightarrow> str option \<Rightarrow> real option \<Rightarrow> bool option \<Rightarrow> decider \<Rightarrow> step_result" where
  "failed_step s obs op why target conf changed by =
     \<lparr>step_index = int (length (taken_steps s)), step_operation = op, step_decided_by = by,
      step_outcome = Outcome_Failed, step_url = obs_url obs, step_target = target, step_confidence = conf,
      step_note = Some why, step_facts = [], step_page_changed = changed, step_duration_ms = 0, step_choices = []\<rparr>"

definition record_failure ::
  "agent_env \<Rightarrow> observation \<Rightarrow> operation \<Rightarrow> str \<Rightarrow> str option \<Rightarrow> real option \<Rightarrow> bool option \<Rightarrow> decider \<Rightarrow> unit step" where
  "record_failure E obs op why target conf changed by =
     with_run (\<lambda>s. record_step E (failed_step s obs op why target conf changed by) True None)"

section \<open>Gates\<close>

definition times_done :: "history_entry list \<Rightarrow> operation \<Rightarrow> control \<Rightarrow> nat" where
  "times_done hs op target =
     length (filter (\<lambda>h. he_outcome h = Outcome_Executed \<and> he_operation h = Some op
                         \<and> he_target h = Some (describe target)) hs)"

definition gate_questions ::
  "history_entry list \<Rightarrow> operation \<Rightarrow> control \<Rightarrow> control option \<Rightarrow> control list
     \<Rightarrow> noul_question option \<times> noul_question \<times> noul_question" where
  "gate_questions hs op target destination controls =
     (let lasting = lasting_question op target destination controls;
          irreversible = (if \<not> changes_credentials controls target op
                          then Some (irreversible_question op target destination controls) else None);
          action = control_action op target destination controls;
          done_before = times_done hs op target;
          action = (if 0 < done_before
                    then action @ lit ''This run has already done this ''
                         @ (if done_before = 1 then lit ''once'' else dec done_before @ lit '' times'') @ lit ''.'' @ [10]
                    else action)
      in (irreversible, requested_question action, lasting))"

definition gate_decider :: "decision \<Rightarrow> decider" where
  "gate_decider d = (if dec_replayed d then Decider_Recipe else Decider_Jev)"

text \<open>The step a refused decision is recorded as.\<close>

definition refuse :: "agent_env \<Rightarrow> observation \<Rightarrow> decision \<Rightarrow> str \<Rightarrow> str \<Rightarrow> unit step" where
  "refuse E obs d label why w =
     record_failure E obs (dec_operation d) (agent_redact E w why) (Some (agent_redact E w label))
       (Some (confidence d)) (Some False) (gate_decider d) w"

text \<open>A refusal Jev is asked again after.\<close>

definition refuse_unsure :: "agent_env \<Rightarrow> observation \<Rightarrow> decision \<Rightarrow> str \<Rightarrow> str \<Rightarrow> unit step" where
  "refuse_unsure E obs d label why w =
     step_bind (refuse E obs d label why) (\<lambda>_. step_fail (Flow_Unsure (unsure_new (agent_redact E w why)))) w"

definition downloads_forbidden :: "agent_env \<Rightarrow> bool step" where
  "downloads_forbidden E =
     with_run (\<lambda>s.
       case downloads_forbidden_kept s of
         Some forbidden \<Rightarrow> step_ok forbidden
       | None \<Rightarrow>
           step_bind (ask_jev E (Jev_Authorization, JObject [(lit ''task'', JString (task s))],
                                 [(lit ''downloads'', Q_Noul (downloads_question (task s)))])) (\<lambda>ev.
             case noul_of ev (lit ''downloads'') of
               None \<Rightarrow> step_ok True
             | Some p \<Rightarrow>
                 let forbidden = (p > irreversible_above (cfg_thresholds (env_config E)))
                 in step_bind (change_run (\<lambda>s. s\<lparr>downloads_forbidden_kept := Some forbidden\<rparr>)) (\<lambda>_. step_ok forbidden)))"

definition gate_download :: "agent_env \<Rightarrow> observation \<Rightarrow> decision \<Rightarrow> control \<Rightarrow> unit step" where
  "gate_download E obs d c =
     (if \<not> starts_download (env_unicode E) (env_urls E) c then step_ok ()
      else step_bind (downloads_forbidden E) (\<lambda>forbidden.
        if \<not> forbidden then step_ok ()
        else refuse_unsure E obs d (describe c)
               (operation_str (dec_operation d) @ lit '' '' @ repr (describe c)
                @ lit '' downloads a file, and the task rules out downloading'')))"

definition gate_asked ::
  "bool \<Rightarrow> noul_question option \<Rightarrow> noul_question \<Rightarrow> noul_question option \<Rightarrow> questions" where
  "gate_asked authorized irreversible requested lasting =
     (case irreversible of Some q \<Rightarrow> [(lit ''irreversible'', Q_Noul q)] | None \<Rightarrow> [])
     @ (if authorized
        then (lit ''requested'', Q_Noul requested)
             # (case lasting of Some q \<Rightarrow> [(lit ''lasting'', Q_Noul q)] | None \<Rightarrow> [])
        else [])"

definition gate_page :: "agent_env \<Rightarrow> run_state \<Rightarrow> observation \<Rightarrow> json" where
  "gate_page E s obs =
     JObject [(lit ''task'', JString (task s)),
              (lit ''page'', JObject [(lit ''origin'', JString (secret_origin_of (env_unicode E) (env_urls E) (obs_url obs)))])]"

definition json_probability :: "agent_env \<Rightarrow> real option \<Rightarrow> json" where
  "json_probability E p = (case p of Some x \<Rightarrow> json_float (env_num E) x | None \<Rightarrow> JNull)"

definition gate_trace :: "agent_env \<Rightarrow> decision \<Rightarrow> str \<Rightarrow> evaluation \<Rightarrow> json" where
  "gate_trace E d label ev =
     JObject [(lit ''target'', JString label), (lit ''context'', json_text (Option.bind (dec_target d) ctl_context)),
              (lit ''probability'', json_probability E (noul_of ev (lit ''irreversible''))),
              (lit ''requested'', json_probability E (noul_of ev (lit ''requested''))),
              (lit ''lasting'', json_probability E (noul_of ev (lit ''lasting'')))]"

text \<open>The three judgements.\<close>

definition judged_reversible :: "agent_env \<Rightarrow> evaluation \<Rightarrow> bool" where
  "judged_reversible E ev \<longleftrightarrow>
     is_some_and (noul_of ev (lit ''irreversible'')) (\<lambda>p. p \<le> irreversible_above (cfg_thresholds (env_config E)))"

definition judged_wanted :: "agent_env \<Rightarrow> evaluation \<Rightarrow> bool" where
  "judged_wanted E ev \<longleftrightarrow>
     is_some_and (noul_of ev (lit ''requested'')) (\<lambda>p. p > requested_above (cfg_thresholds (env_config E)))"

definition judged_keeps :: "agent_env \<Rightarrow> questions \<Rightarrow> evaluation \<Rightarrow> bool" where
  "judged_keeps E qs ev \<longleftrightarrow>
     im_get qs (lit ''lasting'') \<noteq> None
     \<and> \<not> is_some_and (noul_of ev (lit ''lasting'')) (\<lambda>p. p \<le> irreversible_above (cfg_thresholds (env_config E)))"

definition commit_to :: "bool \<Rightarrow> unit step" where
  "commit_to commits w =
     (Inr (), w\<lparr>w_run := (w_run w)\<lparr>committing := commits\<rparr>, w_handed_over := (w_handed_over w \<or> commits)\<rparr>)"

definition needs_confirmation :: "agent_env \<Rightarrow> observation \<Rightarrow> decision \<Rightarrow> str \<Rightarrow> unit step" where
  "needs_confirmation E obs d label =
     (let why = operation_str (dec_operation d) @ lit '' '' @ repr label @ lit '' needs confirmation''
      in step_bind (refuse E obs d label why) (\<lambda>_. step_fail (Flow_Stop (stop_new Status_NeedsConfirmation why))))"

definition gate_question ::
  "agent_env \<Rightarrow> observation \<Rightarrow> decision \<Rightarrow> str \<Rightarrow> noul_question option \<Rightarrow> noul_question \<Rightarrow> noul_question option \<Rightarrow> unit step" where
  "gate_question E obs d label irreversible requested lasting =
     with_run (\<lambda>s.
       let qs = gate_asked (irreversible_actions (authority s)) irreversible requested lasting in
       if qs = [] then needs_confirmation E obs d label
       else
         step_bind (ask_jev E (Jev_Authorization, gate_page E s obs, qs)) (\<lambda>ev.
         step_bind (trace_event (lit ''irreversible'') (gate_trace E d label ev)) (\<lambda>_.
           if judged_reversible E ev \<and> judged_keeps E qs ev \<and> \<not> judged_wanted E ev
           then refuse_unsure E obs d label
                  (operation_str (dec_operation d) @ lit '' '' @ repr label
                   @ lit '' would change what the site keeps, and the task does not ask for it'')
           else if judged_reversible E ev \<or> judged_wanted E ev then commit_to (\<not> judged_reversible E ev)
           else needs_confirmation E obs d label)))"

definition gate_irreversible :: "agent_env \<Rightarrow> observation \<Rightarrow> decision \<Rightarrow> unit step" where
  "gate_irreversible E obs d =
     (case dec_target d of
        None \<Rightarrow> step_ok ()
      | Some target \<Rightarrow>
          if \<not> may_be_irreversible (dec_operation d) then step_ok ()
          else
            step_bind (gate_download E obs d target) (\<lambda>_.
            with_run (\<lambda>s.
              let label = describe target
                    @ (case dec_destination d of Some x \<Rightarrow> lit '' onto '' @ describe x | None \<Rightarrow> []);
                  (irreversible, requested, lasting) =
                    gate_questions (history s) (dec_operation d) target (dec_destination d) (obs_controls obs)
              in gate_question E obs d label irreversible requested (Some lasting))))"

section \<open>What a handler keeps\<close>

definition step_keeps :: "(agent_world \<Rightarrow> agent_world \<Rightarrow> bool) \<Rightarrow> 'a step \<Rightarrow> bool" where
  "step_keeps R m \<longleftrightarrow> (\<forall>w r w'. m w = (r, w') \<longrightarrow> R w w')"

lemma step_keepsD: "step_keeps R m \<Longrightarrow> m w = (r, w') \<Longrightarrow> R w w'"
  by (simp add: step_keeps_def)

text \<open>
  A relation between the world before and after, such as that something is unchanged or only grows, carries over
  from the parts of a handler to the handler.
\<close>

locale world_relation =
  fixes R :: "agent_world \<Rightarrow> agent_world \<Rightarrow> bool"
  assumes R_refl: "R w w" and R_trans: "R a b \<Longrightarrow> R b c \<Longrightarrow> R a c"
begin

lemma keeps_ok: "step_keeps R (step_ok x)"
  by (simp add: step_keeps_def step_ok_def R_refl)

lemma keeps_fail: "step_keeps R (step_fail e)"
  by (simp add: step_keeps_def step_fail_def R_refl)

lemma keeps_bind: "step_keeps R m \<Longrightarrow> (\<And>x. step_keeps R (f x)) \<Longrightarrow> step_keeps R (step_bind m f)"
  unfolding step_keeps_def step_bind_def by (auto split: prod.splits sum.splits) (blast intro: R_trans)

lemma keeps_with_run: "(\<And>s. step_keeps R (f s)) \<Longrightarrow> step_keeps R (with_run f)"
  by (simp add: step_keeps_def with_run_def)

lemma keeps_world: "(\<And>w. step_keeps R (f w)) \<Longrightarrow> step_keeps R (\<lambda>w. f w w)"
  by (simp add: step_keeps_def)

lemma keeps_if: "step_keeps R a \<Longrightarrow> step_keeps R b \<Longrightarrow> step_keeps R (if P then a else b)"
  by simp

lemma keeps_result: "step_keeps R (step_of_result wrap r)"
  by (cases r) (simp_all add: step_of_result_def keeps_ok keeps_fail)

lemmas keeps_rules = keeps_ok keeps_fail keeps_bind keeps_with_run keeps_if keeps_result

end

lemma step_bind_Inr:
  "step_bind m f w = (Inr y, w'') \<longleftrightarrow> (\<exists>x w'. m w = (Inr x, w') \<and> f x w' = (Inr y, w''))"
  by (auto simp: step_bind_def split: prod.splits sum.splits)

lemma step_bind_Inl:
  "step_bind m f w = (Inl e, w'') \<longleftrightarrow> m w = (Inl e, w'') \<or> (\<exists>x w'. m w = (Inr x, w') \<and> f x w' = (Inl e, w''))"
  by (auto simp: step_bind_def split: prod.splits sum.splits)

lemmas step_simps = step_ok_def step_fail_def with_run_def change_run_def

text \<open>
  What every handler that does not itself commit leaves alone: what the caller allowed and asked for, whether the
  run is committing, and whether the tab was handed over; and the log of requests only grows.
\<close>

definition terms_kept :: "agent_world \<Rightarrow> agent_world \<Rightarrow> bool" where
  "terms_kept a b \<longleftrightarrow>
     authority (w_run a) = authority (w_run b) \<and> task (w_run a) = task (w_run b)
     \<and> committing (w_run a) = committing (w_run b) \<and> w_handed_over a = w_handed_over b
     \<and> w_redactor a = w_redactor b \<and> history (w_run a) = history (w_run b) \<and> prefix (w_asked a) (w_asked b)"

interpretation kept: world_relation terms_kept
  by unfold_locales (auto simp: terms_kept_def)

lemma reserve_kept: "step_keeps terms_kept (reserve_calls E component calls)"
  by (auto simp: step_keeps_def reserve_calls_def terms_kept_def split: prod.splits)

lemma record_kept: "step_keeps terms_kept (record_costs E ls)"
  by (auto simp: step_keeps_def record_costs_def terms_kept_def split: prod.splits)

lemma evaluate_kept: "step_keeps terms_kept (evaluate E r)"
  by (auto simp: step_keeps_def evaluate_def terms_kept_def step_of_result_def step_simps Let_def split: sum.splits)

lemma ask_jev_kept: "step_keeps terms_kept (ask_jev E r)"
  unfolding ask_jev_def by (intro kept.keeps_rules reserve_kept record_kept evaluate_kept)

lemma trace_kept: "step_keeps terms_kept (trace_event name v)"
  by (auto simp: step_keeps_def trace_event_def terms_kept_def)

lemma screenshot_kept: "step_keeps terms_kept (take_screenshot E)"
  by (auto simp: step_keeps_def take_screenshot_def kept.R_refl split: sum.splits browser_error.splits)

lemma glance_kept: "step_keeps terms_kept (glance E)"
  by (auto simp: step_keeps_def glance_def step_of_result_def step_simps kept.R_refl split: sum.splits)

lemma reveals_kept: "step_keeps terms_kept (reveals_page E obs)"
  by (auto simp: step_keeps_def reveals_page_def terms_kept_def Let_def)

lemma frame_kept: "step_keeps terms_kept (frame E)"
  unfolding frame_def by (intro kept.keeps_rules glance_kept reveals_kept screenshot_kept)

lemma keep_step_kept: "step_keeps terms_kept (change_run (keep_step st))"
  by (auto simp: step_keeps_def step_simps keep_step_def terms_kept_def)

lemma emit_kept: "step_keeps terms_kept (emit_step st shot)"
  by (auto simp: step_keeps_def emit_step_def terms_kept_def)

lemma record_step_kept: "step_keeps terms_kept (record_step E st capture given)"
  unfolding record_step_def Let_def
  by (rule kept.keeps_world) (intro kept.keeps_rules keep_step_kept frame_kept emit_kept)

lemma record_failure_kept: "step_keeps terms_kept (record_failure E obs op why target conf changed by)"
  unfolding record_failure_def by (intro kept.keeps_with_run record_step_kept)

lemma refuse_kept: "step_keeps terms_kept (refuse E obs d label why)"
  unfolding refuse_def by (rule kept.keeps_world) (rule record_failure_kept)

lemma refuse_unsure_kept: "step_keeps terms_kept (refuse_unsure E obs d label why)"
  unfolding refuse_unsure_def
  by (rule kept.keeps_world [of "\<lambda>w. step_bind _ (\<lambda>_. step_fail (Flow_Unsure (unsure_new (agent_redact E w why))))"])
    (intro kept.keeps_rules refuse_kept)

lemma confirmation_kept: "step_keeps terms_kept (needs_confirmation E obs d label)"
  unfolding needs_confirmation_def Let_def by (intro kept.keeps_rules refuse_kept)

lemma forbid_kept: "step_keeps terms_kept (change_run (\<lambda>s. s\<lparr>downloads_forbidden_kept := x\<rparr>))"
  by (auto simp: step_keeps_def step_simps terms_kept_def)

lemma downloads_forbidden_keeps: "step_keeps terms_kept (downloads_forbidden E)"
  unfolding downloads_forbidden_def
  by (intro kept.keeps_with_run) (auto simp: Let_def split: option.splits intro!: kept.keeps_rules ask_jev_kept forbid_kept)

lemma gate_download_kept: "step_keeps terms_kept (gate_download E obs d c)"
  unfolding gate_download_def by (intro kept.keeps_rules downloads_forbidden_keeps refuse_unsure_kept)

section \<open>The gate: facts\<close>

lemma ask_jev_answer:
  assumes "ask_jev E r w = (Inr ev, w')"
  shows "w_asked w' \<noteq> [] \<and> last (w_asked w') = (r, Inr ev)
    \<and> (\<exists>w1 ev0. env_evaluate E w1 r = Inr ev0 \<and> ev = with_purpose (fst r) ev0)"
proof -
  obtain w1 w2 where "evaluate E r w1 = (Inr ev, w2)" "record_costs E [eval_cost ev] w2 = (Inr (), w')"
    using assms unfolding ask_jev_def by (auto simp: step_bind_Inr step_simps)
  then show ?thesis
    by (auto simp: evaluate_def record_costs_def step_of_result_def step_simps Let_def map_sum_def split: sum.splits prod.splits)
qed

lemma refusals_fail:
  "needs_confirmation E obs d label w \<noteq> (Inr x, w')" "refuse_unsure E obs d label why w \<noteq> (Inr x, w')"
  by (simp_all add: needs_confirmation_def refuse_unsure_def Let_def step_bind_Inr step_simps)

lemma gate_question_Inr:
  assumes "gate_question E obs d label irreversible requested lasting w = (Inr (), w')"
  defines "qs \<equiv> gate_asked (irreversible_actions (authority (w_run w))) irreversible requested lasting"
  shows "\<exists>ev w1. ask_jev E (Jev_Authorization, gate_page E (w_run w) obs, qs) w = (Inr ev, w1)
    \<and> (judged_reversible E ev \<and> judged_keeps E qs ev \<longrightarrow> judged_wanted E ev)
    \<and> (judged_reversible E ev \<or> judged_wanted E ev)
    \<and> w_asked w' = w_asked w1 \<and> committing (w_run w') = (\<not> judged_reversible E ev)
    \<and> w_handed_over w' = (w_handed_over w \<or> \<not> judged_reversible E ev)"
proof -
  have ne: "qs \<noteq> []" using assms(1) by (auto simp: gate_question_def step_simps qs_def [symmetric] refusals_fail)
  obtain ev w1 x w2 where ask: "ask_jev E (Jev_Authorization, gate_page E (w_run w) obs, qs) w = (Inr ev, w1)"
    and trace: "trace_event (lit ''irreversible'') (gate_trace E d label ev) w1 = (Inr x, w2)"
    and rest: "(if judged_reversible E ev \<and> judged_keeps E qs ev \<and> \<not> judged_wanted E ev
           then refuse_unsure E obs d label
                  (operation_str (dec_operation d) @ lit '' '' @ repr label
                   @ lit '' would change what the site keeps, and the task does not ask for it'')
           else if judged_reversible E ev \<or> judged_wanted E ev then commit_to (\<not> judged_reversible E ev)
           else needs_confirmation E obs d label) w2 = (Inr (), w')"
    using assms(1) ne unfolding gate_question_def with_run_def Let_def qs_def [symmetric] step_bind_Inr if_not_P [OF ne] by blast
  have w2: "w2 = w1\<lparr>w_traced := w_traced w1 @ [(lit ''irreversible'', gate_trace E d label ev)]\<rparr>"
    using trace by (simp add: trace_event_def)
  have "w_handed_over w1 = w_handed_over w" using step_keepsD [OF ask_jev_kept ask] by (simp add: terms_kept_def)
  with rest w2 show ?thesis
    by (intro exI [of _ ev] exI [of _ w1]) (auto simp: ask commit_to_def refusals_fail split: if_splits)
qed

text \<open>
  A client answers only what it was asked: the contract of \<^verbatim>\<open>DecisionClient::evaluate\<close>, whose clients refuse an answer
  to another key.
\<close>

definition answers_asked :: "agent_env \<Rightarrow> bool" where
  "answers_asked E \<longleftrightarrow>
     (\<forall>w r ev. env_evaluate E w r = Inr ev \<longrightarrow> set (im_keys (eval_answers ev)) \<subseteq> set (im_keys (snd (snd r))))"

lemma noul_of_asked:
  assumes "answers_asked E" and "env_evaluate E w r = Inr ev" and "noul_of (with_purpose p ev) key = Some x"
  shows "key \<in> set (im_keys (snd (snd r)))"
proof -
  have "im_get (eval_answers ev) key \<noteq> None" using assms(3) by (auto simp: noul_of_def with_purpose_def bind_eq_Some_conv)
  then have "key \<in> set (im_keys (eval_answers ev))" by (simp add: map_of_eq_None_iff)
  then show ?thesis using assms(1,2) unfolding answers_asked_def by blast
qed

lemma gate_keys:
  "lit ''requested'' \<noteq> lit ''irreversible''" "lit ''requested'' \<noteq> lit ''lasting''" "lit ''irreversible'' \<noteq> lit ''lasting''"
  by (simp_all add: lit_def)

lemma gate_asked_keys:
  "lit ''requested'' \<in> set (im_keys (gate_asked a i r l)) \<longleftrightarrow> a"
  "lit ''irreversible'' \<in> set (im_keys (gate_asked a i r l)) \<longleftrightarrow> i \<noteq> None"
  "im_get (gate_asked a i r l) (lit ''lasting'') \<noteq> None \<longleftrightarrow> a \<and> l \<noteq> None"
  using gate_keys by (cases a; cases i; cases l; simp add: gate_asked_def)+

text \<open>A judgement rests on an answer, so on a question that was asked.\<close>

lemma judged_asked:
  assumes "answers_asked E" and "env_evaluate E w r = Inr ev"
  shows "judged_wanted E (with_purpose p ev) \<Longrightarrow> lit ''requested'' \<in> set (im_keys (snd (snd r)))"
    and "judged_reversible E (with_purpose p ev) \<Longrightarrow> lit ''irreversible'' \<in> set (im_keys (snd (snd r)))"
  unfolding judged_wanted_def judged_reversible_def is_some_and_iff using noul_of_asked [OF assms] by blast+

lemma gate_irreversible_Inr:
  assumes "gate_irreversible E obs d w = (Inr (), w')"
    and "dec_target d = Some target" and "may_be_irreversible (dec_operation d)"
  shows "\<exists>irreversible requested lasting label w0. gate_download E obs d target w = (Inr (), w0)
    \<and> gate_question E obs d label irreversible requested (Some lasting) w0 = (Inr (), w')
    \<and> (irreversible \<noteq> None \<longleftrightarrow> \<not> changes_credentials (obs_controls obs) target (dec_operation d))"
proof -
  obtain w0 where dl: "gate_download E obs d target w = (Inr (), w0)"
    and q: "(let label = describe target @ (case dec_destination d of Some x \<Rightarrow> lit '' onto '' @ describe x | None \<Rightarrow> []);
                  (irreversible, requested, lasting) =
                    gate_questions (history (w_run w0)) (dec_operation d) target (dec_destination d) (obs_controls obs)
              in gate_question E obs d label irreversible requested (Some lasting)) w0 = (Inr (), w')"
    using assms(1) unfolding gate_irreversible_def assms(2) option.case using assms(3) by (auto simp: step_bind_Inr with_run_def)
  obtain i r l where gq: "gate_questions (history (w_run w0)) (dec_operation d) target (dec_destination d) (obs_controls obs) = (i, r, l)"
    using prod_cases3 by blast
  have "i \<noteq> None \<longleftrightarrow> \<not> changes_credentials (obs_controls obs) target (dec_operation d)"
    using gq by (auto simp: gate_questions_def Let_def split: if_splits)
  then show ?thesis using dl q unfolding gq Let_def prod.case by blast
qed

text \<open>
  A gate that opened on what Jev answered: the question was asked just before, and either the action was judged
  reversible, which a change of \<open>credentials\<close> never counts as, or the caller authorized irreversible actions and the
  task was judged to ask for it.
\<close>

definition gate_passed :: "agent_env \<Rightarrow> observation \<Rightarrow> bool \<Rightarrow> agent_world \<Rightarrow> agent_world \<Rightarrow> bool" where
  "gate_passed E obs credentials w w' \<longleftrightarrow>
     (\<exists>s qs ev. w_asked w' \<noteq> [] \<and> last (w_asked w') = ((Jev_Authorization, gate_page E s obs, qs), Inr ev)
        \<and> task s = task (w_run w)
        \<and> (judged_reversible E ev \<and> \<not> credentials \<or> irreversible_actions (authority (w_run w)) \<and> judged_wanted E ev)
        \<and> (irreversible_actions (authority (w_run w)) \<and> judged_keeps E qs ev \<longrightarrow> judged_wanted E ev)
        \<and> committing (w_run w') = (\<not> judged_reversible E ev)
        \<and> w_handed_over w' = (w_handed_over w \<or> \<not> judged_reversible E ev))"

lemma gate_passed_before: "terms_kept w w1 \<Longrightarrow> gate_passed E obs credentials w1 w' \<Longrightarrow> gate_passed E obs credentials w w'"
  by (simp add: gate_passed_def terms_kept_def)

lemma gate_question_passes:
  assumes "answers_asked E" and "gate_question E obs d label irreversible requested lasting w = (Inr (), w')"
  shows "gate_passed E obs (irreversible = None) w w'"
proof -
  let ?qs = "gate_asked (irreversible_actions (authority (w_run w))) irreversible requested lasting"
  let ?r = "(Jev_Authorization, gate_page E (w_run w) obs, ?qs)"
  obtain ev w1 where ask: "ask_jev E ?r w = (Inr ev, w1)"
    and keeps: "judged_reversible E ev \<and> judged_keeps E ?qs ev \<longrightarrow> judged_wanted E ev"
    and some: "judged_reversible E ev \<or> judged_wanted E ev"
    and out: "w_asked w' = w_asked w1" "committing (w_run w') = (\<not> judged_reversible E ev)"
      "w_handed_over w' = (w_handed_over w \<or> \<not> judged_reversible E ev)"
    using gate_question_Inr [OF assms(2)] by blast
  obtain w2 ev0 where ev: "env_evaluate E w2 ?r = Inr ev0" "ev = with_purpose Jev_Authorization ev0"
    and last: "w_asked w1 \<noteq> []" "last (w_asked w1) = (?r, Inr ev)"
    using ask_jev_answer [OF ask] unfolding fst_conv by blast
  have "judged_reversible E ev \<and> irreversible \<noteq> None \<or> irreversible_actions (authority (w_run w)) \<and> judged_wanted E ev"
    using some judged_asked [OF assms(1) ev(1)] unfolding ev(2) gate_asked_keys(1,2) snd_conv by blast
  moreover have "judged_keeps E ?qs ev \<longrightarrow> judged_wanted E ev" using keeps some by blast
  ultimately show ?thesis unfolding gate_passed_def using last out by (intro exI conjI) auto
qed

lemma gate_irreversible_passes:
  assumes "answers_asked E" and "gate_irreversible E obs d w = (Inr (), w')"
    and "dec_target d = Some target" and "may_be_irreversible (dec_operation d)"
  shows "gate_passed E obs (changes_credentials (obs_controls obs) target (dec_operation d)) w w'"
proof -
  obtain irreversible requested lasting label w0 where dl: "gate_download E obs d target w = (Inr (), w0)"
    and q: "gate_question E obs d label irreversible requested (Some lasting) w0 = (Inr (), w')"
    and i: "irreversible \<noteq> None \<longleftrightarrow> \<not> changes_credentials (obs_controls obs) target (dec_operation d)"
    using gate_irreversible_Inr [OF assms(2-4)] by blast
  have "gate_passed E obs (changes_credentials (obs_controls obs) target (dec_operation d)) w0 w'"
    using gate_question_passes [OF assms(1) q] i by (cases irreversible) simp_all
  then show ?thesis by (rule gate_passed_before [OF step_keepsD [OF gate_download_kept dl]])
qed


section \<open>An example\<close>

text \<open>A client that answers the question of an irreversible act with 0 and no other.\<close>

definition example_reply :: "request \<Rightarrow> evaluation" where
  "example_reply r =
     \<lparr>eval_model = [],
      eval_answers = (if lit ''irreversible'' \<in> set (im_keys (snd (snd r))) then [(lit ''irreversible'', A_Noul 0)] else []),
      eval_input_tokens = 0, eval_cost = cost_line_new Cost_Jev Basis_Estimated (Some 0), eval_requests = 1\<rparr>"

definition example_env :: agent_env where
  "example_env =
     \<lparr>env_unicode = ascii_tables, env_urls = example_crate, env_sha = (\<lambda>_. []), env_num = (\<lambda>_. NotANumber),
      env_config = config_default, env_profile = profile_jev, env_clock = (\<lambda>_. 0),
      env_evaluate = (\<lambda>_ r. Inr (example_reply r)), env_write = (\<lambda>w _. (Inr (None, cost_line_new Cost_Llm Basis_Estimated (Some 0)), run_ledger (w_run w))), env_on_event = False,
      env_glance = (\<lambda>_. Inr (example_observation [] [])), env_screenshot = (\<lambda>_. Inr []), env_over_http = False,
      env_needs_browser = Browser_ScreenshotsUnavailable, env_secrets = None\<rparr>"

definition example_world :: agent_world where
  "example_world =
     \<lparr>w_run = example_state, w_redactor = redactor_new, w_raw = None, w_secret_on_screen = False, w_asked = [],
      w_generated = [], w_emitted = [], w_traced = [], w_handed_over = False, w_frames_withheld = False\<rparr>"

lemma example_answers_asked: "answers_asked example_env"
  by (auto simp: answers_asked_def example_env_def example_reply_def)

lemma example_gate_opens: "fst (gate_irreversible example_env (example_observation [] []) example_click example_world) = Inr ()"
  by code_simp


section \<open>What a refusal leaves\<close>

text \<open>
  A flow that is not a refusal: the budget, Jev or the browser failed.
\<close>

definition outside_flow :: "flow \<Rightarrow> bool" where
  "outside_flow e \<longleftrightarrow> (case e of Flow_Agent _ \<Rightarrow> True | Flow_Browser _ \<Rightarrow> True | _ \<Rightarrow> False)"

definition fails_outside :: "'a step \<Rightarrow> bool" where
  "fails_outside m \<longleftrightarrow> (\<forall>w e w'. m w = (Inl e, w') \<longrightarrow> outside_flow e)"

lemma outsideD: "fails_outside m \<Longrightarrow> m w = (Inl e, w') \<Longrightarrow> outside_flow e"
  unfolding fails_outside_def by blast

lemma outside_bind: "fails_outside m \<Longrightarrow> (\<And>x. fails_outside (f x)) \<Longrightarrow> fails_outside (step_bind m f)"
  unfolding fails_outside_def step_bind_Inl by blast

lemma outside_ok: "fails_outside (step_ok x)"
  by (simp add: fails_outside_def step_simps)

lemma outside_if: "fails_outside a \<Longrightarrow> fails_outside b \<Longrightarrow> fails_outside (if P then a else b)"
  by simp

lemma outside_with_run: "(\<And>s. fails_outside (f s)) \<Longrightarrow> fails_outside (with_run f)"
  by (simp add: fails_outside_def with_run_def)

lemma outside_change: "fails_outside (change_run f)"
  by (simp add: fails_outside_def step_simps)

lemmas outside_rules = outside_bind outside_ok outside_if outside_with_run outside_change

lemma map_sum_Inl_iff: "Inl y = map_sum f g r \<longleftrightarrow> (\<exists>x. r = Inl x \<and> y = f x)" "map_sum f g r = Inl y \<longleftrightarrow> (\<exists>x. r = Inl x \<and> y = f x)"
  by (cases r; auto)+

lemma ask_jev_outside: "fails_outside (ask_jev E r)"
  unfolding ask_jev_def
  by (intro outside_rules)
    (auto simp: fails_outside_def reserve_calls_def record_costs_def evaluate_def step_of_result_def step_simps Let_def
      outside_flow_def flow_of_budget_def flow_of_decision_def map_sum_Inl_iff split: prod.splits sum.splits)

lemma frame_outside: "fails_outside (frame E)"
  unfolding frame_def
  by (intro outside_rules)
    (auto simp: fails_outside_def glance_def reveals_page_def take_screenshot_def step_of_result_def step_simps Let_def
      outside_flow_def split: sum.splits browser_error.splits)

lemma record_step_outside: "fails_outside (record_step E st capture given)"
proof -
  have "fails_outside (emit_step st shot)" for st shot by (simp add: fails_outside_def emit_step_def)
  then have "fails_outside (step_bind (change_run (keep_step st)) (\<lambda>_. if \<not> env_on_event E then step_ok ()
        else step_bind (if capture \<and> step_frames (env_config E) then frame E else step_ok given) (emit_step st)))" for st
    by (intro outside_rules frame_outside)
  then show ?thesis unfolding fails_outside_def record_step_def Let_def by blast
qed

lemma downloads_outside: "fails_outside (downloads_forbidden E)"
  unfolding downloads_forbidden_def
  by (intro outside_with_run) (auto simp: Let_def split: option.splits intro!: outside_rules ask_jev_outside)

definition steps_kept :: "agent_world \<Rightarrow> agent_world \<Rightarrow> bool" where
  "steps_kept a b \<longleftrightarrow> taken_steps (w_run a) = taken_steps (w_run b)"

interpretation still: world_relation steps_kept
  by unfold_locales (auto simp: steps_kept_def)

lemma ask_jev_still: "step_keeps steps_kept (ask_jev E r)"
  unfolding ask_jev_def
  by (intro still.keeps_rules)
    (auto simp: step_keeps_def reserve_calls_def record_costs_def evaluate_def step_of_result_def step_simps Let_def
      steps_kept_def split: prod.splits sum.splits)

lemma frame_still: "step_keeps steps_kept (frame E)"
  unfolding frame_def
  by (intro still.keeps_rules)
    (auto simp: step_keeps_def glance_def reveals_page_def take_screenshot_def step_of_result_def step_simps Let_def
      steps_kept_def split: sum.splits browser_error.splits)

lemma downloads_still: "step_keeps steps_kept (downloads_forbidden E)"
proof -
  have "step_keeps steps_kept (change_run (\<lambda>s. s\<lparr>downloads_forbidden_kept := x\<rparr>))" for x
    by (auto simp: step_keeps_def step_simps steps_kept_def)
  then show ?thesis unfolding downloads_forbidden_def
    by (intro still.keeps_with_run) (auto simp: Let_def split: option.splits intro!: still.keeps_rules ask_jev_still)
qed

lemma record_step_adds:
  assumes "record_step E st capture given w = (r, w')"
  shows "taken_steps (w_run w') = taken_steps (w_run w) @ [recorded_form E w st]"
proof -
  let ?st = "recorded_form E w st" and ?w = "w\<lparr>w_run := keep_step (recorded_form E w st) (w_run w)\<rparr>"
  have "step_keeps steps_kept (emit_step ?st shot)" for shot
    by (auto simp: step_keeps_def emit_step_def steps_kept_def)
  then have "step_keeps steps_kept (if \<not> env_on_event E then step_ok ()
        else step_bind (if capture \<and> step_frames (env_config E) then frame E else step_ok given) (emit_step ?st))"
    by (intro still.keeps_rules frame_still)
  moreover have "(if \<not> env_on_event E then step_ok ()
        else step_bind (if capture \<and> step_frames (env_config E) then frame E else step_ok given) (emit_step ?st)) ?w = (r, w')"
    using assms unfolding record_step_def Let_def step_bind_def change_run_def prod.case sum.case .
  ultimately have "steps_kept ?w w'" by (rule step_keepsD)
  then show ?thesis by (simp add: steps_kept_def keep_step_def)
qed

text \<open>What a refused decision leaves: one failed step for it, after those taken before.\<close>

definition refused_step :: "decision \<Rightarrow> agent_world \<Rightarrow> agent_world \<Rightarrow> bool" where
  "refused_step d w w' \<longleftrightarrow>
     (\<exists>st. taken_steps (w_run w') = taken_steps (w_run w) @ [st] \<and> step_operation st = dec_operation d
       \<and> step_outcome st = Outcome_Failed \<and> step_page_changed st = Some False
       \<and> step_index st = int (length (taken_steps (w_run w))))"

lemma refuse_adds:
  assumes "refuse E obs d label why w = (r, w')"
  shows "refused_step d w w'"
  using record_step_adds [OF assms [unfolded refuse_def record_failure_def with_run_def]]
  unfolding refused_step_def by (intro exI conjI) (assumption, simp_all add: recorded_form_def failed_step_def)

lemma refuse_outside: "fails_outside (refuse E obs d label why)"
  using record_step_outside unfolding fails_outside_def refuse_def record_failure_def with_run_def by blast

lemma refuse_unsure_Inl:
  assumes "refuse_unsure E obs d label why w = (Inl e, w')" and "\<not> outside_flow e"
  shows "refused_step d w w' \<and> e = Flow_Unsure (unsure_new (agent_redact E w why))"
  using assms unfolding refuse_unsure_def step_bind_Inl step_fail_def
  by (auto dest: refuse_adds outsideD [OF refuse_outside])

lemma needs_confirmation_Inl:
  assumes "needs_confirmation E obs d label w = (Inl e, w')" and "\<not> outside_flow e"
  shows "refused_step d w w' \<and> (\<exists>why. e = Flow_Stop (stop_new Status_NeedsConfirmation why))"
  using assms unfolding needs_confirmation_def Let_def step_bind_Inl step_fail_def
  by (auto dest: refuse_adds outsideD [OF refuse_outside])

text \<open>
  A step that leaves the steps as they were until it refuses.
\<close>

definition refuses :: "decision \<Rightarrow> 'a step \<Rightarrow> bool" where
  "refuses d m \<longleftrightarrow>
     (\<forall>w e w'. m w = (Inl e, w') \<and> \<not> outside_flow e \<longrightarrow>
        refused_step d w w' \<and> ((\<exists>why. e = Flow_Unsure (unsure_new why))
                                \<or> (\<exists>why. e = Flow_Stop (stop_new Status_NeedsConfirmation why))))"

lemma refuses_unsure: "refuses d (refuse_unsure E obs d label why)"
  unfolding refuses_def by (blast dest: refuse_unsure_Inl)

lemma refuses_confirmation: "refuses d (needs_confirmation E obs d label)"
  unfolding refuses_def by (blast dest: needs_confirmation_Inl)

lemma refuses_outside: "fails_outside m \<Longrightarrow> refuses d m"
  unfolding refuses_def fails_outside_def by blast

lemma refused_step_still: "steps_kept w w1 \<Longrightarrow> refused_step d w1 w' \<Longrightarrow> refused_step d w w'"
  by (simp add: refused_step_def steps_kept_def)

lemma refuses_bind:
  assumes "fails_outside m" and "step_keeps steps_kept m" and "\<And>x. refuses d (f x)"
  shows "refuses d (step_bind m f)"
  unfolding refuses_def step_bind_Inl
  using outsideD [OF assms(1)] step_keepsD [OF assms(2)] assms(3) [unfolded refuses_def] refused_step_still by blast

lemma trace_silent: "fails_outside (trace_event name v)" "step_keeps steps_kept (trace_event name v)"
  by (auto simp: fails_outside_def step_keeps_def trace_event_def steps_kept_def)

lemma refuses_if: "refuses d a \<Longrightarrow> refuses d b \<Longrightarrow> refuses d (if P then a else b)"
  by simp

lemma refuses_with_run: "(\<And>s. refuses d (f s)) \<Longrightarrow> refuses d (with_run f)"
  unfolding refuses_def with_run_def by blast

lemma commit_outside: "fails_outside (commit_to b)"
  by (simp add: fails_outside_def commit_to_def)

lemmas refuses_rules = refuses_with_run refuses_if refuses_unsure refuses_confirmation refuses_bind
  refuses_outside [OF outside_ok] refuses_outside [OF commit_outside]

lemma gate_download_refuses: "refuses d (gate_download E obs d c)"
  unfolding gate_download_def by (intro refuses_rules downloads_outside downloads_still)

lemma gate_question_refuses: "refuses d (gate_question E obs d label irreversible requested lasting)"
  unfolding gate_question_def Let_def by (intro refuses_rules ask_jev_outside ask_jev_still trace_silent)

lemma gate_download_opens_still:
  assumes "gate_download E obs d c w = (Inr (), w')"
  shows "steps_kept w w'"
  using assms unfolding gate_download_def
  by (auto simp: step_bind_Inr refusals_fail step_ok_def still.R_refl split: if_splits dest: step_keepsD [OF downloads_still])

lemma gate_question_terms:
  assumes "gate_question E obs d label irreversible requested lasting w = (Inl e, w')"
  shows "terms_kept w w'"
proof -
  let ?R = "\<lambda>m :: unit step. \<forall>w e w'. m w = (Inl e, w') \<longrightarrow> terms_kept w w'"
  have bind: "?R (step_bind m f)" if "step_keeps terms_kept m" and "\<And>x. ?R (f x)" for m :: "'a step" and f
    using that(2) step_keepsD [OF that(1)] unfolding step_bind_Inl by (blast intro: kept.R_trans)
  have keeps: "?R m" if "step_keeps terms_kept m" for m using step_keepsD [OF that] by blast
  have commit: "?R (commit_to b)" for b by (simp add: commit_to_def)
  have branch: "?R a \<Longrightarrow> ?R b \<Longrightarrow> ?R (if P then a else b)" for a b P by simp
  have state: "(\<And>s. ?R (f s)) \<Longrightarrow> ?R (with_run f)" for f by (simp add: with_run_def)
  have "?R (gate_question E obs d label irreversible requested lasting)"
    unfolding gate_question_def Let_def
    by (rule state) (intro branch bind commit keeps ask_jev_kept trace_kept refuse_unsure_kept confirmation_kept)
  then show ?thesis using assms by blast
qed

text \<open>
  C6: A gate that stays shut.  When the gate does not let an action on a control proceed, the run is not
  committing because of it and the tab was not handed over, what the caller asked for and allowed is unchanged, and
  unless the budget, Jev or the browser failed, exactly one step was added for it: the refused operation, failed,
  on an unchanged page, and the run either asks again or stops for a confirmation.
\<close>

theorem gate_refusal_recorded:
  assumes "gate_irreversible E obs d w = (Inl e, w')"
  shows "terms_kept w w' \<and> (outside_flow e \<or> refused_step d w w'
     \<and> ((\<exists>why. e = Flow_Unsure (unsure_new why)) \<or> (\<exists>why. e = Flow_Stop (stop_new Status_NeedsConfirmation why))))"
proof -
  obtain target where t: "dec_target d = Some target" "may_be_irreversible (dec_operation d)"
    using assms unfolding gate_irreversible_def by (auto simp: step_simps split: option.splits if_splits)
  consider (download) "gate_download E obs d target w = (Inl e, w')"
    | (asked) w1 label i r l where "gate_download E obs d target w = (Inr (), w1)"
        "gate_question E obs d label i r (Some l) w1 = (Inl e, w')"
    using assms t unfolding gate_irreversible_def by (auto simp: step_bind_Inl with_run_def Let_def case_prod_beta)
  then show ?thesis
  proof cases
    case download
    then show ?thesis
      using step_keepsD [OF gate_download_kept download] gate_download_refuses [of d E obs target] unfolding refuses_def by blast
  next
    case asked
    have "terms_kept w w'" using step_keepsD [OF gate_download_kept asked(1)] gate_question_terms [OF asked(2)]
      by (rule kept.R_trans)
    moreover have "steps_kept w w1" using asked(1) by (rule gate_download_opens_still)
    ultimately show ?thesis
      using asked(2) gate_question_refuses [of d E obs label i r "Some l"] refused_step_still unfolding refuses_def by blast
  qed
qed

definition example_silent :: agent_env where
  "example_silent = example_env\<lparr>env_evaluate := (\<lambda>_ _. Inr (example_reply (Jev_Authorization, JNull, [])))\<rparr>"

theorem gate_refusal_recorded_witness:
  "\<exists>why w'. gate_irreversible example_silent (example_observation [] []) example_click example_world
       = (Inl (Flow_Stop (stop_new Status_NeedsConfirmation why)), w')
     \<and> refused_step example_click example_world w' \<and> \<not> w_handed_over w'"
proof -
  let ?run = "gate_irreversible example_silent (example_observation [] []) example_click example_world"
  have "case fst ?run of Inl (Flow_Stop s) \<Rightarrow> s = stop_new Status_NeedsConfirmation (the (stop_error s)) | _ \<Rightarrow> False"
    by code_simp
  then obtain why w' where run: "?run = (Inl (Flow_Stop (stop_new Status_NeedsConfirmation why)), w')"
    by (cases ?run) (auto split: sum.splits flow.splits)
  have "\<not> w_handed_over example_world" by (simp add: example_world_def)
  then show ?thesis
    using gate_refusal_recorded [OF run] run by (auto simp: outside_flow_def terms_kept_def)
qed

text \<open>
  A decision the run's own code made is recorded by a gate as Jev's, although \<^verbatim>\<open>Decision::decider\<close> names the code.
\<close>

lemma gate_decider_not_decider:
  "gate_decider d \<noteq> decider_of d \<longleftrightarrow> dec_by_code d \<and> \<not> dec_replayed d"
  by (simp add: gate_decider_def decider_of_def)

end
