(* ===== verification/Choosing.thy ===== *)
theory Choosing
  imports Agents
begin

text \<open>
  The choices the agent puts to Jev while it carries a decision out (\<^verbatim>\<open>crates/fastbrowse-agent/src/agent/acting.rs\<close>):
  several questions in one request, each answer one its question offered; what output the task wants; whether it
  stops to confirm; whether its actions are done; a dialog; a stored secret for a field.  The lemmas show that a
  request is only sent when it fits, that an answer was always offered, that none of the lookups can panic, and
  that a secret is only ever resolved for the origin of the field's own frame and is redacted from then on.
\<close>

section \<open>Asking\<close>

type_synonym criteria = "(str, json) index_map"

type_synonym asked = "str \<times> str \<times> criteria"

definition page_question :: "str \<Rightarrow> str \<Rightarrow> criteria \<Rightarrow> question" where
  "page_question t q offered =
     Q_Choice \<lparr>cq_instructions = UNTRUSTED @ [10, 10] @ lit ''# Task'' @ [10] @ t @ [10, 10] @ q, cq_criteria = offered\<rparr>"

text \<open>A lookup the code indexes with: it panics on a key that is not there.\<close>

definition indexed :: "'v option \<Rightarrow> 'v step" where
  "indexed r = (case r of None \<Rightarrow> step_fail Flow_Panic | Some v \<Rightarrow> step_ok v)"

fun collect_picks :: "(str \<times> str list) list \<Rightarrow> evaluation \<Rightarrow> decision_error + (str, str) index_map" where
  "collect_picks [] ev = Inr []"
| "collect_picks ((key, offered) # rest) ev =
     (case im_get (eval_answers ev) key of
        Some (A_Choice a) \<Rightarrow>
          if ca_choice a \<notin> set offered
          then Inl (Decision_Failed (lit ''Jev picked '' @ ca_choice a @ lit '', which was not offered''))
          else and_then (collect_picks rest ev) (\<lambda>picks. Inr ((key, ca_choice a) # picks))
      | _ \<Rightarrow> Inl (Decision_Failed (lit ''expected a choice answer'')))"

definition asked_questions :: "str \<Rightarrow> asked list \<Rightarrow> questions" where
  "asked_questions t asked = im_collect (map (\<lambda>(key, q, offered). (key, page_question t q offered)) asked)"

definition asked_page ::
  "agent_env \<Rightarrow> run_state \<Rightarrow> observation option \<Rightarrow> questions \<Rightarrow> json_map option \<Rightarrow> agent_error + json" where
  "asked_page E s seen qs context =
     (case seen of
        Some obs \<Rightarrow>
          page_state (env_num E) obs (if context \<noteq> None then notes_default else run_memory s) (tokens (env_config E))
            (map (dump_json \<circ> question_dump \<circ> snd) qs) context
      | None \<Rightarrow> Inr (JObject []))"

definition ask_choices_in ::
  "agent_env \<Rightarrow> observation option \<Rightarrow> asked list \<Rightarrow> json_map option \<Rightarrow> (str, str) index_map step" where
  "ask_choices_in E seen asked context =
     step_bind (reserve_calls E Cost_Jev 1) (\<lambda>_.
     with_run (\<lambda>s.
       let offered = im_collect (map (\<lambda>(key, _, cs). (key, im_keys cs)) asked);
           qs = asked_questions (task s) asked
       in step_bind (step_of_result Flow_Agent (asked_page E s seen qs context)) (\<lambda>page.
          step_bind (evaluate E (Jev_Action, page, qs)) (\<lambda>ev.
          step_bind (record_costs E [eval_cost ev]) (\<lambda>_.
            step_of_result flow_of_decision (collect_picks offered ev))))))"

definition ask_choices :: "agent_env \<Rightarrow> observation option \<Rightarrow> asked list \<Rightarrow> (str, str) index_map step" where
  "ask_choices E seen asked = ask_choices_in E seen asked None"

definition ask_choice :: "agent_env \<Rightarrow> observation \<Rightarrow> str \<Rightarrow> criteria \<Rightarrow> str step" where
  "ask_choice E obs q offered =
     step_bind (ask_choices E (Some obs) [(lit ''pick'', q, offered)]) (\<lambda>picks. indexed (im_get picks (lit ''pick'')))"

definition numbered :: "'a list \<Rightarrow> (str, 'a) index_map" where
  "numbered xs = map (\<lambda>(i, x). (dec i, x)) (enumerate 0 xs)"

definition choose_option :: "agent_env \<Rightarrow> observation \<Rightarrow> str \<Rightarrow> str list \<Rightarrow> str step" where
  "choose_option E obs q options =
     (case options of
        [] \<Rightarrow> step_fail (Flow_Stop (stop_new Status_Stuck (lit ''no options to answer: '' @ q)))
      | [only] \<Rightarrow> step_ok only
      | _ \<Rightarrow>
          (\<lambda>w. let keys = numbered (take (max_choice_options (env_profile E)) options);
                   offered = map (\<lambda>(key, option). (key, JString (agent_mask E w option))) keys
               in step_bind (ask_choice E obs q offered) (\<lambda>pick. indexed (im_get keys pick)) w))"

section \<open>What the task wants\<close>

definition OUTPUT_CRITERIA :: criteria where
  "OUTPUT_CRITERIA =
     [(lit ''text'', JString (lit ''The task asks to be told text, such as a value, a name or a list, and does not ask for an image.'')),
      (lit ''image'', JString (lit ''The task asks only for an image or screenshot as its report.'')),
      (lit ''text_image'', JString (lit ''The task asks for both a textual answer and an image or screenshot.'')),
      (lit ''carried_out'', JString (lit ''The task only asks for something to be carried out, with no report.''))]"

definition EVIDENCE_CRITERIA :: criteria where
  "EVIDENCE_CRITERIA =
     [(lit ''page_text'', JString (lit ''What the task asks about is something a page states in its text or controls.'')),
      (lit ''appearance'', JString (lit ''The task asks how the page looks, such as its colours, styling, artwork or layout, which only the rendered page shows.''))]"

definition EXTENT_CRITERIA :: criteria where
  "EXTENT_CRITERIA =
     [(lit ''shown'', JString (lit ''What the task asks about can be answered from the records one page shows, or concerns a single item.'')),
      (lit ''every_page'', JString (lit ''The task covers everything a list holds across all of its pages, such as a count or total over a whole site or list.''))]"

definition intent_of :: "str \<Rightarrow> output_intent option" where
  "intent_of pick =
     (if pick = lit ''text'' then Some Intent_Text
      else if pick = lit ''image'' then Some Intent_Image
      else if pick = lit ''text_image'' then Some Intent_TextAndImage
      else if pick = lit ''carried_out'' then Some Intent_CarriedOut
      else None)"

definition output_intent_of_task :: "agent_env \<Rightarrow> output_intent step" where
  "output_intent_of_task E =
     with_run (\<lambda>s.
       if intent s \<noteq> Intent_Unknown then step_ok (intent s)
       else
         step_bind (ask_choices E None
             [(lit ''pick'', lit ''What output does the task want at its end?'', OUTPUT_CRITERIA),
              (lit ''evidence'', lit ''Where can what the task asks about be seen?'', EVIDENCE_CRITERIA),
              (lit ''extent'', lit ''How much of a list does the task cover?'', EXTENT_CRITERIA)]) (\<lambda>picks.
         step_bind (indexed (im_get picks (lit ''evidence''))) (\<lambda>seen.
         step_bind (change_run (\<lambda>s. s\<lparr>appearance := (seen = lit ''appearance'')\<rparr>)) (\<lambda>_.
         step_bind (indexed (im_get picks (lit ''extent''))) (\<lambda>extent.
         step_bind (change_run (\<lambda>s. s\<lparr>every_page := (extent = lit ''every_page'')\<rparr>)) (\<lambda>_.
         step_bind (indexed (im_get picks (lit ''pick''))) (\<lambda>pick.
         step_bind (indexed (intent_of pick)) (\<lambda>wanted.
         step_bind (change_run (\<lambda>s. s\<lparr>intent := wanted\<rparr>)) (\<lambda>_. step_ok wanted)))))))))"

definition stops_to_confirm :: "agent_env \<Rightarrow> observation \<Rightarrow> bool step" where
  "stops_to_confirm E obs =
     step_bind (ask_choice E obs (lit ''What does the task say about sending what was typed?'')
       [(lit ''confirm'', JString (lit ''The task says to stop before sending and ask for confirmation.'')),
        (lit ''no'', JString (lit ''The task does not say that.''))]) (\<lambda>pick. step_ok (pick = lit ''confirm''))"

definition done_context :: "run_state \<Rightarrow> observation \<Rightarrow> json_map" where
  "done_context s obs =
     (let told = (case unsent_fact (history s) obs of Some f \<Rightarrow> [f] | None \<Rightarrow> [])
            @ (if to_carry_out s then (case empty_fields_fact (missing s) obs of Some f \<Rightarrow> [f] | None \<Rightarrow> []) else [])
      in [(lit ''recent_actions'', JArray (map history_dump (history s)))]
         @ (if told \<noteq> [] then [(lit ''page_facts'', JArray (map JString told))] else []))"

text \<open>The page with all its text as if it were in view.\<close>

definition whole_page :: "observation \<Rightarrow> observation" where
  "whole_page obs =
     obs\<lparr>obs_viewport_text := join [10] (filter (\<lambda>t. t \<noteq> []) [obs_viewport_text obs, obs_offscreen_text obs])\<rparr>"

definition actions_done :: "agent_env \<Rightarrow> observation \<Rightarrow> bool step" where
  "actions_done E obs =
     with_run (\<lambda>s.
       step_bind (ask_choices_in E (Some (whole_page obs))
         [(lit ''pick'',
           lit ''Judged from the recent actions and the current page, has every step the task asks to be carried out, other than finding, reading or reporting something, been carried out?'',
           [(lit ''done'', JString (lit ''Every such step has been carried out, or the task asks only to find, read or report something.'')),
            (lit ''undone'', JString (lit ''A step the task asks for, other than finding, reading or reporting, has not been carried out yet.''))])]
         (Some (done_context s obs))) (\<lambda>picks.
       step_bind (indexed (im_get picks (lit ''pick''))) (\<lambda>pick. step_ok (pick = lit ''done''))))"

definition accept_dialog :: "agent_env \<Rightarrow> observation \<Rightarrow> bool step" where
  "accept_dialog E obs =
     (case obs_dialog obs of
        None \<Rightarrow> step_fail (Flow_Stop (stop_new Status_Stuck (lit ''DIALOG chosen with no dialog open'')))
      | Some d \<Rightarrow>
          step_bind (ask_choice E obs
            (lit ''The page shows a '' @ dialog_kind d @ lit '' dialog saying '' @ repr (dialog_message d)
             @ lit '', opened by the agent's last action. Accept it if it asks to go ahead with what the task wants done; dismiss it if it would do something the task did not ask for.'')
            [(lit ''accept'', JString (lit ''Accept / OK'')), (lit ''dismiss'', JString (lit ''Dismiss / Cancel''))])
            (\<lambda>pick. step_ok (pick = lit ''accept'')))"

section \<open>Sign-in walls and secrets\<close>

definition raw_target :: "agent_world \<Rightarrow> control \<Rightarrow> control" where
  "raw_target w target =
     (case w_raw w of
        None \<Rightarrow> target
      | Some raw \<Rightarrow> (case find (\<lambda>c. ctl_id c = ctl_id target) (obs_controls raw) of Some c \<Rightarrow> c | None \<Rightarrow> target))"

definition target_origin :: "agent_world \<Rightarrow> control \<Rightarrow> str" where
  "target_origin w target = (case ctl_frame_origin (raw_target w target) of Some x \<Rightarrow> x | None \<Rightarrow> lit ''null'')"

definition meet_wall :: "agent_env \<Rightarrow> agent_world \<Rightarrow> observation \<Rightarrow> observation \<Rightarrow> flow" where
  "meet_wall E w obs raw =
     (let orig = secret_origin_of (env_unicode E) (env_urls E) (obs_url obs);
          credential = map ctl_id (filter (asks_for_credentials (env_unicode E)) (obs_controls raw));
          named = map (\<lambda>c. if ctl_label c \<noteq> [] then ctl_label c
                            else case non_empty (ctl_input_name c) of Some n \<Rightarrow> n | None \<Rightarrow> lit ''a password'')
                    (filter (\<lambda>c. ctl_id c \<in> set credential) (obs_controls obs));
          evid = (if named \<noteq> [] then lit ''the page asks for '' @ join (lit '', '') named
                  else if credential = []
                  then (if obs_title obs = [] then obs_url obs else obs_title obs) @ lit '' offers only sign-in''
                  else lit ''the page asks for a password'')
      in Flow_Stop (stop_new Status_NeedsLogin (agent_redact E w (lit ''sign-in required at '' @ orig @ lit '': '' @ evid))))"

definition secret_of :: "agent_env \<Rightarrow> str \<Rightarrow> str \<Rightarrow> bool \<Rightarrow> str step" where
  "secret_of E name orig credential w =
     (case (case env_secrets E of
              Some (avail, answers) \<Rightarrow> resolve_secret (env_unicode E) (env_urls E) avail (answers w) name orig
            | None \<Rightarrow> None) of
        None \<Rightarrow>
          (if credential
           then (Inl (Flow_Stop (stop_new Status_NeedsLogin
                   (lit ''sign-in required at '' @ orig @ lit '': secret '' @ name @ lit '' is not available there''))), w)
           else (Inl (Flow_Stop (stop_new Status_NeedsInput
                   (lit ''secret '' @ name @ lit '' is not available for '' @ orig))), w))
      | Some v \<Rightarrow>
          (Inr v, w\<lparr>w_redactor := register (env_unicode E) (env_urls E) (w_redactor w) name v (Some orig)\<rparr>))"

definition missing_value :: "observation \<Rightarrow> control \<Rightarrow> 'a step" where
  "missing_value obs target =
     step_bind (change_run (\<lambda>s. s\<lparr>missing := insert (obs_url obs, ctl_label target, ctl_context target) (missing s)\<rparr>))
       (\<lambda>_. step_fail (Flow_Unsure \<lparr>unsure_reason = lit ''the task gives no value for '' @ repr (ctl_label target)
                                     @ lit '': leave it unless the task cannot go on without it'',
                                   gives_up_as = Status_NeedsInput\<rparr>))"

definition NEW_PASSWORD :: str where
  "NEW_PASSWORD = lit ''new_password''"

definition set_source :: "recipe_text \<Rightarrow> unit step" where
  "set_source t = change_run (\<lambda>s. s\<lparr>text_source := Some t\<rparr>)"

definition takes_replacement :: "agent_env \<Rightarrow> observation \<Rightarrow> control \<Rightarrow> bool step" where
  "takes_replacement E obs target =
     (case sets_new_password (env_unicode E) (obs_controls obs) target of
        Some b \<Rightarrow> step_ok b
      | None \<Rightarrow>
          step_bind (ask_choice E obs
            (lit ''Which password role does '' @ repr (ctl_label target)
             @ lit '' have for this task? Consider the task, field context and form controls. A sign-in page may mark its password field new-password to prevent autofill, so that marker alone does not establish a replacement. Choose unclear when the role cannot be established.'')
            [(lit ''current'', JString (lit ''The field takes the account's existing password for signing in or confirming identity.'')),
             (lit ''replacement'', JString (lit ''The field sets a new account password or confirms that new password.'')),
             (lit ''unclear'', JString (lit ''The task and form do not establish which password the field takes.''))])
            (\<lambda>pick.
              if pick = lit ''replacement'' then step_ok True
              else if pick = lit ''current'' then step_ok False
              else step_fail (Flow_Stop (stop_new Status_NeedsInput
                     (repr (ctl_label target)
                      @ lit '' does not establish whether it takes the current password or a replacement'')))))"

definition stored_secret :: "agent_env \<Rightarrow> observation \<Rightarrow> control \<Rightarrow> str list \<Rightarrow> str \<Rightarrow> str step" where
  "stored_secret E obs target names orig =
     (case names of
        [] \<Rightarrow> step_fail (Flow_Stop (stop_new Status_NeedsLogin
                (repr (ctl_label target) @ lit '' wants a secret and none is stored'')))
      | [only] \<Rightarrow> step_bind (set_source (Text_Secret only)) (\<lambda>_. secret_of E only orig True)
      | _ \<Rightarrow>
          step_bind (ask_choice E obs (lit ''Which stored secret belongs in '' @ repr (ctl_label target) @ lit ''?'')
            (im_collect (map (\<lambda>name. (name, JString (lit ''The stored secret named '' @ name))) names))) (\<lambda>name.
          step_bind (set_source (Text_Secret name)) (\<lambda>_. secret_of E name orig True)))"

definition sensitive_text :: "agent_env \<Rightarrow> observation \<Rightarrow> control \<Rightarrow> str list \<Rightarrow> str \<Rightarrow> str step" where
  "sensitive_text E obs target secrets orig =
     step_bind (takes_replacement E obs target) (\<lambda>replacement.
       if replacement then
         (if NEW_PASSWORD \<notin> set secrets
          then step_fail (Flow_Stop (stop_new Status_NeedsInput
                 (lit ''A replacement password requires --secret new_password=ENV_VAR@https://host; set ENV_VAR to the new value instead of putting it in the task.'')))
          else step_bind (set_source (Text_Secret NEW_PASSWORD)) (\<lambda>_. secret_of E NEW_PASSWORD orig False))
       else stored_secret E obs target (filter (\<lambda>name. name \<noteq> NEW_PASSWORD) secrets) orig)"

section \<open>Triples\<close>

text \<open>
  What a handler gives when it returns, from a world that satisfies \<open>P\<close>; and that it does not panic there.
\<close>

definition triple :: "(agent_world \<Rightarrow> bool) \<Rightarrow> 'a step \<Rightarrow> ('a \<Rightarrow> agent_world \<Rightarrow> bool) \<Rightarrow> bool" where
  "triple P m Q \<longleftrightarrow>
     (\<forall>w x w'. P w \<longrightarrow> m w = (Inr x, w') \<longrightarrow> Q x w') \<and> (\<forall>w w'. P w \<longrightarrow> m w \<noteq> (Inl Flow_Panic, w'))"

lemma tripleD: "triple P m Q \<Longrightarrow> P w \<Longrightarrow> m w = (Inr x, w') \<Longrightarrow> Q x w'"
  unfolding triple_def by blast

lemma triple_no_panic: "triple P m Q \<Longrightarrow> P w \<Longrightarrow> m w \<noteq> (Inl Flow_Panic, w')"
  unfolding triple_def by blast

lemma tripleI:
  assumes "\<And>w x w'. P w \<Longrightarrow> m w = (Inr x, w') \<Longrightarrow> Q x w'" and "\<And>w w'. P w \<Longrightarrow> m w \<noteq> (Inl Flow_Panic, w')"
  shows "triple P m Q"
  unfolding triple_def using assms by blast

lemma triple_ok: "(\<And>w. P w \<Longrightarrow> Q x w) \<Longrightarrow> triple P (step_ok x) Q"
  by (simp add: triple_def step_ok_def)

lemma triple_fail: "e \<noteq> Flow_Panic \<Longrightarrow> triple P (step_fail e) Q"
  by (simp add: triple_def step_fail_def)

lemma triple_bind:
  assumes "triple P m R" and "\<And>x. triple (R x) (f x) Q"
  shows "triple P (step_bind m f) Q"
  using assms unfolding triple_def step_bind_Inr step_bind_Inl by blast

lemma triple_with_run:
  assumes "\<And>s. triple (\<lambda>w. P w \<and> w_run w = s) (f s) Q"
  shows "triple P (with_run f) Q"
  using assms unfolding triple_def with_run_def by blast

lemma triple_world:
  assumes "\<And>w. triple (\<lambda>w'. P w' \<and> w' = w) (f w) Q"
  shows "triple P (\<lambda>w. f w w) Q"
  using assms unfolding triple_def by blast

lemma triple_change: "(\<And>w. P w \<Longrightarrow> Q () (w\<lparr>w_run := f (w_run w)\<rparr>)) \<Longrightarrow> triple P (change_run f) Q"
  by (simp add: triple_def change_run_def)

lemma triple_indexed: "(\<And>w. P w \<Longrightarrow> \<exists>v. r = Some v \<and> Q v w) \<Longrightarrow> triple P (indexed r) Q"
  unfolding triple_def indexed_def by (cases r) (auto simp: step_simps)

lemma triple_weaken:
  assumes "triple P' m Q'" and "\<And>w. P w \<Longrightarrow> P' w" and "\<And>x w. Q' x w \<Longrightarrow> Q x w"
  shows "triple P m Q"
  using assms unfolding triple_def by blast

lemma triple_result:
  assumes "\<And>x w. P w \<Longrightarrow> r = Inr x \<Longrightarrow> Q x w" and "\<And>e. wrap e \<noteq> Flow_Panic"
  shows "triple P (step_of_result wrap r) Q"
  using assms by (cases r) (simp_all add: step_of_result_def triple_ok triple_fail)

lemma triple_if: "(c \<Longrightarrow> triple P a Q) \<Longrightarrow> (\<not> c \<Longrightarrow> triple P b Q) \<Longrightarrow> triple P (if c then a else b) Q"
  by simp

text \<open>
  What a request leaves alone: everything but the ledger and the log of requests, of what the handlers of this
  development read.
\<close>

definition asks_kept :: "agent_world \<Rightarrow> agent_world \<Rightarrow> bool" where
  "asks_kept a b \<longleftrightarrow>
     terms_kept a b \<and> w_raw a = w_raw b \<and> inputs (w_run a) = inputs (w_run b) \<and> given_task (w_run a) = given_task (w_run b)
     \<and> text_source (w_run a) = text_source (w_run b) \<and> run_memory (w_run a) = run_memory (w_run b)
     \<and> attachments (w_run a) = attachments (w_run b) \<and> run_replay (w_run a) = run_replay (w_run b)
     \<and> missing (w_run a) = missing (w_run b) \<and> intent (w_run a) = intent (w_run b)
     \<and> pager_followed (w_run a) = pager_followed (w_run b) \<and> caller_start (w_run a) = caller_start (w_run b)"

interpretation asks: world_relation asks_kept
  by unfold_locales (auto simp: asks_kept_def kept.R_refl intro: kept.R_trans)

lemma reserve_asks: "step_keeps asks_kept (reserve_calls E component calls)"
  by (auto simp: step_keeps_def reserve_calls_def asks_kept_def terms_kept_def split: prod.splits)

lemma record_asks: "step_keeps asks_kept (record_costs E ls)"
  by (auto simp: step_keeps_def record_costs_def asks_kept_def terms_kept_def split: prod.splits)

lemma evaluate_asks: "step_keeps asks_kept (evaluate E r)"
  by (auto simp: step_keeps_def evaluate_def asks_kept_def terms_kept_def step_of_result_def step_simps Let_def split: sum.splits)

lemma indexed_asks: "step_keeps asks_kept (indexed r)"
  by (cases r) (simp_all add: indexed_def asks.keeps_rules)

lemma ask_choices_in_asks: "step_keeps asks_kept (ask_choices_in E seen asked context)"
  unfolding ask_choices_in_def Let_def by (intro asks.keeps_rules reserve_asks record_asks evaluate_asks)

lemmas ask_choices_asks = ask_choices_in_asks [of _ _ _ None, folded ask_choices_def]

text \<open>A condition a request leaves true.\<close>

definition stable :: "(agent_world \<Rightarrow> bool) \<Rightarrow> bool" where
  "stable P \<longleftrightarrow> (\<forall>a b. asks_kept a b \<and> P a \<longrightarrow> P b)"

lemma triple_stable:
  assumes "triple P m Q" and "stable R" and "step_keeps asks_kept m"
  shows "triple (\<lambda>w. P w \<and> R w) m (\<lambda>x w. Q x w \<and> R w)"
  using assms unfolding triple_def stable_def step_keeps_def by blast

section \<open>Answers\<close>

lemma collect_picks_Cons:
  "collect_picks ((key, offered) # rest) ev = Inr picks \<longleftrightarrow>
     (\<exists>a tail. im_get (eval_answers ev) key = Some (A_Choice a) \<and> ca_choice a \<in> set offered
        \<and> collect_picks rest ev = Inr tail \<and> picks = (key, ca_choice a) # tail)"
  by (auto simp: and_then_def split: option.splits answer.splits sum.splits)

lemma collect_picks_offered:
  "collect_picks offered ev = Inr picks \<Longrightarrow>
     im_keys picks = map fst offered \<and> (\<forall>key c. (key, c) \<in> set picks \<longrightarrow> (\<exists>cs. (key, cs) \<in> set offered \<and> c \<in> set cs))"
proof (induction offered arbitrary: picks)
  case (Cons x rest)
  obtain key cs where x: "x = (key, cs)" by (cases x)
  with Cons.prems obtain a :: choice_answer and tail where "ca_choice a \<in> set cs" "collect_picks rest ev = Inr tail" "picks = (key, ca_choice a) # tail"
    unfolding x collect_picks_Cons by blast
  with Cons.IH x show ?case by fastforce
qed simp

lemma im_collect_id: "distinct (map fst kvs) \<Longrightarrow> im_collect kvs = kvs"
proof -
  have "distinct (map fst (m @ kvs)) \<Longrightarrow> foldl (\<lambda>m (k, v). im_insert k v m) m kvs = m @ kvs" for m
    by (induction kvs arbitrary: m) (auto simp: im_insert_new)
  from this [of "[]"] show "distinct (map fst kvs) \<Longrightarrow> im_collect kvs = kvs" by (simp add: im_collect_def)
qed

lemma wraps_no_panic: "flow_of_budget b \<noteq> Flow_Panic" "flow_of_decision d \<noteq> Flow_Panic" "flow_of_llm l \<noteq> Flow_Panic"
    "Flow_Panic \<noteq> flow_of_budget b" "Flow_Panic \<noteq> flow_of_decision d" "Flow_Panic \<noteq> flow_of_llm l"
  by (simp_all add: flow_of_budget_def flow_of_decision_def flow_of_llm_def)

lemma reserve_triple: "triple P (reserve_calls E component calls) (\<lambda>_ _. True)"
  by (rule tripleI) (auto simp: reserve_calls_def wraps_no_panic map_sum_Inl_iff split: prod.splits)

lemma record_triple: "triple P (record_costs E ls) (\<lambda>_ _. True)"
  by (rule tripleI) (auto simp: record_costs_def wraps_no_panic map_sum_Inl_iff split: prod.splits)

lemma evaluate_triple: "triple P (evaluate E r) (\<lambda>_ _. True)"
  by (rule tripleI) (auto simp: evaluate_def Let_def step_of_result_def step_simps wraps_no_panic split: sum.splits)

text \<open>What the picks of a request hold: each question's key, with one of the options it offered.\<close>

definition picks_offered :: "asked list \<Rightarrow> (str, str) index_map \<Rightarrow> bool" where
  "picks_offered asked picks \<longleftrightarrow>
     (\<forall>(key, q, cs)\<in>set asked. \<exists>c. im_get picks key = Some c \<and> c \<in> set (im_keys cs))"

lemma picks_of_asked:
  assumes "collect_picks (im_collect (map (\<lambda>(key, _, cs). (key, im_keys cs)) asked)) ev = Inr picks"
    and "distinct (map fst asked)"
  shows "picks_offered asked picks"
  unfolding picks_offered_def
proof (intro ballI, clarify)
  fix key q cs
  assume asked: "(key, q, cs) \<in> set asked"
  let ?offered = "map (\<lambda>(key, _, cs). (key, im_keys cs)) asked :: (str \<times> str list) list"
  have keys: "map fst ?offered = map fst asked" by (auto simp: case_prod_beta)
  have "im_collect ?offered = ?offered" using assms(2) keys im_collect_id by metis
  then have picks: "im_keys picks = map fst asked" "\<And>k c. (k, c) \<in> set picks \<Longrightarrow> \<exists>cs. (k, cs) \<in> set ?offered \<and> c \<in> set cs"
    using collect_picks_offered [OF assms(1)] keys by auto
  obtain c where c: "im_get picks key = Some c"
    using picks(1) asked by (metis image_eqI fst_conv list.set_map map_of_eq_None_iff not_None_eq)
  then obtain cs' where "(key, cs') \<in> set ?offered" "c \<in> set cs'" using picks(2) by (meson map_of_SomeD)
  moreover have "(key, im_keys cs) \<in> set ?offered" using asked by force
  ultimately have "c \<in> set (im_keys cs)" using assms(2) keys by (metis eq_key_imp_eq_value)
  then show "\<exists>c. im_get picks key = Some c \<and> c \<in> set (im_keys cs)" using c by blast
qed

lemma triple_kept:
  assumes "triple (\<lambda>_. True) m Q" and "step_keeps asks_kept m" and "stable P"
  shows "triple P m (\<lambda>x w. Q x w \<and> P w)"
  using triple_stable [OF assms(1,3,2)] by simp

lemma ask_choices_in_triple:
  assumes "distinct (map fst asked)" and "stable P"
  shows "triple P (ask_choices_in E seen asked context) (\<lambda>picks w. picks_offered asked picks \<and> P w)"
proof (rule triple_kept [OF _ ask_choices_in_asks assms(2)])
  show "triple (\<lambda>_. True) (ask_choices_in E seen asked context) (\<lambda>picks _. picks_offered asked picks)"
    unfolding ask_choices_in_def Let_def
    by (intro triple_bind [OF reserve_triple] triple_with_run triple_bind [OF triple_result [where Q = "\<lambda>_ _. True"]]
        triple_bind [OF evaluate_triple] triple_bind [OF record_triple] triple_result)
      (auto simp: wraps_no_panic intro: picks_of_asked [OF _ assms(1)])
qed

lemmas ask_choices_triple = ask_choices_in_triple [of _ _ _ _ None, folded ask_choices_def]

lemma ask_choice_triple:
  assumes "stable P"
  shows "triple P (ask_choice E obs q cs) (\<lambda>pick w. pick \<in> set (im_keys cs) \<and> P w)"
  unfolding ask_choice_def
  by (rule triple_bind [OF ask_choices_triple [OF _ assms]]) (auto simp: picks_offered_def intro!: triple_indexed)

lemma numbered_values: "snd ` set (numbered xs) = set xs"
proof -
  have "map snd (numbered xs) = xs" by (simp add: numbered_def comp_def case_prod_beta enumerate_eq_zip)
  then show ?thesis by (metis set_map)
qed

lemma choose_option_triple:
  assumes "stable P"
  shows "triple P (choose_option E obs q options) (\<lambda>v w. v \<in> set options \<and> P w)"
proof -
  consider "options = []" | x where "options = [x]" | (many) x y zs where "options = x # y # zs" by (metis neq_Nil_conv)
  then show ?thesis
  proof cases
    case many
    have "triple P (\<lambda>w. step_bind (ask_choice E obs q
          (map (\<lambda>(key, x). (key, JString (f w x))) keys)) (\<lambda>pick. indexed (im_get keys pick)) w) (\<lambda>v w. v \<in> snd ` set keys \<and> P w)"
      for keys :: "(str, str) index_map" and f :: "agent_world \<Rightarrow> str \<Rightarrow> str"
    proof (rule triple_world, rule triple_bind)
      fix w
      show "triple (\<lambda>w'. P w' \<and> w' = w) (ask_choice E obs q (map (\<lambda>(key, x). (key, JString (f w x))) keys))
          (\<lambda>pick w. pick \<in> set (im_keys keys) \<and> P w)"
        by (rule triple_weaken [OF ask_choice_triple [OF assms]]) (auto simp: case_prod_beta image_image)
      show "triple (\<lambda>w. pick \<in> set (im_keys keys) \<and> P w) (indexed (im_get keys pick)) (\<lambda>v w. v \<in> snd ` set keys \<and> P w)" for pick
        by (rule triple_indexed) (metis image_eqI map_of_SomeD map_of_eq_None_iff not_None_eq set_map snd_conv)
    qed
    note asked = this
    have "triple P (\<lambda>w. step_bind (ask_choice E obs q (map (\<lambda>(key, x). (key, JString (agent_mask E w x)))
        (numbered (take n options)))) (\<lambda>pick. indexed (im_get (numbered (take n options)) pick)) w) (\<lambda>v w. v \<in> set options \<and> P w)"
      for n by (rule triple_weaken [OF asked]) (auto simp: numbered_values dest: in_set_takeD)
    then show ?thesis using many by (simp add: choose_option_def Let_def)
  qed (auto simp: choose_option_def intro!: triple_fail triple_ok)
qed

lemma stable_True: "stable (\<lambda>_. True)"
  by (simp add: stable_def)

lemma ask_choice_any: "triple P (ask_choice E obs q cs) (\<lambda>pick _. pick \<in> set (im_keys cs))"
  by (rule triple_weaken [OF ask_choice_triple [OF stable_True]]) auto

lemma intent_of_offered: "c \<in> set (im_keys OUTPUT_CRITERIA) \<Longrightarrow> \<exists>i. intent_of c = Some i \<and> i \<noteq> Intent_Unknown"
proof -
  have "im_keys OUTPUT_CRITERIA = [lit ''text'', lit ''image'', lit ''text_image'', lit ''carried_out'']"
    by (simp add: OUTPUT_CRITERIA_def)
  moreover assume "c \<in> set (im_keys OUTPUT_CRITERIA)"
  ultimately have "c = lit ''text'' \<or> c = lit ''image'' \<or> c = lit ''text_image'' \<or> c = lit ''carried_out''" by simp
  then show ?thesis unfolding intent_of_def by auto
qed

lemma output_intent_triple:
  "triple (\<lambda>_. True) (output_intent_of_task E) (\<lambda>wanted w. wanted \<noteq> Intent_Unknown \<and> intent (w_run w) = wanted)"
proof -
  let ?asked = "[(lit ''pick'', lit ''What output does the task want at its end?'', OUTPUT_CRITERIA),
              (lit ''evidence'', lit ''Where can what the task asks about be seen?'', EVIDENCE_CRITERIA),
              (lit ''extent'', lit ''How much of a list does the task cover?'', EXTENT_CRITERIA)]"
  have keys: "distinct (map fst ?asked)" by (simp add: lit_def)
  have picked: "(\<exists>c. im_get picks (lit ''evidence'') = Some c) \<and> (\<exists>c. im_get picks (lit ''extent'') = Some c)
      \<and> (\<exists>c i. im_get picks (lit ''pick'') = Some c \<and> intent_of c = Some i \<and> i \<noteq> Intent_Unknown)"
    if "picks_offered ?asked picks" for picks
    using that intent_of_offered unfolding picks_offered_def by fastforce
  let ?Q = "\<lambda>wanted w. wanted \<noteq> Intent_Unknown \<and> intent (w_run w) = wanted"
  have "triple (\<lambda>_. picks_offered ?asked picks)
      (step_bind (indexed (im_get picks (lit ''evidence''))) (\<lambda>seen.
         step_bind (change_run (\<lambda>s. s\<lparr>appearance := (seen = lit ''appearance'')\<rparr>)) (\<lambda>_.
         step_bind (indexed (im_get picks (lit ''extent''))) (\<lambda>extent.
         step_bind (change_run (\<lambda>s. s\<lparr>every_page := (extent = lit ''every_page'')\<rparr>)) (\<lambda>_.
         step_bind (indexed (im_get picks (lit ''pick''))) (\<lambda>pick.
         step_bind (indexed (intent_of pick)) (\<lambda>wanted.
         step_bind (change_run (\<lambda>s. s\<lparr>intent := wanted\<rparr>)) (\<lambda>_. step_ok wanted)))))))) ?Q" for picks
  proof (cases "picks_offered ?asked picks")
    case True
    obtain c1 c2 c3 i where "im_get picks (lit ''evidence'') = Some c1" "im_get picks (lit ''extent'') = Some c2"
      "im_get picks (lit ''pick'') = Some c3" "intent_of c3 = Some i" "i \<noteq> Intent_Unknown"
      using picked [OF True] by blast
    then show ?thesis by (simp add: triple_def indexed_def step_bind_def step_simps)
  qed (simp add: triple_def)
  note rest = this
  show ?thesis
    unfolding output_intent_of_task_def
    by (intro triple_with_run triple_if triple_bind [OF triple_weaken [OF ask_choices_triple [OF keys stable_True]] rest])
      (auto intro: triple_ok)
qed

text \<open>
  C13: The answers Jev gives while a decision is carried out are used as asked.  An option chosen is one of those
  given, a dialog, a confirmation and the actions done are judged without a panic, and the output the task wants is
  known and kept from then on; a request that Jev answers otherwise is an error of the client, never a panic.
\<close>

theorem choices_never_panic:
  "(choose_option E obs q options w = (Inr v, w') \<longrightarrow> v \<in> set options)
   \<and> (output_intent_of_task E w = (Inr i, w') \<longrightarrow> i \<noteq> Intent_Unknown \<and> intent (w_run w') = i)
   \<and> choose_option E obs q options w \<noteq> (Inl Flow_Panic, w') \<and> output_intent_of_task E w \<noteq> (Inl Flow_Panic, w')
   \<and> stops_to_confirm E obs w \<noteq> (Inl Flow_Panic, w') \<and> actions_done E obs w \<noteq> (Inl Flow_Panic, w')
   \<and> accept_dialog E obs w \<noteq> (Inl Flow_Panic, w')"
proof -
  have confirm: "triple (\<lambda>_. True) (stops_to_confirm E obs) (\<lambda>_ _. True)"
    unfolding stops_to_confirm_def by (rule triple_bind [OF ask_choice_any]) (auto intro: triple_ok)
  have actions: "triple (\<lambda>_. True) (actions_done E obs) (\<lambda>_ _. True)"
    unfolding actions_done_def
    by (intro triple_with_run triple_bind [OF triple_weaken [OF ask_choices_in_triple [OF _ stable_True]]] triple_bind
        [OF triple_indexed [where Q = "\<lambda>_ _. True"]] triple_ok)
      (auto simp: picks_offered_def)
  have dialog: "triple (\<lambda>_. True) (accept_dialog E obs) (\<lambda>_ _. True)"
    unfolding accept_dialog_def
    by (auto split: option.splits intro!: triple_fail triple_bind [OF ask_choice_any] triple_ok)
  note chosen = choose_option_triple [OF stable_True, of E obs q options] and wanted = output_intent_triple [of E]
  show ?thesis
    using tripleD [OF chosen TrueI] tripleD [OF wanted TrueI] chosen wanted confirm actions dialog
    by (simp add: triple_no_panic [OF _ TrueI])
qed

theorem choices_never_panic_witness:
  "choose_option example_env (example_observation [] []) [] [lit ''a''] example_world = (Inr (lit ''a''), example_world)
   \<and> lit ''a'' \<in> set [lit ''a'']"
proof -
  have "choose_option example_env (example_observation [] []) [] [lit ''a''] example_world = (Inr (lit ''a''), example_world)"
    by (simp add: choose_option_def step_simps)
  then show ?thesis
    using choices_never_panic [of example_env "example_observation [] []" "[]" "[lit ''a'']" example_world "lit ''a''" example_world]
    by blast
qed

section \<open>Secrets: facts\<close>

text \<open>A value the store of secrets resolved for \<open>orig\<close>, and that is redacted from then on.\<close>

definition secret_resolved :: "agent_env \<Rightarrow> str \<Rightarrow> str \<Rightarrow> str \<Rightarrow> agent_world \<Rightarrow> bool" where
  "secret_resolved E name orig v w \<longleftrightarrow>
     (\<exists>avail answers w0. env_secrets E = Some (avail, answers)
        \<and> resolve_secret (env_unicode E) (env_urls E) avail (answers w0) name orig = Some v
        \<and> w_redactor w = register (env_unicode E) (env_urls E) (w_redactor w0) name v (Some orig))"

text \<open>The run says the text it types is that secret.\<close>

definition typed_secret :: "agent_env \<Rightarrow> str list \<Rightarrow> str \<Rightarrow> str \<Rightarrow> agent_world \<Rightarrow> bool" where
  "typed_secret E names orig v w \<longleftrightarrow>
     (\<exists>name\<in>set names. text_source (w_run w) = Some (Text_Secret name) \<and> secret_resolved E name orig v w)"

lemma secret_of_triple:
  assumes "\<And>w. P w \<Longrightarrow> text_source (w_run w) = Some (Text_Secret name)" and "name \<in> set names"
  shows "triple P (secret_of E name orig credential) (typed_secret E names orig)"
proof (rule tripleI)
  fix w v w'
  assume "P w" and run: "secret_of E name orig credential w = (Inr v, w')"
  then show "typed_secret E names orig v w'"
    using assms by (auto simp: secret_of_def typed_secret_def secret_resolved_def split: option.splits if_splits prod.splits)
next
  fix w w'
  show "secret_of E name orig credential w \<noteq> (Inl Flow_Panic, w')"
    by (simp add: secret_of_def split: option.splits)
qed

lemma set_source_triple: "triple P (set_source t) (\<lambda>_ w. text_source (w_run w) = Some t)"
  unfolding set_source_def by (rule triple_change) simp

lemma named_secret_triple:
  "name \<in> set names \<Longrightarrow>
     triple P (step_bind (set_source (Text_Secret name)) (\<lambda>_. secret_of E name orig credential)) (typed_secret E names orig)"
  by (rule triple_bind [OF set_source_triple secret_of_triple])

lemma chosen_secret_triple:
  assumes "set names \<subseteq> set secrets"
  shows "triple P (step_bind (ask_choice E obs q (im_collect (map (\<lambda>name. (name, f name)) names)))
      (\<lambda>name. step_bind (set_source (Text_Secret name)) (\<lambda>_. secret_of E name orig True))) (typed_secret E secrets orig)"
proof (rule triple_bind [OF ask_choice_any])
  fix name
  show "triple (\<lambda>_. name \<in> set (im_keys (im_collect (map (\<lambda>name. (name, f name)) names))))
     (step_bind (set_source (Text_Secret name)) (\<lambda>_. secret_of E name orig True)) (typed_secret E secrets orig)"
  proof (cases "name \<in> set names")
    case True
    then show ?thesis using assms by (intro named_secret_triple) blast
  next
    case False
    then have "name \<notin> set (im_keys (im_collect (map (\<lambda>name. (name, f name)) names)))"
      unfolding im_collect_keys by auto
    then show ?thesis unfolding triple_def by blast
  qed
qed

lemma stored_secret_triple:
  assumes "set names \<subseteq> set secrets"
  shows "triple P (stored_secret E obs target names orig) (typed_secret E secrets orig)"
proof -
  consider "names = []" | x where "names = [x]" | (many) x y zs where "names = x # y # zs" by (metis neq_Nil_conv)
  then show ?thesis
  proof cases
    case many
    from chosen_secret_triple [OF assms] show ?thesis unfolding stored_secret_def by (simp add: many)
  qed (use assms in \<open>auto simp: stored_secret_def intro!: triple_fail named_secret_triple\<close>)
qed

lemma sensitive_text_triple: "triple P (sensitive_text E obs target secrets orig) (typed_secret E secrets orig)"
proof -
  have role: "triple P (takes_replacement E obs target) (\<lambda>_ _. True)"
    unfolding takes_replacement_def
    by (auto split: option.splits intro!: triple_ok triple_fail triple_if triple_bind [OF ask_choice_any])
  show ?thesis
    unfolding sensitive_text_def
    by (rule triple_bind [OF role], intro triple_if stored_secret_triple) (auto intro: triple_fail named_secret_triple)
qed

end
