(* ===== verification/Words.thy ===== *)
theory Words
  imports PyText
begin

text \<open>
  The words of a text (\<^verbatim>\<open>words\<close> of \<^verbatim>\<open>crates/fastbrowse-agent/src/retrieval/text.rs\<close>): its whitespace-separated words
  with the punctuation around each trimmed off, by character offset, a word longer than a field's limit cut into
  numbered pieces.  The lemmas show that the words stand in the text in order, apart from each other, each within
  the limit, and that the pieces of a word make it up.
\<close>

section \<open>Words\<close>

record text_word =
  wd_index :: nat
  wd_start :: nat
  wd_end :: nat
  wd_piece :: "(nat \<times> nat) option"
  wd_starts :: "nat list"
  wd_ends :: "nat list"

text \<open>Where the word \<open>n\<close> before this one starts, and the word \<open>n\<close> after it ends.\<close>

definition word_before :: "text_word \<Rightarrow> nat \<Rightarrow> nat" where
  "word_before w n = wd_starts w ! (wd_index w - n)"

definition word_after :: "text_word \<Rightarrow> nat \<Rightarrow> nat" where
  "word_after w n = wd_ends w ! min (wd_index w + n) (length (wd_ends w) - 1)"

definition rposition :: "('a \<Rightarrow> bool) \<Rightarrow> 'a list \<Rightarrow> nat option" where
  "rposition P xs = map_option (\<lambda>i. length xs - 1 - i) (find_pos P (rev xs))"

text \<open>A run of characters that are no whitespace, without the punctuation at its ends.\<close>

definition trimmed_span :: "unicode_tables \<Rightarrow> nat \<Rightarrow> str \<Rightarrow> (nat \<times> nat) list" where
  "trimmed_span u start word =
     (case (find_pos (alnum_of u) word, rposition (alnum_of u) word) of
        (Some first, Some final) \<Rightarrow> [(start + first, start + final + 1)]
      | _ \<Rightarrow> [])"

text \<open>The loop over the characters and one space after them: \<open>begun\<close> is where the word being read began.\<close>

fun word_spans :: "unicode_tables \<Rightarrow> str \<Rightarrow> nat \<Rightarrow> nat option \<Rightarrow> str \<Rightarrow> (nat \<times> nat) list" where
  "word_spans u chars pos begun [] = []"
| "word_spans u chars pos begun (c # cs) =
     (case (is_whitespace c, begun) of
        (False, None) \<Rightarrow> word_spans u chars (pos + 1) (Some pos) cs
      | (True, Some start) \<Rightarrow>
          trimmed_span u start (take (pos - start) (drop start chars)) @ word_spans u chars (pos + 1) None cs
      | _ \<Rightarrow> word_spans u chars (pos + 1) begun cs)"

definition div_ceil :: "nat \<Rightarrow> nat \<Rightarrow> nat" where
  "div_ceil a b = (a + b - 1) div b"

text \<open>One word in pieces of at most \<open>limit\<close> characters.\<close>

definition cut_span :: "nat \<Rightarrow> nat \<times> nat \<Rightarrow> ((nat \<times> nat) \<times> (nat \<times> nat) option) list" where
  "cut_span limit s =
     (let (start, stop_at) = s;
          n = div_ceil (stop_at - start) limit
      in map (\<lambda>k. ((start + k * limit, min (start + k * limit + limit) stop_at),
                   if n > 1 then Some (k + 1, n) else None)) [0..<n])"

definition word_pieces :: "unicode_tables \<Rightarrow> str \<Rightarrow> nat option \<Rightarrow> ((nat \<times> nat) \<times> (nat \<times> nat) option) list" where
  "word_pieces u v limit =
     (let found = word_spans u v 0 None (v @ [32])
      in case limit of
           Some n \<Rightarrow> if n > 0 then concat (map (cut_span n) found) else map (\<lambda>s. (s, None)) found
         | None \<Rightarrow> map (\<lambda>s. (s, None)) found)"

definition text_words :: "unicode_tables \<Rightarrow> str \<Rightarrow> nat option \<Rightarrow> text_word list" where
  "text_words u v limit =
     (let ps = word_pieces u v limit;
          starts = map (fst \<circ> fst) ps;
          ends = map (snd \<circ> fst) ps
      in map (\<lambda>(i, (start, stop_at), piece).
                \<lparr>wd_index = i, wd_start = start, wd_end = stop_at, wd_piece = piece, wd_starts = starts, wd_ends = ends\<rparr>)
           (enumerate 0 ps))"

section \<open>Facts\<close>

text \<open>Spans in order, each with a character, none over another, all before \<open>n\<close>.\<close>

fun spans_in :: "nat \<Rightarrow> (nat \<times> nat) list \<Rightarrow> nat \<Rightarrow> bool" where
  "spans_in lo [] n \<longleftrightarrow> lo \<le> n"
| "spans_in lo ((a, b) # ss) n \<longleftrightarrow> lo \<le> a \<and> a < b \<and> spans_in b ss n"

lemma spans_in_lower: "spans_in lo ss n \<Longrightarrow> lo' \<le> lo \<Longrightarrow> spans_in lo' ss n"
  by (cases ss) auto

lemma spans_in_upper: "spans_in lo ss n \<Longrightarrow> n \<le> n' \<Longrightarrow> spans_in lo ss n'"
  by (induction lo ss n rule: spans_in.induct) auto

lemma spans_in_bound: "spans_in lo ss n \<Longrightarrow> lo \<le> n"
  by (induction lo ss n rule: spans_in.induct) auto

lemma spans_in_append: "spans_in lo ss m \<Longrightarrow> spans_in m ts n \<Longrightarrow> spans_in lo (ss @ ts) n"
  by (induction lo ss m rule: spans_in.induct) (auto intro: spans_in_lower)

lemma spans_in_set: "spans_in lo ss n \<Longrightarrow> (a, b) \<in> set ss \<Longrightarrow> lo \<le> a \<and> a < b \<and> b \<le> n"
  by (induction lo ss n rule: spans_in.induct) (auto dest: spans_in_bound)

lemma rposition_Some:
  assumes "rposition P xs = Some i"
  shows "i < length xs \<and> P (xs ! i) \<and> (\<forall>j<length xs. i < j \<longrightarrow> \<not> P (xs ! j))"
proof -
  obtain k where k: "find_pos P (rev xs) = Some k" and i: "i = length xs - 1 - k" using assms by (auto simp: rposition_def)
  have f: "k < length xs" "P (rev xs ! k)" "\<And>j. j < k \<Longrightarrow> \<not> P (rev xs ! j)" using find_pos_Some [OF k] by auto
  have "\<not> P (xs ! j)" if "j < length xs" "i < j" for j
    using f(3) [of "length xs - 1 - j"] that f(1) i by (simp add: rev_nth)
  then show ?thesis using f i by (auto simp: rev_nth)
qed

lemma rposition_None: "rposition P xs = None \<longleftrightarrow> (\<forall>x\<in>set xs. \<not> P x)"
  by (simp add: rposition_def find_pos_None)

lemma trimmed_span_facts:
  assumes "start + length word \<le> length chars" and "word = take (length word) (drop start chars)"
  shows "spans_in start (trimmed_span u start word) (start + length word)"
    and "(a, b) \<in> set (trimmed_span u start word) \<Longrightarrow>
      alnum_of u (chars ! a) \<and> alnum_of u (chars ! (b - 1))"
    and "start \<le> i \<Longrightarrow> i < start + length word \<Longrightarrow> alnum_of u (chars ! i) \<Longrightarrow>
      \<exists>(a, b)\<in>set (trimmed_span u start word). a \<le> i \<and> i < b"
proof -
  have w: "chars ! (start + k) = word ! k" if "k < length word" for k
    using that assms by (metis nth_take nth_drop add_leD1)
  consider (none) "trimmed_span u start word = []" "\<forall>x\<in>set word. \<not> alnum_of u x"
    | (some) f l where "find_pos (alnum_of u) word = Some f" "rposition (alnum_of u) word = Some l"
        "trimmed_span u start word = [(start + f, start + l + 1)]"
    by (cases "find_pos (alnum_of u) word"; cases "rposition (alnum_of u) word")
      (auto simp: trimmed_span_def find_pos_None rposition_None)
  note facts = this
  show "spans_in start (trimmed_span u start word) (start + length word)"
    using facts
  proof cases
    case some
    have "f \<le> l" using find_pos_Some [OF some(1)] rposition_Some [OF some(2)] by (meson not_le_imp_less)
    then show ?thesis using some(3) rposition_Some [OF some(2)] by simp
  qed simp
  show "(a, b) \<in> set (trimmed_span u start word) \<Longrightarrow> alnum_of u (chars ! a) \<and> alnum_of u (chars ! (b - 1))"
    using facts by cases (auto dest: find_pos_Some rposition_Some simp: w)
  show "\<exists>(a, b)\<in>set (trimmed_span u start word). a \<le> i \<and> i < b"
    if i: "start \<le> i" "i < start + length word" "alnum_of u (chars ! i)"
  proof -
    define k where "k = i - start"
    have k: "i = start + k" "k < length word" using i by (auto simp: k_def)
    have "alnum_of u (word ! k)" using i(3) w [OF k(2)] k(1) by simp
    with facts show ?thesis
    proof cases
      case some
      have "f \<le> k" "k \<le> l"
        using find_pos_Some [OF some(1)] rposition_Some [OF some(2)] \<open>alnum_of u (word ! k)\<close> k(2) not_le_imp_less by blast+
      then show ?thesis using some(3) k(1) by auto
    qed (use k(2) nth_mem in auto)
  qed
qed

text \<open>What the loop keeps: it stands at \<open>pos\<close>, and the word begun has no whitespace so far.\<close>

definition reading :: "str \<Rightarrow> nat \<Rightarrow> nat option \<Rightarrow> str \<Rightarrow> bool" where
  "reading chars pos begun cs \<longleftrightarrow>
     drop pos (chars @ [32]) = cs \<and> pos \<le> length chars + 1
     \<and> (case begun of None \<Rightarrow> True
        | Some start \<Rightarrow> start < pos \<and> pos \<le> length chars \<and> (\<forall>j. start \<le> j \<and> j < pos \<longrightarrow> \<not> is_whitespace (chars ! j)))"

definition from_pos :: "str \<Rightarrow> nat \<Rightarrow> nat option \<Rightarrow> nat" where
  "from_pos chars pos begun = (case begun of Some start \<Rightarrow> start | None \<Rightarrow> min pos (length chars))"

text \<open>What a list of spans found from \<open>lo\<close> on says of the text.\<close>

definition words_found :: "unicode_tables \<Rightarrow> str \<Rightarrow> nat \<Rightarrow> (nat \<times> nat) list \<Rightarrow> bool" where
  "words_found u chars lo ss \<longleftrightarrow>
     spans_in lo ss (length chars)
     \<and> (\<forall>(a, b)\<in>set ss. alnum_of u (chars ! a) \<and> alnum_of u (chars ! (b - 1))
                        \<and> (\<forall>j. a \<le> j \<and> j < b \<longrightarrow> \<not> is_whitespace (chars ! j)))
     \<and> (\<forall>i<length chars. lo \<le> i \<and> alnum_of u (chars ! i) \<and> \<not> is_whitespace (chars ! i)
                        \<longrightarrow> (\<exists>(a, b)\<in>set ss. a \<le> i \<and> i < b))"

lemma words_found_skip:
  assumes "words_found u chars hi ss" and "lo \<le> hi" and "\<forall>j. lo \<le> j \<and> j < hi \<longrightarrow> is_whitespace (chars ! j)"
  shows "words_found u chars lo ss"
  using assms unfolding words_found_def by (meson not_le_imp_less spans_in_lower)

lemma words_found_append:
  assumes "words_found u chars hi rest" and "start \<le> hi" and "hi \<le> length chars"
    and "\<forall>j. start \<le> j \<and> j < hi \<longrightarrow> \<not> is_whitespace (chars ! j)"
  shows "words_found u chars start (trimmed_span u start (take (hi - start) (drop start chars)) @ rest)"
proof -
  let ?word = "take (hi - start) (drop start chars)"
  have len: "start + length ?word = hi" using assms(2,3) by simp
  have tr: "start + length ?word \<le> length chars" "?word = take (length ?word) (drop start chars)" using assms(2,3) by auto
  note f = trimmed_span_facts [OF tr]
  have s: "spans_in start (trimmed_span u start ?word) hi" using f(1) [of u] unfolding len .
  show ?thesis unfolding words_found_def
  proof (intro conjI)
    show "spans_in start (trimmed_span u start ?word @ rest) (length chars)"
      using s assms(1) unfolding words_found_def by (blast intro: spans_in_append)
    have "(\<forall>j. a \<le> j \<and> j < b \<longrightarrow> \<not> is_whitespace (chars ! j))" if "(a, b) \<in> set (trimmed_span u start ?word)" for a b
      using spans_in_set [OF s that] assms(4) by (meson le_trans less_le_trans)
    then show "\<forall>(a, b)\<in>set (trimmed_span u start ?word @ rest). alnum_of u (chars ! a) \<and> alnum_of u (chars ! (b - 1))
                        \<and> (\<forall>j. a \<le> j \<and> j < b \<longrightarrow> \<not> is_whitespace (chars ! j))"
      using f(2) [of _ _ u] assms(1) unfolding words_found_def by auto
    have "\<exists>(a, b)\<in>set (trimmed_span u start ?word @ rest). a \<le> i \<and> i < b"
      if i: "i < length chars" "start \<le> i" "alnum_of u (chars ! i)" "\<not> is_whitespace (chars ! i)" for i
    proof (cases "i < hi")
      case True
      then show ?thesis using f(3) [OF i(2) _ i(3)] len by auto
    next
      case False
      then have "hi \<le> i" by simp
      then have "\<exists>(a, b)\<in>set rest. a \<le> i \<and> i < b" using assms(1) i unfolding words_found_def by blast
      then show ?thesis by auto
    qed
    then show "\<forall>i<length chars. start \<le> i \<and> alnum_of u (chars ! i) \<and> \<not> is_whitespace (chars ! i)
        \<longrightarrow> (\<exists>(a, b)\<in>set (trimmed_span u start ?word @ rest). a \<le> i \<and> i < b)" by blast
  qed
qed

lemma space_whitespace: "is_whitespace 32"
  by (simp add: is_whitespace_def)

lemma reading_step:
  assumes "reading chars pos begun (c # cs)"
  shows "pos \<le> length chars" and "pos < length chars \<Longrightarrow> c = chars ! pos" and "\<not> is_whitespace c \<Longrightarrow> pos < length chars"
    and "drop (pos + 1) (chars @ [32]) = cs"
    and "is_whitespace c \<Longrightarrow> \<forall>j. min pos (length chars) \<le> j \<and> j < min (pos + 1) (length chars) \<longrightarrow> is_whitespace (chars ! j)"
proof -
  have d: "drop pos (chars @ [32]) = c # cs" using assms by (simp add: reading_def)
  then have lt: "pos < length (chars @ [32])" by (metis drop_all list.discI not_le)
  then have c: "c = (chars @ [32]) ! pos" using d by (metis nth_via_drop)
  show "pos \<le> length chars" using lt by simp
  show "c = chars ! pos" if "pos < length chars" using c that by (simp add: nth_append)
  show "\<forall>j. min pos (length chars) \<le> j \<and> j < min (pos + 1) (length chars) \<longrightarrow> is_whitespace (chars ! j)" if "is_whitespace c"
  proof (intro allI impI)
    fix j
    assume "min pos (length chars) \<le> j \<and> j < min (pos + 1) (length chars)"
    then have "j = pos" "pos < length chars" by linarith+
    then show "is_whitespace (chars ! j)" using c that by (simp add: nth_append)
  qed
  show "pos < length chars" if "\<not> is_whitespace c"
    using c lt that space_whitespace by (cases "pos = length chars") (auto simp: nth_append)
  show "drop (pos + 1) (chars @ [32]) = cs" using d by (metis Suc_eq_plus1 drop_Suc list.sel(3) tl_drop)
qed

lemma word_spans_found:
  "reading chars pos begun cs \<Longrightarrow> words_found u chars (from_pos chars pos begun) (word_spans u chars pos begun cs)"
proof (induction u chars pos begun cs rule: word_spans.induct)
  case (1 u chars pos begun)
  then have "pos = length chars + 1" "begun = None" by (auto simp: reading_def split: option.splits)
  then show ?case by (simp add: words_found_def from_pos_def)
next
  case (2 u chars pos begun c cs)
  note r = reading_step [OF 2(5)]
  consider (opens) "\<not> is_whitespace c" "begun = None" | (closes) start where "is_whitespace c" "begun = Some start"
    | (between) "is_whitespace c" "begun = None" | (inside) start where "\<not> is_whitespace c" "begun = Some start"
    by (cases begun; cases "is_whitespace c") auto
  then show ?case
  proof cases
    case opens
    then have "reading chars (pos + 1) (Some pos) cs"
      using r by (auto simp: reading_def less_Suc_eq_le)
    then show ?thesis using 2 opens r(3) by (simp add: from_pos_def)
  next
    case closes
    have "reading chars (pos + 1) None cs" using r(1,4) by (simp add: reading_def)
    then have "words_found u chars (min (pos + 1) (length chars)) (word_spans u chars (pos + 1) None cs)"
      using 2 closes by (simp add: from_pos_def)
    from words_found_skip [OF this _ r(5) [OF closes(1)]]
    have "words_found u chars pos (word_spans u chars (pos + 1) None cs)" using r(1) by simp
    moreover have "start \<le> pos" "\<forall>j. start \<le> j \<and> j < pos \<longrightarrow> \<not> is_whitespace (chars ! j)"
      using 2(5) closes by (auto simp: reading_def)
    ultimately show ?thesis using closes words_found_append r(1) by (simp add: from_pos_def)
  next
    case between
    have "reading chars (pos + 1) None cs" using r(1,4) by (simp add: reading_def)
    then have "words_found u chars (min (pos + 1) (length chars)) (word_spans u chars (pos + 1) None cs)"
      using 2 between by (simp add: from_pos_def)
    from words_found_skip [OF this _ r(5) [OF between(1)]]
    have "words_found u chars (min pos (length chars)) (word_spans u chars (pos + 1) None cs)" by simp
    then show ?thesis using between by (simp add: from_pos_def)
  next
    case inside
    then have "reading chars (pos + 1) (Some start) cs"
      using r 2(5) by (auto simp: reading_def less_Suc_eq)
    then show ?thesis using 2 inside by (simp add: from_pos_def)
  qed
qed

lemma div_ceil_less: "0 < n \<Longrightarrow> j < div_ceil d n \<longleftrightarrow> j * n < d"
  unfolding div_ceil_def Suc_le_eq [symmetric] by (auto simp: less_eq_div_iff_mult_less_eq)

lemma spans_in_pieces:
  assumes "0 < n" and "\<And>j. j < m \<longleftrightarrow> start + j * n < stop_at" and "k \<le> m"
  shows "spans_in (min (start + k * n) stop_at)
           (map (\<lambda>k. (start + k * n, min (start + k * n + n) stop_at)) [k..<m]) stop_at"
  using assms(3)
proof (induction k rule: inc_induct)
  case (step k)
  then have "[k..<m] = k # [Suc k..<m]" "start + k * n < stop_at" using assms(2) by (simp_all add: upt_conv_Cons)
  then show ?case using step assms(1) by (simp add: algebra_simps min_def)
qed simp

lemma spans_in_cut:
  assumes "start < stop_at" and "0 < n"
  shows "spans_in start (map fst (cut_span n (start, stop_at))) stop_at"
proof -
  have "j < div_ceil (stop_at - start) n \<longleftrightarrow> start + j * n < stop_at" for j
    using div_ceil_less [OF assms(2)] assms(1) by (simp add: less_diff_conv add.commute)
  from spans_in_pieces [OF assms(2) this, of 0] show ?thesis
    using assms(1) by (simp add: cut_span_def Let_def comp_def)
qed

text \<open>The pieces of a word: each within the limit, and every character of the word in one of them.\<close>

lemma cut_span_pieces:
  assumes "0 < n"
  shows "(s, p) \<in> set (cut_span n (start, stop_at)) \<Longrightarrow> snd s - fst s \<le> n"
    and "start \<le> i \<Longrightarrow> i < stop_at \<Longrightarrow> \<exists>(s, p)\<in>set (cut_span n (start, stop_at)). fst s \<le> i \<and> i < snd s"
proof -
  show "(s, p) \<in> set (cut_span n (start, stop_at)) \<Longrightarrow> snd s - fst s \<le> n"
    by (auto simp: cut_span_def Let_def)
  assume i: "start \<le> i" "i < stop_at"
  let ?k = "(i - start) div n"
  have "?k * n \<le> i - start" "i - start < ?k * n + n"
    using mod_less_divisor [OF assms, of "i - start"] div_mult_mod_eq [of "i - start" n] by linarith+
  then have "start + ?k * n \<le> i" "i < start + ?k * n + n" "?k * n < stop_at - start" using i by linarith+
  moreover from this have "?k < div_ceil (stop_at - start) n" by (simp add: div_ceil_less [OF assms])
  ultimately show "\<exists>(s, p)\<in>set (cut_span n (start, stop_at)). fst s \<le> i \<and> i < snd s"
    using i(2) by (force simp: cut_span_def Let_def)
qed

lemma spans_in_cuts:
  "spans_in lo ss n \<Longrightarrow> 0 < k \<Longrightarrow> spans_in lo (map fst (concat (map (cut_span k) ss))) n"
proof (induction lo ss n rule: spans_in.induct)
  case (2 lo a b ss n)
  then show ?case using spans_in_append [OF spans_in_lower [OF spans_in_cut]] by simp
qed simp

lemma word_pieces_spans: "spans_in 0 (map fst (word_pieces u v limit)) (length v)"
proof -
  have "spans_in 0 (word_spans u v 0 None (v @ [32])) (length v)"
    using word_spans_found [of v 0 None "v @ [32]" u] by (simp add: reading_def from_pos_def words_found_def)
  then show ?thesis
    by (auto simp: word_pieces_def Let_def comp_def spans_in_cuts split: option.splits)
qed

lemma text_words_nth:
  assumes "k < length (word_pieces u v limit)"
  shows "wd_index (text_words u v limit ! k) = k"
    and "(wd_start (text_words u v limit ! k), wd_end (text_words u v limit ! k)) = fst (word_pieces u v limit ! k)"
    and "wd_starts (text_words u v limit ! k) = map (fst \<circ> fst) (word_pieces u v limit)"
    and "wd_ends (text_words u v limit ! k) = map (snd \<circ> fst) (word_pieces u v limit)"
  using assms by (cases "word_pieces u v limit ! k"; cases "fst (word_pieces u v limit ! k)";
    auto simp: text_words_def Let_def nth_enumerate_eq)+

lemma length_text_words: "length (text_words u v limit) = length (word_pieces u v limit)"
  by (simp add: text_words_def Let_def)

lemma text_words_spans: "map (\<lambda>w. (wd_start w, wd_end w)) (text_words u v limit) = map fst (word_pieces u v limit)"
  by (rule nth_equalityI) (simp_all add: length_text_words text_words_nth(2))

lemma uncut_pieces:
  assumes "\<not> (\<exists>m>0. limit = Some m)"
  shows "word_pieces u v limit = map (\<lambda>s. (s, None)) (word_spans u v 0 None (v @ [32]))"
  using assms by (cases limit) (simp_all add: word_pieces_def Let_def)

text \<open>The pieces are parts of the words found, and make them up.\<close>

lemma piece_in_found:
  assumes "(a, b) \<in> set (map fst (word_pieces u v limit))"
  shows "(\<exists>(a', b')\<in>set (word_spans u v 0 None (v @ [32])). a' \<le> a \<and> b \<le> b') \<and> (\<forall>m>0. limit = Some m \<longrightarrow> b - a \<le> m)"
proof (cases "\<exists>m>0. limit = Some m")
  case True
  then obtain m where m: "limit = Some m" "0 < m" by blast
  then obtain s p where s: "s \<in> set (word_spans u v 0 None (v @ [32]))" "((a, b), p) \<in> set (cut_span m s)"
    using assms by (auto simp: word_pieces_def Let_def)
  then have "fst s \<le> a" "b \<le> snd s" "b - a \<le> m" by (auto simp: cut_span_def Let_def split: prod.splits)
  then show ?thesis using s(1) m by (cases s) auto
next
  case False
  then have "word_pieces u v limit = map (\<lambda>s. (s, None)) (word_spans u v 0 None (v @ [32]))"
    by (rule uncut_pieces)
  then have "(a, b) \<in> set (word_spans u v 0 None (v @ [32]))" using assms by (simp add: comp_def)
  then show ?thesis using False by blast
qed

lemma found_in_pieces:
  assumes "(a', b') \<in> set (word_spans u v 0 None (v @ [32]))" and "a' \<le> i" and "i < b'"
  shows "\<exists>(a, b)\<in>set (map fst (word_pieces u v limit)). a \<le> i \<and> i < b"
proof (cases "\<exists>m>0. limit = Some m")
  case True
  then obtain m where m: "limit = Some m" "0 < m" by blast
  obtain s p where s: "(s, p) \<in> set (cut_span m (a', b'))" "fst s \<le> i" "i < snd s"
    using cut_span_pieces(2) [OF m(2) assms(2,3)] by blast
  then have "(s, p) \<in> set (word_pieces u v limit)" using m assms(1) by (auto simp: word_pieces_def Let_def)
  then have "s \<in> set (map fst (word_pieces u v limit))" by force
  then show ?thesis using s(2,3) by (cases s) auto
next
  case False
  then have "word_pieces u v limit = map (\<lambda>s. (s, None)) (word_spans u v 0 None (v @ [32]))"
    by (rule uncut_pieces)
  then show ?thesis using assms by (auto simp: comp_def)
qed

lemma text_word_neighbours:
  assumes "k < length (text_words u v limit)"
  shows "word_before (text_words u v limit ! k) n = wd_start (text_words u v limit ! (k - n))"
    and "word_after (text_words u v limit ! k) n = wd_end (text_words u v limit ! min (k + n) (length (text_words u v limit) - 1))"
proof -
  let ?j = "min (k + n) (length (word_pieces u v limit) - 1)"
  have k: "k < length (word_pieces u v limit)" "k - n < length (word_pieces u v limit)" "?j < length (word_pieces u v limit)"
    using assms by (auto simp: length_text_words)
  show "word_before (text_words u v limit ! k) n = wd_start (text_words u v limit ! (k - n))"
    using text_words_nth(2) [OF k(2)] k by (simp add: word_before_def text_words_nth(1,3) prod_eq_iff)
  show "word_after (text_words u v limit ! k) n = wd_end (text_words u v limit ! min (k + n) (length (text_words u v limit) - 1))"
    using text_words_nth(2) [OF k(3)] k by (simp add: word_after_def text_words_nth(1,4) prod_eq_iff length_text_words)
qed

text \<open>
  The words of a text are told apart exactly.  They stand in the text in order and apart from each other, each
  knows its own position and where its neighbours are, none is longer than a given limit, none holds whitespace,
  and every letter or digit of the text is in one of them.
\<close>

theorem words_exact:
  shows "spans_in 0 (map (\<lambda>w. (wd_start w, wd_end w)) (text_words u v limit)) (length v)
    \<and> (\<forall>k<length (text_words u v limit). wd_index (text_words u v limit ! k) = k
         \<and> word_before (text_words u v limit ! k) n = wd_start (text_words u v limit ! (k - n))
         \<and> word_after (text_words u v limit ! k) n = wd_end (text_words u v limit ! min (k + n) (length (text_words u v limit) - 1)))
    \<and> (\<forall>w\<in>set (text_words u v limit). (\<forall>m>0. limit = Some m \<longrightarrow> wd_end w - wd_start w \<le> m)
         \<and> (\<forall>j. wd_start w \<le> j \<and> j < wd_end w \<longrightarrow> \<not> is_whitespace (v ! j)))
    \<and> (\<forall>i<length v. alnum_of u (v ! i) \<and> \<not> is_whitespace (v ! i)
         \<longrightarrow> (\<exists>w\<in>set (text_words u v limit). wd_start w \<le> i \<and> i < wd_end w))"
proof -
  have found: "words_found u v 0 (word_spans u v 0 None (v @ [32]))"
    using word_spans_found [of v 0 None "v @ [32]" u] by (simp add: reading_def from_pos_def)
  have span: "(wd_start w, wd_end w) \<in> set (map fst (word_pieces u v limit))" if "w \<in> set (text_words u v limit)" for w
    using that unfolding text_words_spans [symmetric] by auto
  show ?thesis
  proof (intro conjI allI ballI impI)
    fix w j
    assume w: "w \<in> set (text_words u v limit)" and j: "wd_start w \<le> j \<and> j < wd_end w"
    obtain a' b' where "(a', b') \<in> set (word_spans u v 0 None (v @ [32]))" "a' \<le> wd_start w" "wd_end w \<le> b'"
      using piece_in_found [OF span [OF w]] by blast
    then show "\<not> is_whitespace (v ! j)" using found j unfolding words_found_def by fastforce
  next
    fix i
    assume i: "i < length v" "alnum_of u (v ! i) \<and> \<not> is_whitespace (v ! i)"
    then obtain a' b' where "(a', b') \<in> set (word_spans u v 0 None (v @ [32]))" "a' \<le> i" "i < b'"
      using found unfolding words_found_def by blast
    then show "\<exists>w\<in>set (text_words u v limit). wd_start w \<le> i \<and> i < wd_end w"
      using found_in_pieces [where limit = limit] unfolding text_words_spans [symmetric] by fastforce
  qed (use word_pieces_spans piece_in_found [OF span] in
    \<open>auto simp: text_words_spans text_word_neighbours length_text_words text_words_nth(1)\<close>)
qed

theorem words_exact_witness:
  "map (\<lambda>w. (wd_start w, wd_end w)) (text_words ascii_tables (lit '' ab, (c)'') (Some 1)) = [(1, 2), (2, 3), (6, 7)]
   \<and> (\<exists>w\<in>set (text_words ascii_tables (lit '' ab, (c)'') (Some 1)). wd_start w \<le> 2 \<and> 2 < wd_end w)"
proof -
  have "2 < length (lit '' ab, (c)'')" "alnum_of ascii_tables (lit '' ab, (c)'' ! 2) \<and> \<not> is_whitespace (lit '' ab, (c)'' ! 2)"
    by code_simp+
  then have "\<exists>w\<in>set (text_words ascii_tables (lit '' ab, (c)'') (Some 1)). wd_start w \<le> 2 \<and> 2 < wd_end w"
    using words_exact [of ascii_tables "lit '' ab, (c)''" "Some 1" 0] by blast
  moreover have "map (\<lambda>w. (wd_start w, wd_end w)) (text_words ascii_tables (lit '' ab, (c)'') (Some 1)) = [(1, 2), (2, 3), (6, 7)]"
    by code_simp
  ultimately show ?thesis by blast
qed

end
