(* ===== verification/Acting.thy ===== *)
theory Acting
  imports Filling
begin

text \<open>
  Turning a decision into an action (\<^verbatim>\<open>Agent::action\<close> in \<^verbatim>\<open>crates/fastbrowse-agent/src/agent/acting.rs\<close>): the address a
  navigation may open, the gates of what may commit, the text of a field, the option of a list, the file of an
  upload and the answer to a dialog.  The lemmas show that an action that comes out was let through its gate and
  carries only what the caller, the page or the store of secrets gave, and that no decision makes it panic.
\<close>

section \<open>The action\<close>

definition require_target :: "control option \<Rightarrow> control step" where
  "require_target target =
     (case target of
        Some c \<Rightarrow> step_ok c
      | None \<Rightarrow> step_fail (flow_of_decision (Decision_Failed (lit ''operation needs a target and Jev offered none''))))"

definition navigable :: "agent_env \<Rightarrow> run_state \<Rightarrow> observation \<Rightarrow> str \<Rightarrow> bool" where
  "navigable E s obs url \<longleftrightarrow>
     url \<in> set (task_urls (env_unicode E) (env_urls E) (task s) (caller_start s) True)
     \<or> reload_target s (obs_url obs) = Some url \<or> url \<in> pager_followed s"

definition navigate_action :: "agent_env \<Rightarrow> observation \<Rightarrow> decision \<Rightarrow> act step" where
  "navigate_action E obs d w =
     (case (case dec_url d of Some url \<Rightarrow> if navigable E (w_run w) obs url then Some url else None | None \<Rightarrow> None) of
        None \<Rightarrow> step_fail (Flow_Stop (stop_new Status_Stuck (lit ''navigation address was not supplied by the caller''))) w
      | Some url \<Rightarrow>
          if reveals_text E w url
          then step_fail (Flow_Stop (stop_new Status_NeedsInput (lit ''navigation address contains a resolved secret''))) w
          else
            step_bind (gate_download E obs d (caller_link url)) (\<lambda>_.
            step_bind (gate_question E obs d url (Some (navigation_question url))
                (requested_question (lit ''open the address '' @ url @ lit ''.'' @ [10])) None) (\<lambda>_.
              step_ok ((act_new Op_Navigate)\<lparr>act_url := Some url\<rparr>))) w)"

text \<open>Text typed as an input was given is the input, when no other input has it and the task does not state it.\<close>

definition input_typed :: "str \<Rightarrow> run_state \<Rightarrow> run_state" where
  "input_typed t s =
     (case (text_source s, map fst (filter (\<lambda>(_, v). v = t) (inputs s))) of
        (Some (Text_Literal _), [name]) \<Rightarrow>
          if find_str t (given_task s) = None then s\<lparr>text_source := Some (Text_Input name)\<rparr> else s
      | (Some Text_Live, [name]) \<Rightarrow>
          if find_str t (given_task s) = None then s\<lparr>text_source := Some (Text_Input name)\<rparr> else s
      | _ \<Rightarrow> s)"

definition fill_action :: "agent_env \<Rightarrow> observation \<Rightarrow> decision \<Rightarrow> act step" where
  "fill_action E obs d =
     step_bind (require_target (dec_target d)) (\<lambda>target.
       if env_over_http E
       then step_fail (Flow_Browser (env_needs_browser E (repr (ctl_label target) @ lit '' can only be filled in a browser'')))
       else
         step_bind (field_text E obs d target) (\<lambda>t.
         step_bind (change_run (input_typed t)) (\<lambda>_.
         (\<lambda>w. step_ok ((act_new Op_Fill)\<lparr>act_target_id := Some (ctl_id target), act_secret := reveals_text E w t,
                                        act_text := Some t, act_secret_origin := Some (target_origin w target)\<rparr>) w))))"

definition select_action :: "agent_env \<Rightarrow> observation \<Rightarrow> decision \<Rightarrow> act step" where
  "select_action E obs d =
     step_bind (require_target (dec_target d)) (\<lambda>target w.
       let raw = raw_target w target;
           why = repr (ctl_label target) @ lit '' offers no options yet''
       in (if ctl_options raw = []
           then (if env_over_http E then step_fail (Flow_Browser (env_needs_browser E why))
                 else step_fail (Flow_Unsure \<lparr>unsure_reason = why, gives_up_as = Status_Stuck\<rparr>))
           else
             step_bind (choose_option E obs (lit ''Which option should '' @ repr (ctl_label target) @ lit '' be set to?'') (ctl_options raw))
               (\<lambda>option. step_ok ((act_new Op_Select)\<lparr>act_target_id := Some (ctl_id raw), act_text := Some option\<rparr>))) w)"

definition upload_action :: "agent_env \<Rightarrow> observation \<Rightarrow> decision \<Rightarrow> act step" where
  "upload_action E obs d =
     with_run (\<lambda>s.
       if attachments s = []
       then step_fail (Flow_Stop (stop_new Status_NeedsInput (lit ''the page asks for a file and none was provided'')))
       else
         step_bind (choose_option E obs (lit ''Which file belongs in this input?'') (map att_name (attachments s))) (\<lambda>name.
           let files = filter (\<lambda>a. att_name a = name) (attachments s)
           in if (\<Sum>f\<leftarrow>files. int (length (att_content f))) > max_upload_bytes (env_config E)
              then step_fail (Flow_Stop (stop_new Status_NeedsInput (name @ lit '' exceeds the upload size limit'')))
              else step_bind (require_target (dec_target d)) (\<lambda>target.
                     step_ok ((act_new Op_Upload)\<lparr>act_target_id := Some (ctl_id target), act_files := files\<rparr>))))"

definition dialog_action :: "agent_env \<Rightarrow> observation \<Rightarrow> decision \<Rightarrow> act step" where
  "dialog_action E obs d =
     step_bind (accept_dialog E obs) (\<lambda>accept.
     step_bind
       (with_run (\<lambda>s.
          case (if accept then obs_dialog obs else None) of
            None \<Rightarrow> step_ok ()
          | Some dialog \<Rightarrow>
              (case dialog_question (task s) (Some dialog) of
                 None \<Rightarrow> step_ok ()
               | Some irreversible \<Rightarrow>
                   gate_question E obs d (dialog_message dialog) (Some irreversible)
                     (requested_question (lit ''accept this '' @ dialog_kind dialog @ lit '' dialog: ''
                        @ repr (dialog_message dialog) @ lit ''.'' @ [10])) None))) (\<lambda>_.
       step_ok ((act_new Op_Dialog)\<lparr>act_accept_dialog := Some accept\<rparr>)))"

definition drag_action :: "agent_env \<Rightarrow> observation \<Rightarrow> decision \<Rightarrow> act step" where
  "drag_action E obs d =
     (case dec_destination d of
        None \<Rightarrow> step_fail (Flow_Stop (stop_new Status_NeedsInput (lit ''the page offers no drop target for the drag'')))
      | Some destination \<Rightarrow>
          step_bind (gate_irreversible E obs d) (\<lambda>_.
          step_bind (require_target (dec_target d)) (\<lambda>target.
            step_ok ((act_new Op_Drag)\<lparr>act_target_id := Some (ctl_id target), act_destination_id := Some (ctl_id destination)\<rparr>))))"

definition press_action :: "agent_env \<Rightarrow> observation \<Rightarrow> decision \<Rightarrow> act step" where
  "press_action E obs d =
     step_bind (gate_irreversible E obs d) (\<lambda>_.
       step_ok ((act_new (dec_operation d))\<lparr>act_target_id := map_option ctl_id (dec_target d)\<rparr>))"

definition agent_action :: "agent_env \<Rightarrow> observation \<Rightarrow> decision \<Rightarrow> act step" where
  "agent_action E obs d =
     (case dec_operation d of
        Op_Navigate \<Rightarrow> navigate_action E obs d
      | Op_Click \<Rightarrow> press_action E obs d
      | Op_Enter \<Rightarrow> press_action E obs d
      | Op_Drag \<Rightarrow> drag_action E obs d
      | Op_Fill \<Rightarrow> fill_action E obs d
      | Op_Select \<Rightarrow> select_action E obs d
      | Op_Upload \<Rightarrow> upload_action E obs d
      | Op_Dialog \<Rightarrow> dialog_action E obs d
      | Op_SwitchTab \<Rightarrow> step_ok ((act_new Op_SwitchTab)\<lparr>act_tab_id := dec_tab_id d\<rparr>)
      | Op_Hover \<Rightarrow>
          step_bind (require_target (dec_target d)) (\<lambda>target. step_ok ((act_new Op_Hover)\<lparr>act_target_id := Some (ctl_id target)\<rparr>))
      | Op_Blur \<Rightarrow>
          step_bind (require_target (dec_target d)) (\<lambda>target. step_ok ((act_new Op_Blur)\<lparr>act_target_id := Some (ctl_id target)\<rparr>))
      | Op_Read \<Rightarrow> step_fail (Flow_Agent (Agent_Invalid (operation_str Op_Read @ lit '' is handled by the loop, not dispatched'')))
      | Op_Done \<Rightarrow> step_fail (Flow_Agent (Agent_Invalid (operation_str Op_Done @ lit '' is handled by the loop, not dispatched'')))
      | op \<Rightarrow> step_ok (act_new op))"

section \<open>What settling a text leaves alone\<close>

definition given_kept :: "agent_world \<Rightarrow> agent_world \<Rightarrow> bool" where
  "given_kept a b \<longleftrightarrow>
     inputs (w_run a) = inputs (w_run b) \<and> task (w_run a) = task (w_run b) \<and> w_raw a = w_raw b
     \<and> given_task (w_run a) = given_task (w_run b) \<and> w_handed_over a = w_handed_over b
     \<and> committing (w_run a) = committing (w_run b)"

interpretation given: world_relation given_kept
  by unfold_locales (auto simp: given_kept_def)

lemma step_keeps_mono: "step_keeps R m \<Longrightarrow> (\<And>a b. R a b \<Longrightarrow> R' a b) \<Longrightarrow> step_keeps R' m"
  unfolding step_keeps_def by blast

lemma asks_given: "step_keeps asks_kept m \<Longrightarrow> step_keeps given_kept m"
  by (erule step_keeps_mono) (auto simp: asks_kept_def terms_kept_def given_kept_def)

lemma ask_choice_asks: "step_keeps asks_kept (ask_choice E obs q cs)"
  unfolding ask_choice_def by (intro asks.keeps_rules ask_choices_asks indexed_asks)

lemma small_given:
  "step_keeps given_kept (set_source t)" "step_keeps given_kept (secret_of E name orig credential)"
  "step_keeps given_kept (missing_value obs target)" "step_keeps given_kept (change_run (input_typed v))"
proof -
  show "step_keeps given_kept (set_source t)"
    by (auto simp: step_keeps_def set_source_def step_simps given_kept_def)
  show "step_keeps given_kept (secret_of E name orig credential)"
    by (auto simp: step_keeps_def secret_of_def given_kept_def split: option.splits)
  show "step_keeps given_kept (missing_value obs target)"
    by (auto simp: step_keeps_def missing_value_def step_bind_def step_simps given_kept_def)
  show "step_keeps given_kept (change_run (input_typed v))"
    by (auto simp: step_keeps_def step_simps given_kept_def input_typed_def split: option.splits recipe_text.splits list.splits)
qed

lemmas given_rules = given.keeps_rules small_given asks_given [OF ask_choices_asks] asks_given [OF ask_choice_asks]
  asks_given [OF indexed_asks] asks_given [OF record_asks] asks_given [OF write_field_value_asks]

lemma narrow_loop_given: "step_keeps given_kept (narrow_loop E obs t label grp)"
proof (induction "length grp" arbitrary: grp rule: less_induct)
  case less
  show ?case
  proof (cases "length grp \<le> max_choice_options (env_profile E)")
    case True
    then show ?thesis by (auto simp: step_keeps_def narrow_loop.simps given.R_refl)
  next
    case False
    have "step_keeps given_kept (narrow_next E obs t label (parts_of (max_choice_options (env_profile E)) grp) pick)" for pick
      unfolding narrow_next_def using less [OF parts_shorter] by (auto split: option.split intro!: given_rules)
    then show ?thesis unfolding narrow_loop_unfold [OF False] by (intro given_rules)
  qed
qed

lemma narrowed_given: "step_keeps given_kept (narrowed E obs t label grp)"
  unfolding narrowed_def by (intro given_rules narrow_loop_given)

lemma sensitive_given: "step_keeps given_kept (sensitive_text E obs target secrets orig)"
  unfolding sensitive_text_def takes_replacement_def stored_secret_def
  by (auto split: option.split list.split intro!: given_rules)

lemma copied_given: "step_keeps given_kept (copied_text E obs target source t label grp picks)"
  unfolding copied_text_def copy_between_def settle_end_def settle_start_def Let_def
  by (auto split: option.split prod.split intro!: given_rules)

lemma written_given: "step_keeps given_kept (written_text E obs target label)"
  unfolding written_text_def keep_written_def by (auto split: option.split intro!: given_rules)

lemma read_picks_given: "step_keeps given_kept (read_picks E obs target t label picks)"
  unfolding read_picks_def Let_def by (intro given_rules narrowed_given)

lemma sourced_given: "step_keeps given_kept (sourced_text E obs target orig v grp picks)"
  unfolding sourced_text_def Let_def
  by (auto split: option.split prod.split intro!: given_rules written_given read_picks_given copied_given
      given.keeps_world [of "\<lambda>w. secret_of E _ orig (asks_for_credentials (env_unicode E) (raw_target w target))"])

lemma picked_given: "step_keeps given_kept (picked_text E obs d target orig)"
proof -
  have "step_keeps given_kept (step_bind (narrowed E obs (fv_task v) (fv_label v) (fv_group v)) (\<lambda>grp.
        with_run (\<lambda>s.
          let asked = value_questions s target (fv_task v) (lit ''the task'') (fv_label v) grp (fv_question v) (fv_sources v)
          in step_bind (case ahead_picks d asked of Some picks \<Rightarrow> step_ok picks | None \<Rightarrow> ask_choices E (Some obs) asked)
               (sourced_text E obs target orig v grp))))" for v
    unfolding Let_def by (intro given_rules narrowed_given sourced_given) (auto split: option.split intro: given_rules)
  then show ?thesis
    using sensitive_given [of E obs target "secret_names E orig" orig] unfolding picked_text_def Let_def step_keeps_def by simp
qed

lemma recorded_secret_given:
  "step_keeps given_kept (\<lambda>w. step_bind (secret_of E name orig (c w)) (\<lambda>v. step_bind (set_source t) (\<lambda>_. step_ok v)) w)"
proof -
  have "step_keeps given_kept (step_bind (secret_of E name orig x) (\<lambda>v. step_bind (set_source t) (\<lambda>_. step_ok v)))" for x
    by (intro given_rules)
  then show ?thesis unfolding step_keeps_def by blast
qed

lemma field_text_given: "step_keeps given_kept (field_text E obs d target)"
proof -
  have "step_keeps given_kept (text_from E obs d target orig source)" for orig source
    unfolding text_from_def
    by (auto split: option.split recipe_text.split intro!: given_rules picked_given recorded_secret_given)
  then have "step_keeps given_kept (step_bind (set_source Text_Live) (\<lambda>_.
     with_run (\<lambda>s. text_from E obs d target orig (recorded_source obs d target s))))" for orig
    by (intro given_rules)
  then show ?thesis unfolding field_text_def step_keeps_def by blast
qed

section \<open>What an action was let through\<close>

lemma step_fail_not_Inr: "step_fail e w \<noteq> (Inr a, w')"
  by (simp add: step_fail_def)

lemma step_ok_Inr: "step_ok x w = (Inr a, w') \<longleftrightarrow> a = x \<and> w' = w"
  by (auto simp: step_ok_def)

lemma require_target_Inr: "require_target target w = (Inr c, w') \<longleftrightarrow> target = Some c \<and> w' = w"
  by (auto simp: require_target_def step_simps split: option.splits)

lemmas step_results = step_bind_Inr step_ok_Inr require_target_Inr step_fail_not_Inr

lemma navigate_gated:
  assumes "answers_asked E" and "navigate_action E obs d w = (Inr a, w')"
  shows "act_operation a = Op_Navigate"
    and "\<exists>url. dec_url d = Some url \<and> act_url a = Some url \<and> navigable E (w_run w) obs url \<and> \<not> reveals_text E w url
      \<and> gate_passed E obs False w w'"
proof -
  obtain url where url: "dec_url d = Some url" "navigable E (w_run w) obs url" "\<not> reveals_text E w url"
    using assms(2) by (auto simp: navigate_action_def step_results split: option.splits if_splits)
  then obtain w0 where dl: "gate_download E obs d (caller_link url) w = (Inr (), w0)"
    and q: "gate_question E obs d url (Some (navigation_question url))
                (requested_question (lit ''open the address '' @ url @ lit ''.'' @ [10])) None w0 = (Inr (), w')"
    and a: "a = (act_new Op_Navigate)\<lparr>act_url := Some url\<rparr>"
    using assms(2) by (auto simp: navigate_action_def step_results)
  have "gate_passed E obs False w0 w'" using gate_question_passes [OF assms(1) q] by simp
  then have "gate_passed E obs False w w'" by (rule gate_passed_before [OF step_keepsD [OF gate_download_kept dl]])
  then show "\<exists>url. dec_url d = Some url \<and> act_url a = Some url \<and> navigable E (w_run w) obs url \<and> \<not> reveals_text E w url
      \<and> gate_passed E obs False w w'" using url a by simp
  show "act_operation a = Op_Navigate" by (simp add: a act_new_def)
qed

lemma accept_dialog_asks: "step_keeps asks_kept (accept_dialog E obs)"
  unfolding accept_dialog_def by (auto split: option.split intro!: asks.keeps_rules ask_choice_asks)

lemma dialog_gated:
  assumes "answers_asked E" and "dialog_action E obs d w = (Inr a, w')"
  shows "act_operation a = Op_Dialog"
    and "act_accept_dialog a = Some True \<Longrightarrow> dialog_question (task (w_run w)) (obs_dialog obs) \<noteq> None
      \<Longrightarrow> gate_passed E obs False w w'"
proof -
  obtain accept w0 where ask: "accept_dialog E obs w = (Inr accept, w0)"
    and run: "(case (if accept then obs_dialog obs else None) of
            None \<Rightarrow> step_ok ()
          | Some dialog \<Rightarrow>
              (case dialog_question (task (w_run w0)) (Some dialog) of
                 None \<Rightarrow> step_ok ()
               | Some irreversible \<Rightarrow>
                   gate_question E obs d (dialog_message dialog) (Some irreversible)
                     (requested_question (lit ''accept this '' @ dialog_kind dialog @ lit '' dialog: ''
                        @ repr (dialog_message dialog) @ lit ''.'' @ [10])) None)) w0 = (Inr (), w')"
    and a: "a = (act_new Op_Dialog)\<lparr>act_accept_dialog := Some accept\<rparr>"
    using assms(2) by (auto simp: dialog_action_def step_results with_run_def)
  have kept: "terms_kept w w0" using step_keepsD [OF accept_dialog_asks ask] by (simp add: asks_kept_def)
  then have task: "task (w_run w0) = task (w_run w)" by (simp add: terms_kept_def)
  show "gate_passed E obs False w w'" if yes: "act_accept_dialog a = Some True"
    and q: "dialog_question (task (w_run w)) (obs_dialog obs) \<noteq> None"
  proof -
    obtain dialog where dialog: "obs_dialog obs = Some dialog"
      using q by (cases "obs_dialog obs") (auto simp: dialog_question_def)
    obtain irreversible where i: "dialog_question (task (w_run w0)) (Some dialog) = Some irreversible"
      using q dialog task by auto
    have "accept" using yes a by simp
    from run [unfolded dialog] this i
    obtain requested where "gate_question E obs d (dialog_message dialog) (Some irreversible) requested None w0 = (Inr (), w')"
      by simp
    from gate_question_passes [OF assms(1) this] have "gate_passed E obs False w0 w'" by simp
    then show ?thesis by (rule gate_passed_before [OF kept])
  qed
  show "act_operation a = Op_Dialog" by (simp add: a act_new_def)
qed

lemma press_gated:
  assumes "answers_asked E" and "press_action E obs d w = (Inr a, w') \<or> drag_action E obs d w = (Inr a, w') \<and> dec_operation d = Op_Drag"
    and "may_be_irreversible (dec_operation d)"
  shows "act_operation a = dec_operation d"
    and "dec_target d = Some target \<Longrightarrow> gate_passed E obs (changes_credentials (obs_controls obs) target (dec_operation d)) w w'"
proof -
  have "act_operation a = dec_operation d \<and> gate_irreversible E obs d w = (Inr (), w')"
    using assms(2) by (auto simp: press_action_def drag_action_def step_results act_new_def split: option.splits)
  then show "act_operation a = dec_operation d"
    and "dec_target d = Some target \<Longrightarrow> gate_passed E obs (changes_credentials (obs_controls obs) target (dec_operation d)) w w'"
    using gate_irreversible_passes [OF assms(1) _ _ assms(3)] by blast+
qed

lemma no_dialog:
  "navigate_action E obs d w = (Inr a, w') \<Longrightarrow> act_accept_dialog a = None"
  "drag_action E obs d w = (Inr a, w') \<Longrightarrow> act_accept_dialog a = None"
  "press_action E obs d w = (Inr a, w') \<Longrightarrow> act_accept_dialog a = None"
  by (auto simp: navigate_action_def drag_action_def press_action_def step_results act_new_def split: option.splits if_splits)

lemma choose_option_asks: "step_keeps asks_kept (choose_option E obs q options)"
proof -
  have "step_keeps asks_kept (\<lambda>w. step_bind (ask_choice E obs q (cs w)) (\<lambda>pick. indexed (f pick)) w)" for cs f
    by (rule asks.keeps_world) (intro asks.keeps_rules ask_choice_asks indexed_asks)
  then show ?thesis
    unfolding choose_option_def Let_def by (auto split: list.split intro!: asks.keeps_rules)
qed

lemma fill_action_Inr:
  assumes "fill_action E obs d w = (Inr a, w')"
  obtains target t w1 where "dec_target d = Some target" "field_text E obs d target w = (Inr t, w1)"
    "w' = w1\<lparr>w_run := input_typed t (w_run w1)\<rparr>"
    "a = (act_new Op_Fill)\<lparr>act_target_id := Some (ctl_id target), act_secret := reveals_text E w' t,
            act_text := Some t, act_secret_origin := Some (target_origin w' target)\<rparr>"
  using assms by (auto simp: fill_action_def step_results change_run_def split: if_splits)

lemma select_action_Inr:
  assumes "select_action E obs d w = (Inr a, w')"
  obtains target x q where "dec_target d = Some target" 
    "choose_option E obs q (ctl_options (raw_target w target)) w = (Inr x, w')"
    "a = (act_new Op_Select)\<lparr>act_target_id := Some (ctl_id (raw_target w target)), act_text := Some x\<rparr>"
  using assms by (auto simp: select_action_def step_results Let_def split: if_splits)

lemma upload_action_Inr:
  assumes "upload_action E obs d w = (Inr a, w')"
  obtains target name q where "dec_target d = Some target"
    "choose_option E obs q (map att_name (attachments (w_run w))) w = (Inr name, w')"
    "(\<Sum>f\<leftarrow>filter (\<lambda>f. att_name f = name) (attachments (w_run w)). int (length (att_content f))) \<le> max_upload_bytes (env_config E)"
    "a = (act_new Op_Upload)\<lparr>act_target_id := Some (ctl_id target), act_files := filter (\<lambda>f. att_name f = name) (attachments (w_run w))\<rparr>"
  using assms by (auto simp: upload_action_def step_results Let_def with_run_def split: if_splits)

lemma quiet_actions:
  assumes "fill_action E obs d w = (Inr a, w') \<and> op = Op_Fill \<or> select_action E obs d w = (Inr a, w') \<and> op = Op_Select
     \<or> upload_action E obs d w = (Inr a, w') \<and> op = Op_Upload"
  shows "act_operation a = op \<and> act_accept_dialog a = None \<and> given_kept w w'"
proof -
  consider "fill_action E obs d w = (Inr a, w')" "op = Op_Fill" | "select_action E obs d w = (Inr a, w')" "op = Op_Select"
    | "upload_action E obs d w = (Inr a, w')" "op = Op_Upload" using assms by blast
  then show ?thesis
  proof cases
    case 1
    from 1(1) show ?thesis
    proof (rule fill_action_Inr)
      fix target t w1
      assume t: "field_text E obs d target w = (Inr t, w1)" and w': "w' = w1\<lparr>w_run := input_typed t (w_run w1)\<rparr>"
        and a: "a = (act_new Op_Fill)\<lparr>act_target_id := Some (ctl_id target), act_secret := reveals_text E w' t,
            act_text := Some t, act_secret_origin := Some (target_origin w' target)\<rparr>"
      have "given_kept w1 w'" by (rule step_keepsD [OF small_given(4) [of t], of _ "Inr ()"]) (simp add: change_run_def w')
      with step_keepsD [OF field_text_given t] have "given_kept w w'" by (rule given.R_trans)
      then show ?thesis using 1(2) a by (simp add: act_new_def)
    qed
  next
    case 2
    from 2(1) show ?thesis
      by (rule select_action_Inr) (use 2(2) step_keepsD [OF asks_given [OF choose_option_asks]] in \<open>auto simp: act_new_def\<close>)
  next
    case 3
    from 3(1) show ?thesis
      by (rule upload_action_Inr) (use 3(2) step_keepsD [OF asks_given [OF choose_option_asks]] in \<open>auto simp: act_new_def\<close>)
  qed
qed

lemma given_quiet: "given_kept w w' \<Longrightarrow> committing (w_run w') = committing (w_run w) \<and> w_handed_over w' = w_handed_over w"
  by (simp add: given_kept_def)



section \<open>What an action carries\<close>

lemma input_typed_cases:
  "input_typed t s = s \<or>
   (\<exists>name. map fst (filter (\<lambda>(_, v). v = t) (inputs s)) = [name]
      \<and> ((\<exists>x. text_source s = Some (Text_Literal x)) \<or> text_source s = Some Text_Live)
      \<and> input_typed t s = s\<lparr>text_source := Some (Text_Input name)\<rparr>)"
  by (auto simp: input_typed_def split: option.splits recipe_text.splits list.splits)

lemma only_input:
  assumes "im_wf ins" and "map fst (filter (\<lambda>(_, v). v = t) ins) = [name]"
  shows "im_get ins name = Some t"
proof -
  have "name \<in> set (map fst (filter (\<lambda>(_, v). v = t) ins))" using assms(2) by simp
  then have "(name, t) \<in> set ins" by auto
  then show ?thesis using assms(1) by (simp add: im_wf_def)
qed

lemma input_typed_accounts:
  assumes "im_wf (inputs (w_run w))" and "inputs (w_run w1) = inputs (w_run w)" and "text_accounted E obs d target w t w1"
  shows "text_accounted E obs d target w t (w1\<lparr>w_run := input_typed t (w_run w1)\<rparr>)"
proof (rule disjE [OF input_typed_cases [of t "w_run w1"]], goal_cases)
  case 1
  then show ?case using assms(3) by simp
next
  case 2
  then obtain name where only: "map fst (filter (\<lambda>(_, v). v = t) (inputs (w_run w1))) = [name]"
    and was: "(\<exists>x. text_source (w_run w1) = Some (Text_Literal x)) \<or> text_source (w_run w1) = Some Text_Live"
    and new: "input_typed t (w_run w1) = (w_run w1)\<lparr>text_source := Some (Text_Input name)\<rparr>"
    by (elim exE conjE)
  have name: "im_get (inputs (w_run w)) name = Some t" using only only_input [OF assms(1)] assms(2) by simp
  have "\<not> is_password target" using assms(3) was by (auto simp: text_accounted_def typed_secret_def)
  then show ?case using name by (simp add: text_accounted_def text_known_def new)
qed

lemma target_origin_given: "given_kept w w' \<Longrightarrow> target_origin w' target = target_origin w target"
  by (simp add: given_kept_def target_origin_def raw_target_def)

section \<open>Nothing panics\<close>

abbreviation calm :: "'a step \<Rightarrow> bool" where
  "calm m \<equiv> triple (\<lambda>_. True) m (\<lambda>_ _. True)"

lemma calm_rules:
  "calm (step_ok x)" "e \<noteq> Flow_Panic \<Longrightarrow> calm (step_fail e)"
  "calm m \<Longrightarrow> (\<And>x. calm (f x)) \<Longrightarrow> calm (step_bind m f)"
  "(\<And>s. calm (g s)) \<Longrightarrow> calm (with_run g)" "calm (change_run h)"
  by (auto simp: triple_def step_simps step_bind_Inl)

lemma calm_world: "(\<And>w. calm (f w)) \<Longrightarrow> calm (\<lambda>w. f w w)"
  by (simp add: triple_def)

lemma calm_asked:
  "calm (ask_jev E r)" "calm (ask_choice E obs q cs)" "calm (choose_option E obs q options)"
proof -
  show "calm (ask_jev E r)"
    unfolding ask_jev_def by (intro calm_rules reserve_triple evaluate_triple record_triple)
  show "calm (ask_choice E obs q cs)" by (rule triple_weaken [OF ask_choice_triple [OF stable_True]]) simp_all
  show "calm (choose_option E obs q options)" by (rule triple_weaken [OF choose_option_triple [OF stable_True]]) simp_all
qed

lemma calm_recorded: "calm (record_step E st capture given)"
proof -
  have "calm (glance E)" "calm (reveals_page E now)" "calm (take_screenshot E)" "calm (emit_step st shot)" for now st shot
    by (auto simp: triple_def glance_def reveals_page_def take_screenshot_def emit_step_def step_of_result_def step_simps Let_def
        split: sum.splits browser_error.splits)
  then have "calm (step_bind (change_run (keep_step st)) (\<lambda>_.
        if \<not> env_on_event E then step_ok ()
        else step_bind (if capture \<and> step_frames (env_config E) then frame E else step_ok given) (emit_step st)))" for st
    unfolding frame_def by (auto intro!: calm_rules)
  then show ?thesis unfolding record_step_def Let_def by (rule calm_world)
qed

lemma calm_refused: "calm (refuse E obs d label why)" "calm (refuse_unsure E obs d label why)" "calm (needs_confirmation E obs d label)"
proof -
  have refused: "calm (\<lambda>w. record_failure E obs op (f w) (g w) conf changed who w)" for op f g conf changed who
    by (rule calm_world) (unfold record_failure_def, intro calm_rules calm_recorded)
  then show refuse: "calm (refuse E obs d label why)" for label why
    unfolding refuse_def .
  have "calm (\<lambda>w. step_bind (refuse E obs d label why) (\<lambda>_. step_fail (Flow_Unsure (h w))) w)" for h
    by (rule calm_world) (intro calm_rules refuse, simp)
  then show "calm (refuse_unsure E obs d label why)" unfolding refuse_unsure_def .
  show "calm (needs_confirmation E obs d label)"
    unfolding needs_confirmation_def Let_def by (intro calm_rules refuse) simp
qed

lemma calm_gates:
  "calm (gate_download E obs d c)" "calm (gate_question E obs d label irreversible requested lasting)"
  "calm (gate_irreversible E obs d)"
proof -
  have "calm (downloads_forbidden E)"
    unfolding downloads_forbidden_def Let_def by (auto split: option.split intro!: calm_rules calm_asked)
  then show download: "calm (gate_download E obs d c)" for c
    unfolding gate_download_def by (auto intro!: calm_rules calm_refused)
  have "calm (trace_event kind x)" "calm (commit_to b)" for kind x b
    by (auto simp: triple_def trace_event_def commit_to_def)
  then show question: "calm (gate_question E obs d label irreversible requested lasting)" for label irreversible requested lasting
    unfolding gate_question_def Let_def by (auto intro!: calm_rules calm_asked calm_refused)
  show "calm (gate_irreversible E obs d)"
    unfolding gate_irreversible_def Let_def by (auto split: option.split prod.split intro!: calm_rules download question)
qed

lemma calm_require: "calm (require_target target)"
  unfolding require_target_def by (auto split: option.split intro!: calm_rules simp: wraps_no_panic)

lemma calm_action:
  assumes "1 \<le> dt_month (obs_captured_at obs)" and "dt_month (obs_captured_at obs) \<le> 12"
  shows "calm (agent_action E obs d)"
proof -
  note rules = calm_rules calm_gates calm_require calm_asked
  have "calm (navigate_action E obs d)"
  proof -
    have "calm (step_bind (gate_download E obs d (caller_link url)) (\<lambda>_.
            step_bind (gate_question E obs d url (Some (navigation_question url))
                (requested_question (lit ''open the address '' @ url @ lit ''.'' @ [10])) None) (\<lambda>_.
              step_ok ((act_new Op_Navigate)\<lparr>act_url := Some url\<rparr>))))" for url
      by (intro rules)
    then show ?thesis
      by (auto simp: triple_def navigate_action_def step_fail_def split: option.splits if_splits)
  qed
  moreover have "calm (press_action E obs d)" "calm (drag_action E obs d)"
    unfolding press_action_def drag_action_def by (auto split: option.split intro!: rules)
  moreover have "calm (fill_action E obs d)"
  proof -
    have "calm (field_text E obs d target)" for target
      using field_text_accounts [OF assms] by (simp add: triple_def)
    moreover have "calm (\<lambda>w. step_ok (f w) w)" for f :: "agent_world \<Rightarrow> act"
      by (rule calm_world) (rule calm_rules)
    ultimately show ?thesis unfolding fill_action_def by (auto intro!: rules)
  qed
  moreover have "calm (select_action E obs d)"
  proof -
    have "calm (step_bind (choose_option E obs q options) (\<lambda>x. step_ok (f x)))" for q options and f :: "str \<Rightarrow> act"
      by (intro rules)
    then show ?thesis
      by (auto simp: triple_def select_action_def step_fail_def step_bind_Inl require_target_def step_ok_def wraps_no_panic Let_def
          split: if_splits option.splits)
  qed
  moreover have "calm (upload_action E obs d)"
    unfolding upload_action_def Let_def by (auto intro!: rules)
  moreover have "calm (dialog_action E obs d)"
    unfolding dialog_action_def accept_dialog_def by (auto split: option.split intro!: rules)
  ultimately show ?thesis
    unfolding agent_action_def by (cases "dec_operation d") (auto intro!: rules)
qed


definition example_fill :: decision where
  "example_fill = example_click\<lparr>dec_operation := Op_Fill, dec_target := Some example_login\<rparr>"


end
