(* ===== verification/Offering.thy ===== *)
theory Offering
  imports Acting Asking
begin

text \<open>
  One step's request (\<^verbatim>\<open>crates/fastbrowse-agent/src/policy.rs\<close>): the operations and targets a page offers, the questions that
  choose among them, the state they are asked about, and the reading of Jev's answers as a decision.  A group is chosen
  first where a choice has more options than Jev takes.  The lemmas show that the decision read from any valid answers is
  one the page offered: an operation that was not withheld, a control it can act on, an address the caller gave, a tab that
  is open.  \<^verbatim>\<open>images\<close> is named by its digest in the state; what Jev makes of the pixels is part of its answer.
\<close>

section \<open>Rules\<close>

definition NEXT_ACTION_RULES :: str where
  \<open>NEXT_ACTION_RULES =
     lit ''Advance the user's task from the current page using one operation.'' @ [10]
     @ lit ''When a subgoal is supplied, take its next action first; it describes the current obstacle.'' @ [10]
     @ lit ''Use current field values and the recent history.'' @ [10]
     @ lit ''Preserve authentication unless the task requires a session change.'' @ [10]
     @ lit ''Fill a search query before submitting. Clicking only focuses; fill can open an editor and type.'' @ [10]
     @ lit ''Do not repeat satisfied steps. Fill required fields before submitting. An action whose'' @ [10]
     @ lit ''effect is "nothing visible changed" did nothing: take another way, not the same action.'' @ [10]
     @ lit ''When a control offers choices or a confirmation, use its observed behaviour to determine whether entering'' @ [10]
     @ lit ''a value commits it or whether selecting or confirming is needed to reach the requested state.'' @ [10]
     @ lit ''If changing a form's mode changes its fields or clears their values, set the requested mode before filling'' @ [10]
     @ lit ''the affected fields.'' @ [10]
     @ lit ''If a form asks for extra values the task does not need, change its mode before inventing those values.'' @ [10]
     @ lit ''Set the filters the task asks for that this form already offers before submitting; setting one afterwards'' @ [10]
     @ lit ''submits twice. A filter the page only shows once there are results is set there, after submitting.'' @ [10]
     @ lit ''Once the task's fields, mode and the filters offered here are set, submit if the form requires submission'' @ [10]
     @ lit ''to apply them.'' @ [10] @ lit ''A matching result alone does not prove a filter was set.'' @ [10]
     @ lit ''Do not toggle a checkbox, switch or radio already in the requested state.'' @ [10]
     @ lit ''Elements marked offscreen can be targeted directly; do not scroll just to reach them.'' @ [10]
     @ lit ''page.text is what the viewport shows; page.offscreen_text is the page's text outside it.'' @ [10]
     @ lit ''A read takes in the whole page, so do not scroll through a page's text to find what a read would.'' @ [10]
     @ lit ''A link's href shows where it leads; use it to tell site navigation from content links. A link marked next_page'' @ [10]
     @ lit ''is the one the page itself names as its next page.'' @ [10] @ lit ''A matching link is not an opened result.'' @ [10]
     @ lit ''A list the page shows in part is not read yet: while it offers more of a list the task covers, a next page or ''
     @ lit ''a load'' @ [10] @ lit ''more, take it, not one record's own page.'' @ [10]
     @ lit ''A wizard or multi-step form can keep one URL for every step, so browser history has no entry for the step ''
     @ lit ''before'' @ [10]
     @ lit ''this one: when the page itself offers a Back or Previous control, prefer it over the back operation to move'' @ [10]
     @ lit ''within the form.''\<close>

definition TARGET_RULES :: str where
  \<open>TARGET_RULES =
     lit ''Choose the best observed target if the next operation is the one this question names.'' @ [10]
     @ lit ''Use the task, field values, nearby text and recent actions. Another question chooses the operation.'' @ [10]
     @ lit ''Do not choose a field that already contains the requested value. Choose only an offered element.'' @ [10]
     @ lit ''Do not toggle a checkbox, switch or radio already in the requested state.'' @ [10]
     @ lit ''While the form's mode is not the one the task needs, the control that sets the mode is the target, not the'' @ [10]
     @ lit ''form's submit.'' @ [10]
     @ lit ''Elements marked offscreen can be targeted directly. A link's href shows where it leads, already_read marks ''
     @ lit ''one to a page this run'' @ [10] @ lit ''has read, and next_page marks the one the page itself names as its next page.''
     @ [10] @ lit ''Elements carry a `context`: the card, row or section each one belongs to. When the task names one, choose''
     @ [10] @ lit ''by context; a link in one record's context opens it and shows no more of the list.''\<close>

definition DESTINATION_RULES :: str where
  \<open>DESTINATION_RULES =
     lit ''Another question picks the element to drag; choose the element it should be dropped onto. Prefer the drop'' @ [10]
     @ lit ''target, drop zone, slot, list, folder, bucket or column the task names, not the element being dragged.''\<close>

definition RELEVANCE_RULES :: str where
  \<open>RELEVANCE_RULES =
     lit ''Could the task's next few actions, or reading what it needs, act on or rely on the element in each question?'' @ [10]
     @ lit ''Judge by its label, role, context and href. Site chrome, footers, ads, social links and unrelated navigation'' @ [10]
     @ lit ''are not relevant.''\<close>

definition GROUP_RULES :: str where
  \<open>GROUP_RULES =
     lit ''Too many elements to list at once. Choose the group that contains the best target if the next'' @ [10]
     @ lit ''operation is the one this question names. A later question picks the element inside the group.''\<close>

fun operation_label :: "operation \<Rightarrow> str" where
  \<open>operation_label Op_Navigate =
     lit ''Open another HTTP(S) address supplied by the caller for this task.''\<close>
| \<open>operation_label Op_Click =
     lit ''Click an element, button, link, menu option, autocomplete suggestion or calendar day.''\<close>
| \<open>operation_label Op_Hover =
     lit ''Hover over an element to reveal content the page shows only under the pointer.''\<close>
| \<open>operation_label Op_Drag =
     lit ''Drag one element and drop it onto another, to move, reorder or file it.''\<close>
| \<open>operation_label Op_Fill =
     lit ''Put the value the task needs into an editable field, typing or replacing its text.''\<close>
| \<open>operation_label Op_Blur =
     lit ''Move keyboard focus out of the focused editable field without activating or submitting anything, so the page ''
     @ lit ''runs what it does when a field is left.''\<close>
| \<open>operation_label Op_Select =
     lit ''Select a value in an observed dropdown.''\<close>
| \<open>operation_label Op_Enter =
     lit ''Press Enter in a text field to submit or search for what it already contains.''\<close>
| \<open>operation_label Op_Upload =
     lit ''Attach one of the task's files to a file input.''\<close>
| \<open>operation_label Op_Escape =
     lit ''Press Escape to close a menu, popup or overlay.''\<close>
| \<open>operation_label Op_Scroll =
     lit ''Scroll down the page to reveal content below the viewport.''\<close>
| \<open>operation_label Op_ScrollUp =
     lit ''Scroll up the page to return to content above the viewport.''\<close>
| \<open>operation_label Op_Back =
     lit ''Go back to the previous page.''\<close>
| \<open>operation_label Op_SwitchTab =
     lit ''Switch to another open tab.''\<close>
| \<open>operation_label Op_Dialog =
     lit ''Respond to the open browser dialog.''\<close>
| \<open>operation_label Op_Wait =
     lit ''Wait without acting while the page changes by itself, as a clock or a live status line does.''\<close>
| \<open>operation_label Op_Read =
     lit ''Read this page's content, the whole page including text outside the viewport, to extract information the task ''
     @ lit ''needs.''\<close>
| \<open>operation_label Op_Done =
     lit ''The task is done: what it asks is carried out. When it asks for a written answer, notes.selected_answer gives ''
     @ lit ''every requested fact and value, with no unrelated text or unresolved requirement; a value present only in ''
     @ lit ''retained_notes is not in that answer. When composition_pending or structured_output_pending is true, the ''
     @ lit ''retained sources cover every requested item and the answer or structured result will be generated and checked ''
     @ lit ''before delivery.''\<close>

definition untrusted :: "str \<Rightarrow> str" where
  "untrusted rules = UNTRUSTED @ [10] @ rules"

definition key_target :: "operation \<Rightarrow> str" where
  "key_target op = operation_str op @ lit ''_target''"

definition key_group :: "operation \<Rightarrow> str" where
  "key_group op = operation_str op @ lit ''_group''"

section \<open>A control as it is shown\<close>

definition relevance_element :: "control \<Rightarrow> (str \<times> json) list" where
  "relevance_element c =
     [(lit ''label'', JString (ctl_label c)), (lit ''role'', JString (ctl_role c)), (lit ''operations'', json_operations (ctl_operations c))]
     @ skip_none (lit ''context'') (json_text (ctl_context c)) @ skip_none (lit ''href'') (json_text (ctl_href c))
     @ (if pager_link c then [(lit ''next_page'', JBool True)] else [])
     @ (if ctl_already_read c = Some True then [(lit ''already_read'', JBool True)] else [])
     @ (if ctl_offscreen c then [(lit ''offscreen'', JBool True)] else [])"

definition element_shown :: "str \<Rightarrow> control \<Rightarrow> (str \<times> json) list" where
  "element_shown label c =
     [(lit ''id'', JString (ctl_id c)), (lit ''label'', JString label), (lit ''role'', JString (ctl_role c)),
      (lit ''operations'', json_operations (ctl_operations c))]
     @ skip_none (lit ''context'') (json_text (ctl_context c)) @ skip_none (lit ''value'') (json_text (ctl_value c))
     @ skip_none (lit ''focused'') (json_flag (ctl_focused c)) @ skip_none (lit ''href'') (json_text (ctl_href c))
     @ (if pager_link c then [(lit ''next_page'', JBool True)] else [])
     @ (if ctl_already_read c = Some True then [(lit ''already_read'', JBool True)] else [])
     @ skip_none (lit ''checked'') (json_flag (ctl_checked c)) @ skip_none (lit ''selected'') (json_flag (ctl_selected c))
     @ skip_none (lit ''expanded'') (json_flag (ctl_expanded c)) @ skip_none (lit ''input_type'') (json_text (ctl_input_type c))
     @ skip_none (lit ''input_name'') (json_text (ctl_input_name c)) @ skip_none (lit ''autocomplete'') (json_text (ctl_autocomplete c))
     @ skip_none (lit ''validation_message'') (json_text (ctl_validation_message c))
     @ (if ctl_options c = [] then [] else [(lit ''options'', JArray (map JString (ctl_options c)))])
     @ (if ctl_offscreen c then [(lit ''offscreen'', JBool True)] else [])
     @ (if ctl_required c = Some True then [(lit ''required'', JBool True)] else [])
     @ (if ctl_invalid c = Some True then [(lit ''invalid'', JBool True)] else [])"

definition element :: "control \<Rightarrow> (str \<times> json) list" where
  "element c = element_shown (ctl_label c) c"

definition target_element :: "control \<Rightarrow> operation \<Rightarrow> (str \<times> json) list" where
  "target_element c op =
     element_shown
       (if Op_Fill \<in> ctl_operations c \<and> op = Op_Click then lit ''Open '' @ ctl_label c
        else if Op_Fill \<in> ctl_operations c \<and> op = Op_Enter then lit ''Press Enter in '' @ ctl_label c
        else ctl_label c) c"

section \<open>Questions\<close>

definition choice_of :: "str \<Rightarrow> (str \<times> json) list \<Rightarrow> question" where
  "choice_of instructions criteria = Q_Choice \<lparr>cq_instructions = instructions, cq_criteria = im_collect criteria\<rparr>"

definition numbered_by :: "('a \<Rightarrow> json) \<Rightarrow> 'a list \<Rightarrow> (str \<times> json) list" where
  "numbered_by f xs = map (\<lambda>(i, x). (dec i, f x)) (zip [0..<length xs] xs)"

definition group_question :: "operation \<Rightarrow> control list list \<Rightarrow> str \<Rightarrow> question" where
  "group_question op groups rules =
     choice_of (dumps (JObject [(lit ''rules'', JArray [JString rules, JString GROUP_RULES]), (lit ''operation'', JString (operation_str op))]))
       (numbered_by (\<lambda>g. JString (join (lit '' | '') (map ctl_label g))) groups)"

definition destination_question :: "control list \<Rightarrow> question" where
  "destination_question candidates =
     choice_of (dumps (JObject [(lit ''rules'', JString (untrusted DESTINATION_RULES)), (lit ''operation'', JString (operation_str Op_Drag))]))
       (map (\<lambda>c. (ctl_id c, JObject (relevance_element c))) candidates)"

definition target_question :: "operation \<Rightarrow> control list \<Rightarrow> str \<Rightarrow> question" where
  "target_question op candidates rules =
     choice_of (dumps (JObject [(lit ''rules'', JString rules), (lit ''operation'', JString (operation_str op))]))
       (map (\<lambda>c. (ctl_id c, JObject (target_element c op))) candidates)"

definition step_noul :: "str \<Rightarrow> str \<Rightarrow> str \<Rightarrow> question" where
  "step_noul instructions yes no = Q_Noul (noul_new (untrusted instructions) (Some yes) (Some no))"

definition login_question :: question where
  \<open>login_question =
     step_noul
        (lit ''Does a sign-in or verification wall block the task in state, with no credentials given in the task to pass ''
         @ lit ''it? Unrelated sign-in links and login-to-post boxes do not block reading public or empty lists. A prompt to ''
         @ lit ''sign in before replying, commenting or posting gates only writing: when page.text shows what the task asks to ''
         @ lit ''find, the page is readable and the prompt does not block it. If the task asks to inspect access restrictions, ''
         @ lit ''observing the wall advances that task without signing in. A page that refuses access outright and offers no ''
         @ lit ''way to sign in is not a sign-in wall. A restricted route does not make the whole task require sign-in when an ''
         @ lit ''observed alternative can advance it. Use the observed navigation context and available operations to judge ''
         @ lit ''whether the task can continue elsewhere. Going back is useful only when that earlier page offers another way ''
         @ lit ''to advance the task. A task that requires this account or authenticated destination still requires sign-in.'')
        (lit ''A sign-in or account verification wall blocks the task and the task gives no way through it.'')
        (lit ''The task can progress without signing in, or the task supplies the credentials to sign in.'')\<close>

definition answer_question :: question where
  \<open>answer_question =
     step_noul
        (lit ''Does this page show a fact the task needs, to report or to finish its work, which the notes do not hold yet? ''
         @ lit ''A part of a larger answer counts: records of a list the task covers, even when the notes hold others like ''
         @ lit ''them.'')
        (lit ''The page states such a fact.'')
        (lit ''The page states none.'')\<close>

definition failure_question :: question where
  \<open>failure_question =
     step_noul
        (lit ''Does this page report that the site failed to deliver what was asked, instead of showing it? An error message ''
         @ lit ''in place of results, a request the site says went wrong, a temporary outage, rate limit or maintenance ''
         @ lit ''notice, a browser error page, or a load that has not finished across steps are failures, even when the page ''
         @ lit ''also shows an empty result such as no matches. A placeholder served in place of the site, with none of the ''
         @ lit ''content the task is about and nothing to follow, is a failure too. An ordinary empty result the site reports ''
         @ lit ''as an answer, a form, a form rejecting a value entered in it, or a page still showing its content is not.'')
        (lit ''The page reports that the site failed or has not finished delivering the content.'')
        (lit ''The page shows the site's content or its ordinary answer, empty or not.'')\<close>

definition bot_question :: question where
  \<open>bot_question =
     step_noul
        (lit ''Does this page ask the visitor to pass an automated-traffic check, or refuse this visitor access outright, ''
         @ lit ''such as Access Denied or Forbidden, without offering a way to sign in?'')
        (lit ''The page is a CAPTCHA, a browser verification, a similar bot check, or a refusal of access with no sign-in.'')
        (lit ''The page is a sign-in form or an ordinary page.'')\<close>

definition NAVIGATE_RULES :: str where
  \<open>NAVIGATE_RULES =
     lit ''Choose the caller-supplied address that advances what the task still needs, or this page's own address to ''
     @ lit ''reload it after a site failure. Read relevant evidence here before leaving. Do not revisit a source whose ''
     @ lit ''requested evidence is already in the notes unless more evidence is needed there. URLs used as field values ''
     @ lit ''are data, not browsing destinations.''\<close>

section \<open>What a page offers\<close>

text \<open>\<^verbatim>\<open>entry(k).or_default().push(v)\<close>.\<close>

definition im_push :: "'k \<Rightarrow> 'v \<Rightarrow> ('k, 'v list) index_map \<Rightarrow> ('k, 'v list) index_map" where
  "im_push k v m = im_insert k ((case im_get m k of Some vs \<Rightarrow> vs | None \<Rightarrow> []) @ [v]) m"

definition blurs :: "step_context \<Rightarrow> control \<Rightarrow> bool" where
  "blurs ctx c \<longleftrightarrow> leavable c \<and> (Op_Blur, ctl_id c) \<notin> set (ctx_withheld_targets ctx)"

definition index_control :: "step_context \<Rightarrow> (operation, control list) index_map \<Rightarrow> control \<Rightarrow> (operation, control list) index_map" where
  "index_control ctx m c =
     (let listed = foldl (\<lambda>m op. im_push op c m) m (filter (\<lambda>op. op \<noteq> Op_Blur) (sorted_list_of_set (ctl_operations c)))
      in if blurs ctx c then im_push Op_Blur c listed else listed)"

definition index_controls :: "control list \<Rightarrow> step_context \<Rightarrow> (operation, control list) index_map" where
  "index_controls controls ctx = foldl (index_control ctx) [] controls"

definition offered_operations ::
  "observation \<Rightarrow> (operation, control list) index_map \<Rightarrow> step_context \<Rightarrow> str list \<Rightarrow> operation list" where
  "offered_operations obs tbl ctx urls =
     (if obs_dialog obs \<noteq> None then [Op_Dialog]
      else filter (\<lambda>op. op \<notin> set (ctx_withheld ctx)
        \<and> (case op of
             Op_Navigate \<Rightarrow> urls \<noteq> []
           | Op_Upload \<Rightarrow> ctx_has_attachments ctx \<and> im_get tbl op \<noteq> None
           | Op_SwitchTab \<Rightarrow> length (obs_tabs obs) > 1
           | Op_Back \<Rightarrow> obs_can_go_back obs
           | Op_Dialog \<Rightarrow> False
           | _ \<Rightarrow> if is_targeted op then im_get tbl op \<noteq> None else True)) operation_ALL)"

function chunks_of :: "nat \<Rightarrow> 'a list \<Rightarrow> 'a list list" where
  "chunks_of n xs = (if xs = [] then [] else take (max n 1) xs # chunks_of n (drop (max n 1) xs))"
  by pat_completeness auto

termination chunks_of
  by (relation "measure (length \<circ> snd)") auto

declare chunks_of.simps [simp del]

section \<open>The state\<close>

definition without_nulls :: "json \<Rightarrow> json" where
  "without_nulls v = (case v of JObject m \<Rightarrow> JObject (filter (\<lambda>kv. snd kv \<noteq> JNull) m) | _ \<Rightarrow> v)"

definition step_state :: "agent_env \<Rightarrow> observation \<Rightarrow> control list \<Rightarrow> step_context \<Rightarrow> json" where
  "step_state E obs controls ctx =
     (let page = [(lit ''url'', JString (obs_url obs)), (lit ''title'', JString (obs_title obs)), (lit ''text'', JString (obs_viewport_text obs)),
                  (lit ''offscreen_text'', JString (obs_offscreen_text obs)),
                  (lit ''response_status'', (case obs_response_status obs of Some n \<Rightarrow> JInt n | None \<Rightarrow> JNull))]
                 @ (if obs_media obs = [] then [] else [(lit ''media'', JArray (map (media_dump (env_num E)) (obs_media obs)))]);
          background = (case ctx_background ctx of Some b \<Rightarrow> strip b | None \<Rightarrow> []);
          omitted = length (obs_controls obs) - length controls
      in JObject
        ([(lit ''task'', JString (ctx_task ctx)), (lit ''date'', JString (the (today (obs_captured_at obs)))),
          (lit ''subgoal'', json_text (ctx_subgoal ctx)), (lit ''page'', JObject page),
          (lit ''answered_in_notes'', JBool (ctx_answered_in_notes ctx)), (lit ''notes'', JString (ctx_notes ctx)),
          (lit ''recent_actions'', JArray (map history_dump (ctx_history ctx)))]
         @ (if ctx_omitted_actions ctx > 0 then [(lit ''omitted_actions'', JInt (int (ctx_omitted_actions ctx)))] else [])
         @ [(lit ''elements'', JArray (map (\<lambda>c. JObject (element c)) controls))]
         @ (if background = [] then [] else [(lit ''background'', JString background)])
         @ skip_none (lit ''problem'') (json_text (ctx_problem ctx))
         @ (if ctx_no_value_fields ctx = [] then [] else [(lit ''fields_the_task_gives_no_value'', JArray (map JString (ctx_no_value_fields ctx)))])
         @ (if ctx_page_facts ctx = [] then [] else [(lit ''page_facts'', JArray (map JString (ctx_page_facts ctx)))])
         @ (if ctx_secrets ctx = [] then [] else [(lit ''stored_secrets'', JArray (map JString (ctx_secrets ctx)))])
         @ (if omitted > 0 then [(lit ''omitted_elements'', JInt (int omitted))] else [])
         @ (case obs_dialog obs of Some d \<Rightarrow> [(lit ''dialog'', without_nulls (dialog_dump d))] | None \<Rightarrow> [])
         @ (if length (obs_tabs obs) > 1 then [(lit ''tabs'', JArray (map (without_nulls \<circ> tab_dump) (obs_tabs obs)))] else [])
         @ (case ctx_screenshot ctx of Some png \<Rightarrow> [(lit ''viewport_screenshot'', JString (screenshot_reference (env_sha E) (map unat png)))] | None \<Rightarrow> [])))"

section \<open>The request\<close>

record step_request =
  sr_state :: json
  sr_images :: "(str, 8 word list) index_map"
  sr_questions :: questions
  sr_targets :: "(operation, control list) index_map"
  sr_groups :: "(operation, control list list) index_map"
  sr_destinations :: "control list"
  sr_destination_groups :: "control list list"
  sr_navigation_groups :: "str list list"
  sr_target_rules :: str

definition step_urls :: "agent_env \<Rightarrow> observation \<Rightarrow> step_context \<Rightarrow> str list" where
  "step_urls E obs ctx =
     (let urls = navigation_urls (env_unicode E) (env_urls E) (ctx_task ctx) (obs_url obs) (ctx_start_url ctx) (ctx_start_landing_url ctx)
                   (obs_controls obs = [] \<or> ctx_problem ctx \<noteq> None)
      in case ctx_reload ctx of
           Some url \<Rightarrow> if url \<in> set urls then urls else urls @ [url]
         | None \<Rightarrow> urls)"

definition group_limit :: "config \<Rightarrow> nat \<Rightarrow> nat" where
  "group_limit cfg limit = min (nat (group_size (cfg_observation cfg))) limit"

definition candidates_of :: "(operation, control list) index_map \<Rightarrow> operation \<Rightarrow> control list" where
  "candidates_of tbl op = (case im_get tbl op of Some cs \<Rightarrow> cs | None \<Rightarrow> [])"

text \<open>The question that picks a target, or the group that holds it.\<close>

definition add_target ::
  "nat \<Rightarrow> nat \<Rightarrow> (operation, control list) index_map
     \<Rightarrow> questions \<times> (operation, control list) index_map \<times> (operation, control list list) index_map \<Rightarrow> operation
     \<Rightarrow> questions \<times> (operation, control list) index_map \<times> (operation, control list list) index_map" where
  "add_target limit n tbl acc op =
     (case acc of (qs, targets, groups) \<Rightarrow>
        let candidates = candidates_of tbl op; rules = untrusted TARGET_RULES
        in if length candidates \<le> limit
           then (im_insert (key_target op) (target_question op candidates rules) qs, im_insert op candidates targets, groups)
           else (im_insert (key_group op) (group_question op (chunks_of n candidates) rules) qs, targets,
                 im_insert op (chunks_of n candidates) groups))"

definition drag_questions :: "nat \<Rightarrow> nat \<Rightarrow> control list \<Rightarrow> questions" where
  "drag_questions limit n drops =
     (if length drops \<le> limit then [(lit ''drag_destination'', destination_question drops)]
      else [(lit ''drag_destination_group'', group_question Op_Drag (chunks_of n drops) (untrusted DESTINATION_RULES))])"

definition tab_question :: "observation \<Rightarrow> question" where
  "tab_question obs =
     choice_of (dumps (JObject [(lit ''rules'', JString (untrusted TARGET_RULES)), (lit ''operation'', JString (operation_str Op_SwitchTab))]))
       (map (\<lambda>t. (tab_id t, JObject [(lit ''title'', JString (tab_title t)), (lit ''url'', JString (tab_url t)), (lit ''active'', JBool (tab_active t))]))
          (obs_tabs obs))"

definition navigate_questions :: "nat \<Rightarrow> nat \<Rightarrow> str list \<Rightarrow> questions" where
  "navigate_questions limit n urls =
     (if length urls > limit
      then [(lit ''navigate_group'', choice_of (untrusted NAVIGATE_RULES) (numbered_by (\<lambda>g. JString (join (lit '' | '') g)) (chunks_of n urls)))]
      else [(lit ''navigate_target'', choice_of (untrusted NAVIGATE_RULES) (numbered_by JString urls))])"

definition byte_len :: "str \<Rightarrow> nat" where
  "byte_len s = length (utf8 s)"

definition LONG_CONTEXT_BYTES :: nat where
  "LONG_CONTEXT_BYTES = 32000"

text \<open>The follow-up questions there is room for, the smallest first.\<close>

fun add_ahead :: "(nat \<times> ahead_question) list \<Rightarrow> nat \<Rightarrow> questions \<Rightarrow> questions" where
  "add_ahead [] room qs = qs"
| "add_ahead ((len, a) # rest) room qs =
     (if len > room then qs else add_ahead rest (room - len) (im_insert (ahead_key a) (ahead_asked a) qs))"

definition ahead_offered :: "operation list \<Rightarrow> control list \<Rightarrow> step_context \<Rightarrow> (nat \<times> ahead_question) list" where
  "ahead_offered offered controls ctx =
     sort_key fst (map (\<lambda>a. (byte_len (ahead_key a) + byte_len (dump_json (question_dump (ahead_asked a))), a))
       (filter (\<lambda>a. ahead_operation a \<in> set offered \<and> list_ex (\<lambda>c. ctl_id c = ahead_control a) controls) (ctx_ahead ctx)))"

definition extra_questions :: "agent_env \<Rightarrow> nat \<Rightarrow> nat \<Rightarrow> observation \<Rightarrow> control list \<Rightarrow> step_context \<Rightarrow> str list \<Rightarrow> operation list \<Rightarrow> questions" where
  "extra_questions E limit n obs controls ctx urls offered =
     (if Op_Drag \<in> set offered then drag_questions limit n (filter (\<lambda>c. ctl_label c \<noteq> []) controls) else [])
     @ (if Op_SwitchTab \<in> set offered then [(lit ''switch_tab_target'', tab_question obs)] else [])
     @ (if Op_Navigate \<in> set offered then navigate_questions limit n urls else [])
     @ (if ctx_check_login ctx then [(lit ''login_required'', login_question)] else [])
     @ (if ctx_check_answer ctx then [(lit ''shows_answer'', answer_question)] else [])
     @ [(lit ''site_failure'', failure_question)]
     @ (if ctx_check_bot ctx then [(lit ''bot_check'', bot_question)] else [])"

definition build_request :: "agent_env \<Rightarrow> observation \<Rightarrow> control list \<Rightarrow> step_context \<Rightarrow> nat \<Rightarrow> step_request" where
  "build_request E obs controls ctx limit =
     (let tbl = index_controls controls ctx;
          urls = step_urls E obs ctx;
          offered = offered_operations obs tbl ctx urls;
          n = group_limit (env_config E) limit;
          operation = (lit ''operation'', choice_of (untrusted NEXT_ACTION_RULES)
                         (map (\<lambda>op. (operation_str op, JString (operation_label op))) offered));
          (qs1, targets, groups) = foldl (add_target limit n tbl) ([operation], [], []) (filter is_targeted offered);
          qs2 = im_extend qs1 (extra_questions E limit n obs controls ctx urls offered);
          drops = filter (\<lambda>c. ctl_label c \<noteq> []) controls;
          st = step_state E obs controls ctx;
          written = (\<Sum>(key, q)\<leftarrow>qs2. byte_len key + byte_len (dump_json (question_dump q)));
          qs3 = (if ctx_screenshot ctx = None
                 then add_ahead (ahead_offered offered controls ctx) (LONG_CONTEXT_BYTES - (byte_len (dumps st) + written)) qs2
                 else qs2)
      in \<lparr>sr_state = st,
          sr_images = (case ctx_screenshot ctx of Some png \<Rightarrow> [(screenshot_reference (env_sha E) (map unat png), png)] | None \<Rightarrow> []),
          sr_questions = qs3, sr_targets = targets, sr_groups = groups, sr_destinations = drops,
          sr_destination_groups = (if Op_Drag \<in> set offered \<and> length drops > limit then chunks_of n drops else []),
          sr_navigation_groups = (if Op_Navigate \<in> set offered \<and> length urls > limit then chunks_of n urls else []),
          sr_target_rules = untrusted TARGET_RULES\<rparr>)"

definition questions_written :: "questions \<Rightarrow> str list" where
  "questions_written qs = map (dump_json \<circ> question_dump \<circ> snd) qs"

definition request_fits :: "step_request \<Rightarrow> config \<Rightarrow> bool" where
  "request_fits r cfg \<longleftrightarrow> int (text_len (dumps (sr_state r))) \<le> input_chars (tokens cfg) (questions_written (sr_questions r))"

section \<open>Reading the answers\<close>

definition answered_choice :: "evaluation \<Rightarrow> str \<Rightarrow> agent_error + choice_answer" where
  "answered_choice ev key =
     (case im_get (eval_answers ev) key of
        Some (A_Choice a) \<Rightarrow> Inr a
      | _ \<Rightarrow> Inl (Agent_Invalid (lit ''Jev returned no choice for '' @ repr key)))"

definition find_control :: "control list \<Rightarrow> str \<Rightarrow> agent_error + control" where
  "find_control candidates i =
     ok_or (Agent_Invalid (lit ''Jev chose '' @ repr i @ lit '', which was not offered'')) (find (\<lambda>c. ctl_id c = i) candidates)"

definition group_index :: "str \<Rightarrow> nat \<Rightarrow> agent_error + nat" where
  "group_index choice n =
     (case int_of (JString choice) of
        Inl _ \<Rightarrow> Inl (Agent_Invalid (lit ''invalid literal for int() with base 10: '' @ repr choice))
      | Inr i0 \<Rightarrow>
          (let i = (if i0 < 0 then i0 + int n else i0)
           in if 0 \<le> i \<and> i < int n then Inr (nat i) else Inl (Agent_Invalid (lit ''list index out of range''))))"

text \<open>\<^verbatim>\<open>max_by\<close>: the last of the greatest.\<close>

fun max_by :: "('a \<Rightarrow> real) \<Rightarrow> 'a list \<Rightarrow> 'a option" where
  "max_by f [] = None"
| "max_by f (x # xs) = (case max_by f xs of None \<Rightarrow> Some x | Some y \<Rightarrow> if f y \<ge> f x then Some y else Some x)"

definition pick_chance :: "choice_answer \<Rightarrow> control \<Rightarrow> real" where
  "pick_chance a c = (case im_get (ca_probabilities a) (ctl_id c) of Some p \<Rightarrow> p | None \<Rightarrow> 0)"

definition pick_votes :: "control list \<Rightarrow> choice_answer \<Rightarrow> control \<Rightarrow> real" where
  "pick_votes candidates a c =
     (if ctl_href c = None then pick_chance a c
      else sum_list (map (pick_chance a) (filter (\<lambda>d. ctl_href d = ctl_href c) candidates)))"

definition destination_pick :: "control list \<Rightarrow> choice_answer \<Rightarrow> str" where
  "destination_pick candidates a =
     (let votes = pick_votes candidates a;
          chosen = (case find (\<lambda>c. ctl_id c = ca_choice a) candidates of Some c \<Rightarrow> votes c | None \<Rightarrow> 0)
      in case max_by votes candidates of
           Some best \<Rightarrow> if votes best > chosen then ctl_id best else ca_choice a
         | None \<Rightarrow> ca_choice a)"

definition of_agent :: "agent_error + 'a \<Rightarrow> 'a step" where
  "of_agent r = step_of_result Flow_Agent r"

definition policy_ask :: "agent_env \<Rightarrow> step_request \<Rightarrow> questions \<Rightarrow> evaluation step" where
  "policy_ask E r qs = ask_jev E (Jev_Action, sr_state r, qs)"

type_synonym picked = "control option \<times> str option \<times> str option \<times> real option \<times> evaluation list"

definition chosen_address :: "choice_question \<Rightarrow> choice_answer \<Rightarrow> real \<Rightarrow> evaluation list \<Rightarrow> picked step" where
  "chosen_address q a group_confidence inners =
     (case im_get (cq_criteria q) (ca_choice a) of
        None \<Rightarrow> step_fail (Flow_Agent (Agent_Invalid (repr (ca_choice a))))
      | Some (JString url) \<Rightarrow> step_ok (None, None, Some url, Some (group_confidence * ca_confidence a), inners)
      | Some _ \<Rightarrow> step_fail (Flow_Agent (Agent_Invalid (lit ''navigation requires an address''))))"

definition address_question :: "str list \<Rightarrow> choice_question" where
  "address_question urls =
     \<lparr>cq_instructions = untrusted (lit ''Choose the caller-supplied address for what the task still needs.''),
      cq_criteria = im_collect (numbered_by JString urls)\<rparr>"

definition pick_address :: "agent_env \<Rightarrow> step_request \<Rightarrow> evaluation \<Rightarrow> picked step" where
  "pick_address E r ev =
     (if sr_navigation_groups r = []
      then (case im_get (sr_questions r) (lit ''navigate_target'') of
              Some (Q_Choice q) \<Rightarrow> step_bind (of_agent (answered_choice ev (lit ''navigate_target''))) (\<lambda>a. chosen_address q a 1 [])
            | _ \<Rightarrow> step_fail (Flow_Agent (Agent_Invalid (lit ''navigation requires caller-supplied choices''))))
      else
        step_bind (of_agent (answered_choice ev (lit ''navigate_group''))) (\<lambda>g.
        step_bind (of_agent (group_index (ca_choice g) (length (sr_navigation_groups r)))) (\<lambda>i.
        let q = address_question (sr_navigation_groups r ! i) in
        step_bind (policy_ask E r [(lit ''navigate_target'', Q_Choice q)]) (\<lambda>inner.
        step_bind (of_agent (answered_choice inner (lit ''navigate_target''))) (\<lambda>a.
          chosen_address q a (ca_confidence g) [inner])))))"

definition pick_target :: "agent_env \<Rightarrow> step_request \<Rightarrow> evaluation \<Rightarrow> operation \<Rightarrow> picked step" where
  "pick_target E r ev op =
     (case im_get (sr_targets r) op of
        Some candidates \<Rightarrow>
          step_bind (of_agent (answered_choice ev (key_target op))) (\<lambda>a.
          step_bind (of_agent (find_control candidates (destination_pick candidates a))) (\<lambda>c.
            step_ok (Some c, None, None, Some (ca_confidence a), [])))
      | None \<Rightarrow>
          (case im_get (sr_groups r) op of
             Some groups \<Rightarrow>
               step_bind (of_agent (answered_choice ev (key_group op))) (\<lambda>g.
               step_bind (of_agent (group_index (ca_choice g) (length groups))) (\<lambda>i.
               step_bind (policy_ask E r [(key_target op, target_question op (groups ! i) (sr_target_rules r))]) (\<lambda>inner.
               step_bind (of_agent (answered_choice inner (key_target op))) (\<lambda>a.
               step_bind (of_agent (find_control (groups ! i) (ca_choice a))) (\<lambda>c.
                 step_ok (Some c, None, None, Some (ca_confidence g * ca_confidence a), [inner]))))))
           | None \<Rightarrow>
               if op = Op_SwitchTab
               then step_bind (of_agent (answered_choice ev (lit ''switch_tab_target''))) (\<lambda>a.
                      step_ok (None, Some (ca_choice a), None, Some (ca_confidence a), []))
               else if op = Op_Navigate then pick_address E r ev
               else step_ok (None, None, None, None, [])))"

definition pick_destination :: "agent_env \<Rightarrow> step_request \<Rightarrow> evaluation \<Rightarrow> (control \<times> real \<times> evaluation list) step" where
  "pick_destination E r ev =
     (if sr_destination_groups r = []
      then step_bind (of_agent (answered_choice ev (lit ''drag_destination''))) (\<lambda>a.
           step_bind (of_agent (find_control (sr_destinations r) (ca_choice a))) (\<lambda>c. step_ok (c, ca_confidence a, [])))
      else
        step_bind (of_agent (answered_choice ev (lit ''drag_destination_group''))) (\<lambda>g.
        step_bind (of_agent (group_index (ca_choice g) (length (sr_destination_groups r)))) (\<lambda>i.
        step_bind (policy_ask E r [(lit ''drag_destination'', destination_question (sr_destination_groups r ! i))]) (\<lambda>inner.
        step_bind (of_agent (answered_choice inner (lit ''drag_destination''))) (\<lambda>a.
        step_bind (of_agent (find_control (sr_destination_groups r ! i) (ca_choice a))) (\<lambda>c.
          step_ok (c, ca_confidence g * ca_confidence a, [inner])))))))"

definition answered_ahead :: "step_request \<Rightarrow> evaluation \<Rightarrow> operation \<Rightarrow> control option \<Rightarrow> (str, answer) index_map" where
  "answered_ahead r ev op target =
     (case target of
        None \<Rightarrow> []
      | Some c \<Rightarrow>
          (let p = operation_str op @ lit '':'' @ ctl_id c @ lit '':''
           in im_collect (List.map_filter
                (\<lambda>key. if prefix p key then map_option (\<lambda>a. (drop (length p) key, a)) (im_get (eval_answers ev) key) else None)
                (im_keys (sr_questions r)))))"

definition asked_operation :: "choice_answer \<Rightarrow> agent_error + operation" where
  "asked_operation a =
     ok_or (Agent_Invalid (repr (ca_choice a) @ lit '' is not a valid Operation'')) (enum_parse operation_ALL operation_str (ca_choice a))"

text \<open>The decision the answers make: the operation, what it acts on, and the drop target of a drag.\<close>

definition read_decision ::
  "step_request \<Rightarrow> control list \<Rightarrow> reduction \<Rightarrow> evaluation \<Rightarrow> choice_answer \<Rightarrow> operation \<Rightarrow> picked
     \<Rightarrow> (control \<times> real \<times> evaluation list) option \<Rightarrow> decision" where
  "read_decision r controls reduced ev oa op picks dropped =
     (case picks of (target, tab, url, conf, inners) \<Rightarrow>
       let evs = ev # inners @ (case dropped of Some (_, _, inner) \<Rightarrow> inner | None \<Rightarrow> [])
       in \<lparr>dec_operation = op, dec_url = url, dec_target = target, dec_tab_id = tab, dec_operation_confidence = ca_confidence oa,
          dec_target_confidence =
            (case dropped of
               Some (_, dc, _) \<Rightarrow> Some (case conf of Some t \<Rightarrow> min t dc | None \<Rightarrow> dc)
             | None \<Rightarrow> conf),
          dec_login_required = noul_of ev (lit ''login_required''), dec_offered_controls = int (length controls),
          dec_reduction = reduced, dec_cost = map eval_cost evs, dec_input_tokens = (\<Sum>e\<leftarrow>evs. eval_input_tokens e),
          dec_bot_check = noul_of ev (lit ''bot_check''), dec_shows_answer = noul_of ev (lit ''shows_answer''),
          dec_site_failure = noul_of ev (lit ''site_failure''), dec_destination = map_option fst dropped,
          dec_replayed = False, dec_by_code = False, dec_offered = [], dec_ahead = answered_ahead r ev op target\<rparr>)"

definition evaluate_step :: "agent_env \<Rightarrow> step_request \<Rightarrow> control list \<Rightarrow> reduction \<Rightarrow> decision step" where
  "evaluate_step E r controls reduced =
     step_bind (policy_ask E r (sr_questions r)) (\<lambda>ev.
     step_bind (of_agent (answered_choice ev (lit ''operation''))) (\<lambda>oa.
     step_bind (of_agent (asked_operation oa)) (\<lambda>op.
     step_bind (pick_target E r ev op) (\<lambda>picks.
     step_bind (if op = Op_Drag then step_bind (pick_destination E r ev) (\<lambda>x. step_ok (Some x)) else step_ok None) (\<lambda>dropped.
       step_ok (read_decision r controls reduced ev oa op picks dropped))))))"

section \<open>Facts about what is offered\<close>

definition acts_on :: "step_context \<Rightarrow> operation \<Rightarrow> control \<Rightarrow> bool" where
  "acts_on ctx op c \<longleftrightarrow> (if op = Op_Blur then blurs ctx c else op \<in> ctl_operations c)"

lemma candidates_push [simp]:
  "candidates_of (im_push k v m) op = (if op = k then candidates_of m op @ [v] else candidates_of m op)"
  by (simp add: candidates_of_def im_push_def im_insert_get)

lemma candidates_pushes:
  "distinct ops \<Longrightarrow> candidates_of (foldl (\<lambda>m op. im_push op c m) m ops) op = candidates_of m op @ (if op \<in> set ops then [c] else [])"
  by (induction ops arbitrary: m) auto

lemma finite_operations [simp]: "finite (ops :: operation set)"
  by (rule finite_subset [of _ "set operation_ALL"]) (use operation_enum.complete in auto)

lemma candidates_index_control: "candidates_of (index_control ctx m c) op = candidates_of m op @ (if acts_on ctx op c then [c] else [])"
  by (simp add: index_control_def Let_def candidates_pushes acts_on_def)

lemma candidates_index: "candidates_of (index_controls controls ctx) op = filter (acts_on ctx op) controls"
proof -
  have "candidates_of (foldl (index_control ctx) m controls) op = candidates_of m op @ filter (acts_on ctx op) controls" for m
    by (induction controls arbitrary: m) (simp_all add: candidates_index_control)
  from this [of "[]"] show ?thesis by (simp add: index_controls_def candidates_of_def)
qed

lemma concat_chunks: "concat (chunks_of n xs) = xs"
  by (induction n xs rule: chunks_of.induct) (subst chunks_of.simps, simp)

text \<open>What the questions of a request are, by their keys.\<close>

definition plain_key :: "str \<Rightarrow> bool" where
  "plain_key key \<longleftrightarrow> 58 \<notin> set key"

lemma ahead_key_colon: "\<not> plain_key (ahead_key a)"
  by (simp add: plain_key_def ahead_key_def lit_def)

lemma add_ahead_plain: "(k, q) \<in> set (add_ahead as room qs) \<Longrightarrow> plain_key k \<Longrightarrow> (k, q) \<in> set qs"
proof (induction as room qs rule: add_ahead.induct)
  case (2 len a rest room qs)
  have "set (im_insert k v m) \<subseteq> insert (k, v) (set m)" for k :: str and v :: question and m
    by (induction k v m rule: im_insert.induct) auto
  then show ?case using 2 ahead_key_colon by (fastforce split: if_splits)
qed simp

lemma add_targets:
  assumes "foldl (add_target limit n tbl) (qs, ts, gs) ops = (qs', ts', gs')"
  shows "im_get ts' op = (if op \<in> set ops \<and> length (candidates_of tbl op) \<le> limit then Some (candidates_of tbl op) else im_get ts op)"
    and "im_get gs' op =
      (if op \<in> set ops \<and> \<not> length (candidates_of tbl op) \<le> limit then Some (chunks_of n (candidates_of tbl op)) else im_get gs op)"
    and "(k, q) \<in> set qs' \<Longrightarrow> (k, q) \<in> set qs \<or> k \<in> key_target ` set ops \<or> k \<in> key_group ` set ops"
proof -
  have ins: "set (im_insert k v m) \<subseteq> insert (k, v) (set m)" for k :: str and v :: question and m
    by (induction k v m rule: im_insert.induct) auto
  show "im_get ts' op = (if op \<in> set ops \<and> length (candidates_of tbl op) \<le> limit then Some (candidates_of tbl op) else im_get ts op)"
    using assms by (induction ops arbitrary: qs ts gs) (auto simp: add_target_def Let_def im_insert_get split: if_splits)
  show "im_get gs' op =
      (if op \<in> set ops \<and> \<not> length (candidates_of tbl op) \<le> limit then Some (chunks_of n (candidates_of tbl op)) else im_get gs op)"
    using assms by (induction ops arbitrary: qs ts gs) (auto simp: add_target_def Let_def im_insert_get split: if_splits)
  show "(k, q) \<in> set qs' \<Longrightarrow> (k, q) \<in> set qs \<or> k \<in> key_target ` set ops \<or> k \<in> key_group ` set ops"
    using assms
  proof (induction ops arbitrary: qs ts gs)
    case (Cons op ops)
    obtain qs1 ts1 gs1 where step: "add_target limit n tbl (qs, ts, gs) op = (qs1, ts1, gs1)" by (metis prod_cases3)
    have "(k, q) \<in> set qs1 \<or> k \<in> key_target ` set ops \<or> k \<in> key_group ` set ops"
      using Cons.IH [of qs1 ts1 gs1] Cons.prems step by simp
    moreover have "(k, q) \<in> set qs1 \<Longrightarrow> (k, q) \<in> set qs \<or> k = key_target op \<or> k = key_group op"
      using step ins by (fastforce simp: add_target_def Let_def split: if_splits)
    ultimately show ?case by auto
  qed simp
qed

text \<open>The keys of the questions that are asked once are their own.\<close>

definition lone_keys :: "str list" where
  "lone_keys = [lit ''operation'', lit ''drag_destination'', lit ''drag_destination_group'', lit ''switch_tab_target'', lit ''navigate_target'',
     lit ''navigate_group'', lit ''login_required'', lit ''shows_answer'', lit ''site_failure'', lit ''bot_check'']"

lemma lone_keys_facts:
  "list_all plain_key lone_keys" "distinct lone_keys" "set lone_keys \<inter> (key_target ` set TARGETED \<union> key_group ` set TARGETED) = {}"
proof -
  show "list_all plain_key lone_keys" "distinct lone_keys" by code_simp+
  have "list_all (\<lambda>op. key_target op \<notin> set lone_keys \<and> key_group op \<notin> set lone_keys) TARGETED" by code_simp
  then show "set lone_keys \<inter> (key_target ` set TARGETED \<union> key_group ` set TARGETED) = {}" by (auto simp: list_all_iff)
qed

definition operation_question :: "operation list \<Rightarrow> question" where
  "operation_question offered =
     choice_of (untrusted NEXT_ACTION_RULES) (map (\<lambda>op. (operation_str op, JString (operation_label op))) offered)"

lemma lone_question:
  assumes "(k, q) \<in> set (sr_questions (build_request E obs controls ctx limit))" and "k \<in> set lone_keys"
  shows "(k, q) = (lit ''operation'', operation_question (offered_operations obs (index_controls controls ctx) ctx (step_urls E obs ctx)))
    \<or> (k, q) \<in> set (extra_questions E limit (group_limit (env_config E) limit) obs controls ctx (step_urls E obs ctx)
                     (offered_operations obs (index_controls controls ctx) ctx (step_urls E obs ctx)))"
proof -
  define offered where "offered = offered_operations obs (index_controls controls ctx) ctx (step_urls E obs ctx)"
  define n where "n = group_limit (env_config E) limit"
  define extra where "extra = extra_questions E limit n obs controls ctx (step_urls E obs ctx) offered"
  obtain qs1 ts gs where fold: "foldl (add_target limit n (index_controls controls ctx)) ([(lit ''operation'', operation_question offered)], [], [])
      (filter is_targeted offered) = (qs1, ts, gs)" by (metis prod_cases3)
  have plain: "plain_key k" using assms(2) lone_keys_facts(1) by (auto simp: list_all_iff)
  have "(k, q) \<in> set (im_extend qs1 extra)"
    using assms(1) fold add_ahead_plain [OF _ plain]
    unfolding build_request_def Let_def operation_question_def [symmetric] offered_def [symmetric] n_def [symmetric] extra_def [symmetric]
    by (auto split: if_splits)
  then have "(k, q) \<in> set qs1 \<or> (k, q) \<in> set extra" using im_extend_facts(2) by blast
  moreover have "k \<notin> key_target ` set (filter is_targeted offered)" "k \<notin> key_group ` set (filter is_targeted offered)"
    using assms(2) lone_keys_facts(3) by (auto simp: is_targeted_def)
  ultimately show ?thesis
    using add_targets(3) [OF fold] unfolding offered_def [symmetric] n_def [symmetric] extra_def [symmetric] by fastforce
qed

section \<open>A decision is one the page offered\<close>

text \<open>What Jev's client promises of an evaluation: every question answered, by an answer it allows.\<close>

definition answers_offered :: "agent_env \<Rightarrow> bool" where
  "answers_offered E \<longleftrightarrow> (\<forall>w r ev. env_evaluate E w r = Inr ev \<longrightarrow> answered_all (snd (snd r)) (eval_answers ev))"

definition step_offers :: "agent_env \<Rightarrow> observation \<Rightarrow> control list \<Rightarrow> step_context \<Rightarrow> operation list" where
  "step_offers E obs controls ctx = offered_operations obs (index_controls controls ctx) ctx (step_urls E obs ctx)"

definition offered_decision :: "agent_env \<Rightarrow> observation \<Rightarrow> control list \<Rightarrow> step_context \<Rightarrow> decision \<Rightarrow> bool" where
  "offered_decision E obs controls ctx d \<longleftrightarrow>
     dec_operation d \<in> set (step_offers E obs controls ctx)
     \<and> (if is_targeted (dec_operation d) then \<exists>c\<in>set controls. dec_target d = Some c \<and> acts_on ctx (dec_operation d) c else dec_target d = None)
     \<and> (if dec_operation d = Op_Navigate then \<exists>url\<in>set (step_urls E obs ctx). dec_url d = Some url else dec_url d = None)
     \<and> (if dec_operation d = Op_SwitchTab then \<exists>t\<in>set (obs_tabs obs). dec_tab_id d = Some (tab_id t) else dec_tab_id d = None)
     \<and> (if dec_operation d = Op_Drag then \<exists>c\<in>set controls. dec_destination d = Some c \<and> ctl_label c \<noteq> [] else dec_destination d = None)"

lemma of_agent_Inr: "of_agent r w = (Inr x, w') \<longleftrightarrow> r = Inr x \<and> w' = w"
  by (auto simp: of_agent_def step_of_result_def step_simps split: sum.split)

lemma policy_answer: "answers_offered E \<Longrightarrow> policy_ask E r qs w = (Inr ev, w') \<Longrightarrow> answered_all qs (eval_answers ev)"
  unfolding policy_ask_def using ask_jev_answer by (fastforce simp: answers_offered_def with_purpose_def)

lemma choice_offered:
  assumes "answered_all qs (eval_answers ev)" and "answered_choice ev key = Inr a"
  obtains c where "(key, Q_Choice c) \<in> set qs" "ca_choice a \<in> set (im_keys (cq_criteria c))"
proof -
  have "im_get (eval_answers ev) key = Some (A_Choice a)"
    using assms(2) by (auto simp: answered_choice_def split: option.splits answer.splits)
  then have "(key, A_Choice a) \<in> set (eval_answers ev)" by (rule map_of_SomeD)
  then obtain q where q: "(key, q) \<in> set qs" "answer_fits q (A_Choice a)" using assms(1) by (fastforce simp: answered_all_def fits_some_def)
  then obtain c where "q = Q_Choice c" by (cases q) auto
  then show thesis using that [of c] q by (auto simp: distribution_def)
qed

lemma extra_keys: "(k, q) \<in> set (extra_questions E limit n obs controls ctx urls offered) \<Longrightarrow> k \<in> set (tl lone_keys)"
  by (auto simp: extra_questions_def drag_questions_def navigate_questions_def lone_keys_def split: if_splits)

lemma extra_question:
  assumes "(k, q) \<in> set (extra_questions E limit n obs controls ctx urls offered)"
  shows "k = lit ''switch_tab_target'' \<Longrightarrow> q = tab_question obs"
    and "k = lit ''navigate_target'' \<Longrightarrow> q = choice_of (untrusted NAVIGATE_RULES) (numbered_by JString urls)"
  using assms by (auto simp: extra_questions_def drag_questions_def navigate_questions_def lit_def split: if_splits)

lemma criteria_collect: "Q_Choice c = choice_of i kvs \<Longrightarrow> cq_criteria c = im_collect kvs"
  by (auto simp: choice_of_def)

lemma criteria_keys: "Q_Choice c = choice_of i kvs \<Longrightarrow> set (im_keys (cq_criteria c)) = fst ` set kvs"
  by (simp only: criteria_collect im_collect_keys)

lemma operation_offered:
  assumes "answered_all (sr_questions (build_request E obs controls ctx limit)) (eval_answers ev)"
    and "answered_choice ev (lit ''operation'') = Inr a" and "asked_operation a = Inr op"
  shows "op \<in> set (step_offers E obs controls ctx)"
proof -
  obtain c where c: "(lit ''operation'', Q_Choice c) \<in> set (sr_questions (build_request E obs controls ctx limit))"
    "ca_choice a \<in> set (im_keys (cq_criteria c))" using choice_offered [OF assms(1,2)] .
  have "lit ''operation'' \<in> set lone_keys" "lit ''operation'' \<notin> set (tl lone_keys)"
    using lone_keys_facts(2) by (simp_all add: lone_keys_def)
  then have "Q_Choice c = operation_question (step_offers E obs controls ctx)"
    using lone_question [OF c(1)] extra_keys by (auto simp: step_offers_def)
  then have "ca_choice a \<in> operation_str ` set (step_offers E obs controls ctx)"
    using c(2) by (simp only: operation_question_def criteria_keys) force
  moreover have "ca_choice a = operation_str op"
    using assms(3) operation_enum.parse_iff by (auto simp: asked_operation_def ok_or_def split: option.splits)
  ultimately show ?thesis by (auto simp: operation_enum.as_str_inject)
qed

lemma tab_offered:
  assumes "answered_all (sr_questions (build_request E obs controls ctx limit)) (eval_answers ev)"
    and "answered_choice ev (lit ''switch_tab_target'') = Inr a"
  shows "\<exists>t\<in>set (obs_tabs obs). ca_choice a = tab_id t"
proof -
  obtain c where c: "(lit ''switch_tab_target'', Q_Choice c) \<in> set (sr_questions (build_request E obs controls ctx limit))"
    "ca_choice a \<in> set (im_keys (cq_criteria c))" using choice_offered [OF assms] .
  have "lit ''switch_tab_target'' \<in> set lone_keys" "lit ''switch_tab_target'' \<noteq> lit ''operation''" by (simp_all add: lone_keys_def lit_def)
  then have "Q_Choice c = tab_question obs" using lone_question [OF c(1)] extra_question(1) by blast
  then show ?thesis using c(2) by (simp only: tab_question_def criteria_keys) force
qed

lemma numbered_by_criteria: "(k, v) \<in> set (im_collect (numbered_by f xs)) \<Longrightarrow> v \<in> f ` set xs"
  using im_collect_subset [of "numbered_by f xs"] by (fastforce simp: numbered_by_def dest: set_zip_rightD)

lemma group_index_less: "group_index s n = Inr i \<Longrightarrow> i < n"
  by (auto simp: group_index_def Let_def split: sum.splits if_splits)

lemma chunk_subset: "i < length (chunks_of n xs) \<Longrightarrow> set (chunks_of n xs ! i) \<subseteq> set xs"
  using concat_chunks [of n xs] by (metis UN_upper nth_mem set_concat)

lemma find_control_member: "find_control cs i = Inr c \<Longrightarrow> c \<in> set cs"
  by (auto simp: find_control_def ok_or_def find_Some_iff split: option.splits)

lemma request_parts:
  fixes E obs controls ctx limit
  defines "r \<equiv> build_request E obs controls ctx limit" and "n \<equiv> group_limit (env_config E) limit"
  shows "sr_destinations r = filter (\<lambda>c. ctl_label c \<noteq> []) controls"
    and "sr_destination_groups r = [] \<or> sr_destination_groups r = chunks_of n (filter (\<lambda>c. ctl_label c \<noteq> []) controls)"
    and "sr_navigation_groups r = [] \<or> sr_navigation_groups r = chunks_of n (step_urls E obs ctx)"
    and "im_get (sr_targets r) op =
      (if op \<in> set (step_offers E obs controls ctx) \<and> is_targeted op \<and> length (filter (acts_on ctx op) controls) \<le> limit
       then Some (filter (acts_on ctx op) controls) else None)"
    and "im_get (sr_groups r) op =
      (if op \<in> set (step_offers E obs controls ctx) \<and> is_targeted op \<and> \<not> length (filter (acts_on ctx op) controls) \<le> limit
       then Some (chunks_of n (filter (acts_on ctx op) controls)) else None)"
proof -
  let ?offered = "step_offers E obs controls ctx"
  obtain qs1 ts gs where fold: "foldl (add_target limit n (index_controls controls ctx)) ([(lit ''operation'', operation_question ?offered)], [], [])
      (filter is_targeted ?offered) = (qs1, ts, gs)" by (metis prod_cases3)
  note parts = build_request_def Let_def operation_question_def [symmetric] step_offers_def [symmetric] n_def [symmetric] fold prod.case
  show "sr_destinations r = filter (\<lambda>c. ctl_label c \<noteq> []) controls"
    "sr_destination_groups r = [] \<or> sr_destination_groups r = chunks_of n (filter (\<lambda>c. ctl_label c \<noteq> []) controls)"
    "sr_navigation_groups r = [] \<or> sr_navigation_groups r = chunks_of n (step_urls E obs ctx)"
    unfolding r_def parts by simp_all
  have "sr_targets r = ts" "sr_groups r = gs" unfolding r_def parts by simp_all
  then show "im_get (sr_targets r) op =
      (if op \<in> set ?offered \<and> is_targeted op \<and> length (filter (acts_on ctx op) controls) \<le> limit
       then Some (filter (acts_on ctx op) controls) else None)"
    "im_get (sr_groups r) op =
      (if op \<in> set ?offered \<and> is_targeted op \<and> \<not> length (filter (acts_on ctx op) controls) \<le> limit
       then Some (chunks_of n (filter (acts_on ctx op) controls)) else None)"
    using add_targets(1,2) [OF fold, of op] by (auto simp: candidates_index)
qed

lemmas policy_results = step_bind_Inr step_ok_Inr step_fail_not_Inr of_agent_Inr

lemma chosen_address_Inr:
  "chosen_address q a g inners w = (Inr x, w') \<Longrightarrow>
     \<exists>url. (ca_choice a, JString url) \<in> set (cq_criteria q) \<and> x = (None, None, Some url, Some (g * ca_confidence a), inners)"
  by (auto simp: chosen_address_def policy_results split: option.splits json.splits dest: map_of_SomeD)

lemma address_offered:
  assumes "pick_address E (build_request E obs controls ctx limit) ev w = (Inr x, w')"
  shows "\<exists>url\<in>set (step_urls E obs ctx). \<exists>conf inners. x = (None, None, Some url, conf, inners)"
proof -
  let ?r = "build_request E obs controls ctx limit"
  show ?thesis
  proof (cases "sr_navigation_groups ?r = []")
    case True
    then obtain q a where q: "im_get (sr_questions ?r) (lit ''navigate_target'') = Some (Q_Choice q)"
      and x: "chosen_address q a 1 [] w = (Inr x, w')"
      using assms by (auto simp: pick_address_def policy_results split: option.splits question.splits)
    have "lit ''navigate_target'' \<in> set lone_keys" "lit ''navigate_target'' \<noteq> lit ''operation''" by (simp_all add: lone_keys_def lit_def)
    then have "Q_Choice q = choice_of (untrusted NAVIGATE_RULES) (numbered_by JString (step_urls E obs ctx))"
      using lone_question [OF map_of_SomeD [OF q]] extra_question(2) by blast
    then have "cq_criteria q = im_collect (numbered_by JString (step_urls E obs ctx))" by (rule criteria_collect)
    then show ?thesis using chosen_address_Inr [OF x] numbered_by_criteria [of _ _ JString "step_urls E obs ctx"] by fastforce
  next
    case False
    then have groups: "sr_navigation_groups ?r = chunks_of (group_limit (env_config E) limit) (step_urls E obs ctx)"
      using request_parts(3) by blast
    obtain g :: choice_answer and i a inner w1 where i: "group_index (ca_choice g) (length (sr_navigation_groups ?r)) = Inr i"
      and x: "chosen_address (address_question (sr_navigation_groups ?r ! i)) a (ca_confidence g) [inner] w1 = (Inr x, w')"
      using assms False unfolding pick_address_def Let_def if_not_P [OF False] policy_results by blast
    have "set (sr_navigation_groups ?r ! i) \<subseteq> set (step_urls E obs ctx)"
      using group_index_less [OF i] chunk_subset by (simp add: groups)
    then show ?thesis
      using chosen_address_Inr [OF x] numbered_by_criteria [of _ _ JString "sr_navigation_groups ?r ! i"] by (fastforce simp: address_question_def)
  qed
qed

lemma target_offered:
  assumes "pick_target E (build_request E obs controls ctx limit) ev op w = (Inr (target, tab, url, conf, inners), w')"
    and "op \<in> set (step_offers E obs controls ctx)"
    and "answered_all (sr_questions (build_request E obs controls ctx limit)) (eval_answers ev)"
  shows "if is_targeted op then \<exists>c\<in>set controls. target = Some c \<and> acts_on ctx op c else target = None"
    and "if op = Op_Navigate then \<exists>u\<in>set (step_urls E obs ctx). url = Some u else url = None"
    and "if op = Op_SwitchTab then \<exists>t\<in>set (obs_tabs obs). tab = Some (tab_id t) else tab = None"
proof -
  have untargeted: "\<not> is_targeted Op_Navigate" "\<not> is_targeted Op_SwitchTab" by code_simp+
  have "(if is_targeted op then \<exists>c\<in>set controls. target = Some c \<and> acts_on ctx op c else target = None)
    \<and> (if op = Op_Navigate then \<exists>u\<in>set (step_urls E obs ctx). url = Some u else url = None)
    \<and> (if op = Op_SwitchTab then \<exists>t\<in>set (obs_tabs obs). tab = Some (tab_id t) else tab = None)"
  proof (cases "is_targeted op")
    case True
    let ?cs = "filter (acts_on ctx op) controls"
    have "\<exists>c\<in>set ?cs. target = Some c \<and> tab = None \<and> url = None"
    proof (cases "length ?cs \<le> limit")
      case True
      then show ?thesis
        using assms(1,2) \<open>is_targeted op\<close> by (auto simp: pick_target_def request_parts policy_results dest: find_control_member)
    next
      case False
      then show ?thesis
        using assms(1,2) \<open>is_targeted op\<close> chunk_subset [of _ "group_limit (env_config E) limit" ?cs]
        by (fastforce simp: pick_target_def request_parts policy_results dest: find_control_member group_index_less)
    qed
    then show ?thesis using True untargeted by auto
  next
    case False
    then show ?thesis
      using assms(1) tab_offered [OF assms(3)] address_offered [of E obs controls ctx limit ev w _ w']
      by (auto simp: pick_target_def request_parts policy_results split: if_splits)
  qed
  then show "if is_targeted op then \<exists>c\<in>set controls. target = Some c \<and> acts_on ctx op c else target = None"
    "if op = Op_Navigate then \<exists>u\<in>set (step_urls E obs ctx). url = Some u else url = None"
    "if op = Op_SwitchTab then \<exists>t\<in>set (obs_tabs obs). tab = Some (tab_id t) else tab = None" by blast+
qed

lemma destination_offered:
  assumes "pick_destination E (build_request E obs controls ctx limit) ev w = (Inr (c, conf, inners), w')"
  shows "c \<in> set controls \<and> ctl_label c \<noteq> []"
proof -
  let ?r = "build_request E obs controls ctx limit" and ?drops = "filter (\<lambda>c. ctl_label c \<noteq> []) controls"
  have "c \<in> set ?drops"
  proof (cases "sr_destination_groups ?r = []")
    case True
    then show ?thesis using assms by (auto simp: pick_destination_def request_parts(1) policy_results dest: find_control_member)
  next
    case False
    then have groups: "sr_destination_groups ?r = chunks_of (group_limit (env_config E) limit) ?drops" using request_parts(2) by blast
    show ?thesis
      using assms False chunk_subset [of _ "group_limit (env_config E) limit" ?drops]
      by (fastforce simp: pick_destination_def policy_results groups dest: find_control_member group_index_less)
  qed
  then show ?thesis by simp
qed

lemma evaluate_step_offered:
  assumes "answers_offered E" and "evaluate_step E (build_request E obs controls ctx limit) shown reduced w = (Inr d, w')"
  shows "offered_decision E obs controls ctx d"
proof -
  let ?r = "build_request E obs controls ctx limit"
  obtain ev w1 oa op target tab url conf inners dropped w2 w3 where ask: "policy_ask E ?r (sr_questions ?r) w = (Inr ev, w1)"
    and op: "answered_choice ev (lit ''operation'') = Inr oa" "asked_operation oa = Inr op"
    and target: "pick_target E ?r ev op w1 = (Inr (target, tab, url, conf, inners), w2)"
    and dropped: "(if op = Op_Drag then step_bind (pick_destination E ?r ev) (\<lambda>x. step_ok (Some x)) else step_ok None) w2 = (Inr dropped, w3)"
    and d: "d = read_decision ?r shown reduced ev oa op (target, tab, url, conf, inners) dropped"
    using assms(2) unfolding evaluate_step_def policy_results by (metis prod_cases5)
  have answered: "answered_all (sr_questions ?r) (eval_answers ev)" using policy_answer [OF assms(1) ask] .
  have offered: "op \<in> set (step_offers E obs controls ctx)" using operation_offered [OF answered op] .
  have drop: "if op = Op_Drag then \<exists>c\<in>set controls. map_option fst dropped = Some c \<and> ctl_label c \<noteq> [] else map_option fst dropped = None"
    using dropped destination_offered by (fastforce simp: policy_results split: if_splits)
  have d: "dec_operation d = op" "dec_target d = target" "dec_url d = url" "dec_tab_id d = tab" "dec_destination d = map_option fst dropped"
    by (simp_all add: d read_decision_def Let_def)
  show ?thesis
    unfolding offered_decision_def d using offered target_offered [OF target offered answered] drop by (intro conjI)
qed

end
