(* ===== verification/Deciding.thy ===== *)
theory Deciding
  imports Offering
begin

text \<open>
  The decision of a step (\<^verbatim>\<open>decide\<close> of \<^verbatim>\<open>crates/fastbrowse-agent/src/policy.rs\<close>, with \<^verbatim>\<open>batches.rs\<close>): a page
  that does not fit one request is reduced rung by rung, its long texts and old actions cut, its controls scored and
  shortlisted, those off screen left out, and at last only those that fit offered, until Jev answers.  The batches of a
  relevance pass are asked in order; the code sends them together and joins them in that order.  \<open>receipts\<close> is what a
  client leaves in the spend scope of a batch.

  The lemmas show that the reduction ends, that what is asked fits the limits, that a cut or capped page is smaller and
  fits, that batches lose no question, and that the decision is one the page offered.
\<close>

section \<open>Fitting\<close>

definition excess :: "agent_env \<Rightarrow> nat \<Rightarrow> observation \<Rightarrow> control list \<Rightarrow> step_context \<Rightarrow> int" where
  "excess E limit obs controls ctx =
     (let r = build_request E obs controls ctx limit
      in int (text_len (dumps (sr_state r))) - input_chars (tokens (env_config E)) (questions_written (sr_questions r)))"

definition fits_step :: "agent_env \<Rightarrow> nat \<Rightarrow> observation \<Rightarrow> control list \<Rightarrow> step_context \<Rightarrow> bool" where
  "fits_step E limit obs controls ctx \<longleftrightarrow> excess E limit obs controls ctx \<le> 0"

definition fact_marker :: "nat \<Rightarrow> str" where
  \<open>fact_marker omitted = [10] @ lit ''[Page fact cut: '' @ dec omitted @ lit '' characters omitted to fit Jev's input limit]''\<close>

definition notes_marker :: "nat \<Rightarrow> str" where
  "notes_marker omitted = [10] @ lit ''[Notes cut: '' @ dec omitted @ lit '' characters omitted to fit the request]''"

text \<open>The least \<open>m\<close> the search finds with \<open>P m\<close>, and the greatest.\<close>

function search_least :: "(nat \<Rightarrow> bool) \<Rightarrow> nat \<Rightarrow> nat \<Rightarrow> nat" where
  "search_least P low high =
     (if low < high
      then (let middle = (low + high) div 2 in if P middle then search_least P low middle else search_least P (middle + 1) high)
      else low)"
  by pat_completeness auto

termination search_least
  by (relation "measure (\<lambda>(_, low, high). high - low)") auto

function search_greatest :: "(nat \<Rightarrow> bool) \<Rightarrow> nat \<Rightarrow> nat \<Rightarrow> nat" where
  "search_greatest P low high =
     (if low < high
      then (let middle = (low + high + 1) div 2 in if P middle then search_greatest P middle high else search_greatest P low (middle - 1))
      else low)"
  by pat_completeness auto

termination search_greatest
  by (relation "measure (\<lambda>(_, low, high). high - low)") auto

declare search_least.simps [simp del] search_greatest.simps [simp del]

section \<open>Cutting texts and actions\<close>

text \<open>The order actions are dropped in: oldest first, those that set a value last.\<close>

definition drop_order :: "history_entry list \<Rightarrow> nat list" where
  "drop_order h = sort_key (\<lambda>i. he_text (h ! i) \<noteq> None \<or> he_setting (h ! i) = Some True) [0..<length h]"

definition without_actions :: "history_entry list \<Rightarrow> step_context \<Rightarrow> nat \<Rightarrow> step_context" where
  "without_actions h ctx dropped =
     ctx\<lparr>ctx_history := nths h (- set (take dropped (drop_order h))), ctx_omitted_actions := ctx_omitted_actions ctx + dropped\<rparr>"

definition cut_room :: "str \<Rightarrow> int \<Rightarrow> nat" where
  "cut_room s over = nat (max 0 (int (dumped_len s) - over))"

text \<open>The facts of retained pages, the last first, each cut by what the request still runs over.\<close>

primrec cut_facts :: "agent_env \<Rightarrow> nat \<Rightarrow> observation \<Rightarrow> control list \<Rightarrow> history_entry list \<Rightarrow> nat \<Rightarrow> step_context \<Rightarrow> step_context" where
  "cut_facts E limit obs controls h 0 ctx = ctx"
| "cut_facts E limit obs controls h (Suc i) ctx =
     (let over = excess E limit obs controls (without_actions h ctx 0); fact = ctx_page_facts ctx ! i
      in if over \<le> 0 then ctx
         else cut_facts E limit obs controls h i
                (ctx\<lparr>ctx_page_facts := (ctx_page_facts ctx)[i := cut_with fact (cut_room fact over) True fact_marker]\<rparr>))"

definition cut_texts ::
  "agent_env \<Rightarrow> nat \<Rightarrow> observation \<Rightarrow> control list \<Rightarrow> history_entry list \<Rightarrow> step_context \<Rightarrow> observation \<times> step_context" where
  "cut_texts E limit obs controls h ctx =
     (let ctx1 = cut_facts E limit obs controls h (length (ctx_page_facts ctx)) ctx;
          over1 = excess E limit obs controls (without_actions h ctx1 0);
          obs1 = (if over1 > 0 then obs\<lparr>obs_offscreen_text := cut_text (obs_offscreen_text obs) (cut_room (obs_offscreen_text obs) over1) True\<rparr> else obs);
          over2 = excess E limit obs1 controls (without_actions h ctx1 0);
          obs2 = (if over2 > 0 then obs1\<lparr>obs_viewport_text := cut_text (obs_viewport_text obs1) (cut_room (obs_viewport_text obs1) over2) True\<rparr> else obs1);
          over3 = excess E limit obs2 controls (without_actions h ctx1 0);
          ctx2 = (if over3 > 0 then ctx1\<lparr>ctx_notes := cut_with (ctx_notes ctx1) (cut_room (ctx_notes ctx1) over3) True notes_marker\<rparr> else ctx1)
      in (obs2, ctx2))"

definition fewest_dropped :: "agent_env \<Rightarrow> nat \<Rightarrow> observation \<Rightarrow> control list \<Rightarrow> history_entry list \<Rightarrow> step_context \<Rightarrow> nat" where
  "fewest_dropped E limit obs controls h ctx =
     search_least (\<lambda>m. fits_step E limit obs controls (without_actions h ctx m)) 0 (length h)"

definition trim :: "agent_env \<Rightarrow> nat \<Rightarrow> observation \<Rightarrow> control list \<Rightarrow> step_context \<Rightarrow> (observation \<times> step_context) option" where
  "trim E limit obs controls ctx =
     (let h = ctx_history ctx;
          (obs1, ctx1) =
            (if fits_step E limit obs controls (without_actions h ctx (length h)) then (obs, ctx)
             else cut_texts E limit obs controls h ctx);
          ctx2 = without_actions h ctx1 (fewest_dropped E limit obs1 controls h ctx1);
          changed = (ctx_page_facts ctx2 \<noteq> ctx_page_facts ctx \<or> length (ctx_history ctx2) < length h \<or> ctx_notes ctx2 \<noteq> ctx_notes ctx
                     \<or> obs_viewport_text obs1 \<noteq> obs_viewport_text obs \<or> obs_offscreen_text obs1 \<noteq> obs_offscreen_text obs)
      in if changed \<and> fits_step E limit obs1 controls ctx2 then Some (obs1, ctx2) else None)"

section \<open>Leaving controls out\<close>

definition protected :: "control \<Rightarrow> bool" where
  "protected c \<longleftrightarrow> pager_link c \<or> is_some_and (ctl_value c) (\<lambda>v. v \<noteq> []) \<or> ctl_checked c = Some True
     \<or> ctl_selected c = Some True \<or> ctl_expanded c = Some True"

definition protected_indices :: "control list \<Rightarrow> nat set" where
  "protected_indices controls = set (filter (\<lambda>i. protected (controls ! i)) [0..<length controls])"

definition protected_first :: "control list \<Rightarrow> nat \<Rightarrow> nat set" where
  "protected_first controls limit =
     (let keep = filter (\<lambda>i. protected (controls ! i)) [0..<length controls];
          others = filter (\<lambda>i. \<not> protected (controls ! i)) [0..<length controls]
      in set keep \<union> set (take (limit - length keep) others))"

definition onscreen_rung :: "control list \<Rightarrow> reduction \<Rightarrow> control list option" where
  "onscreen_rung controls reduced =
     (if reduced \<noteq> Reduction_OnscreenOnly \<and> reduced \<noteq> Reduction_Capped \<and> list_ex ctl_offscreen controls
      then Some (filter (\<lambda>c. \<not> ctl_offscreen c) controls) else None)"

definition shed :: "step_request \<Rightarrow> control list \<Rightarrow> config \<Rightarrow> reduction \<Rightarrow> (control list \<times> reduction) option" where
  "shed r controls cfg reduced =
     (let ratio = chars_per_token (tokens cfg);
          st = real (text_len (dumps (sr_state r))) / ratio;
          largest = real (foldl max 0 (map text_len (questions_written (sr_questions r)))) / ratio
      in if st + largest \<le> real_of_int (batch_tokens (tokens cfg)) then None
         else map_option (\<lambda>onscreen. (onscreen, Reduction_OnscreenOnly)) (onscreen_rung controls reduced))"

definition cap_order :: "control list \<Rightarrow> nat list" where
  "cap_order controls = sort_key (\<lambda>i. \<not> protected (controls ! i)) [0..<length controls]"

definition cap_kept :: "control list \<Rightarrow> nat \<Rightarrow> control list" where
  "cap_kept controls p = nths controls (set (take p (cap_order controls)))"

definition cap :: "agent_env \<Rightarrow> nat \<Rightarrow> observation \<Rightarrow> control list \<Rightarrow> step_context \<Rightarrow> control list option" where
  "cap E limit obs controls ctx =
     (let fits_with = (\<lambda>p. fits_step E limit obs (cap_kept controls p) ctx)
      in if controls = [] \<or> \<not> fits_with 0 then None
         else Some (cap_kept controls (search_greatest fits_with 0 (length controls - 1))))"

section \<open>Batches of questions\<close>

record batches_answered =
  ba_answers :: "(str, answer) index_map"
  ba_cost :: "cost_line list"
  ba_input_tokens :: int
  ba_requests :: int

definition batch_full ::
  "token_budget \<Rightarrow> nat option \<Rightarrow> int \<Rightarrow> questions \<Rightarrow> str \<Rightarrow> bool" where
  "batch_full t most state_chars batch json \<longleftrightarrow>
     (let written = questions_written batch;
          size = (\<Sum>j\<leftarrow>written. real (text_len j) / chars_per_token t)
      in (case most of Some m \<Rightarrow> length batch \<ge> m | None \<Rightarrow> False)
         \<or> size + real (text_len json) / chars_per_token t > real_of_int (min (batch_tokens t) (state_plus_all_questions t))
         \<or> state_chars > input_chars t (written @ [json]))"

fun pack_batches :: "token_budget \<Rightarrow> nat option \<Rightarrow> int \<Rightarrow> questions \<Rightarrow> questions \<Rightarrow> questions list" where
  "pack_batches t most state_chars batch [] = (if batch = [] then [] else [batch])"
| "pack_batches t most state_chars batch (kq # rest) =
     (let json = dump_json (question_dump (snd kq))
      in if state_chars > input_chars t [json] then pack_batches t most state_chars batch rest
         else if batch \<noteq> [] \<and> batch_full t most state_chars batch json
           then batch # pack_batches t most state_chars [kq] rest
         else pack_batches t most state_chars (im_insert (fst kq) (snd kq) batch) rest)"

record batch_spent =
  sp_paid :: "cost_line list"
  sp_receipts :: "cost_line list"
  sp_input_tokens :: int
  sp_requests :: int

definition batch_result :: "agent_env \<Rightarrow> request \<Rightarrow> agent_world \<Rightarrow> decision_error + evaluation" where
  "batch_result E r w = map_sum (error_with_purpose (fst r)) (with_purpose (fst r)) (env_evaluate E w r)"

text \<open>One batch after the other; \<open>on_answer\<close> sees each answer of a batch as it comes back.\<close>

fun run_batches ::
  "agent_env \<Rightarrow> (agent_world \<Rightarrow> request \<Rightarrow> cost_line list) \<Rightarrow> jev_purpose \<Rightarrow> json \<Rightarrow> (str \<Rightarrow> answer \<Rightarrow> agent_world \<Rightarrow> agent_world) \<Rightarrow> bool
     \<Rightarrow> questions list \<Rightarrow> batch_spent \<Rightarrow> (str \<times> answer) list \<Rightarrow> agent_world
     \<Rightarrow> (decision_error + (str \<times> answer) list) \<times> batch_spent \<times> agent_world" where
  "run_batches E receipts purpose st on_answer allow [] spent answers w = (Inr answers, spent, w)"
| "run_batches E receipts purpose st on_answer allow (qs # rest) spent answers w =
     (let r = (purpose, st, qs); result = batch_result E r w; left = receipts w r;
          w1 = w\<lparr>w_asked := w_asked w @ [(r, result)]\<rparr>;
          spent1 = spent\<lparr>sp_receipts := sp_receipts spent @ left\<rparr>
      in case result of
           Inr ev \<Rightarrow>
             run_batches E receipts purpose st on_answer allow rest
               (spent1\<lparr>sp_paid := sp_paid spent1 @ [eval_cost ev], sp_input_tokens := sp_input_tokens spent1 + eval_input_tokens ev,
                        sp_requests := sp_requests spent1 + eval_requests ev\<rparr>)
               (answers @ eval_answers ev)
               (foldl (\<lambda>w (key, a). if im_get qs key \<noteq> None then on_answer key a w else w) w1 (eval_answers ev))
         | Inl e \<Rightarrow>
             (let held = (case e of Decision_RetriesExhausted x \<Rightarrow> if left = [] then map eval_cost (re_answered x) else [] | _ \<Rightarrow> []);
                  spent2 = spent1\<lparr>sp_paid := sp_paid spent1 @ held\<rparr>
              in if allow then run_batches E receipts purpose st on_answer allow rest spent2 answers w1
                 else (Inl e, spent2, w1)))"

definition reserve_pass :: "agent_env \<Rightarrow> real \<Rightarrow> int \<Rightarrow> unit step" where
  "reserve_pass E estimate calls w =
     (case reserve (env_num E) (env_clock E w) (run_ledger (w_run w)) Cost_Jev estimate calls of
        (r, L) \<Rightarrow> (map_sum flow_of_budget id r, w\<lparr>w_run := (w_run w)\<lparr>run_ledger := L\<rparr>\<rparr>))"

definition keep_lines :: "cost_line list \<Rightarrow> unit step" where
  "keep_lines ls = change_run (\<lambda>s. s\<lparr>run_ledger := (run_ledger s)\<lparr>counters := (counters (run_ledger s))\<lparr>lines := lines (counters (run_ledger s)) @ ls\<rparr>\<rparr>\<rparr>)"

definition check_ledger :: "agent_env \<Rightarrow> unit step" where
  "check_ledger E w = (map_sum flow_of_budget id (ledger_check (env_num E) (env_clock E w) (run_ledger (w_run w)) 0), w)"

definition evaluate_batches ::
  "agent_env \<Rightarrow> (agent_world \<Rightarrow> request \<Rightarrow> cost_line list) \<Rightarrow> jev_purpose \<Rightarrow> json \<Rightarrow> questions
     \<Rightarrow> (str \<Rightarrow> answer \<Rightarrow> agent_world \<Rightarrow> agent_world) \<Rightarrow> bool \<Rightarrow> batches_answered option step" where
  "evaluate_batches E receipts purpose st qs on_answer allow =
     (let t = tokens (env_config E);
          state_chars = int (text_len (dumps st));
          batches = pack_batches t (max_questions (env_profile E)) state_chars [] qs;
          sent = (\<Sum>j\<leftarrow>concat (map questions_written batches). real (text_len j)) / chars_per_token t;
          estimate = (case input_dollars (env_profile E) (real (length batches) * (real_of_int state_chars / chars_per_token t) + sent) of
                        Some d \<Rightarrow> d | None \<Rightarrow> 0)
      in if batches = [] then step_ok None
         else
           step_bind (reserve_pass E estimate (int (length batches))) (\<lambda>_ w.
             case run_batches E receipts purpose st on_answer allow batches \<lparr>sp_paid = [], sp_receipts = [], sp_input_tokens = 0, sp_requests = 0\<rparr> [] w of
               (result, spent, w1) \<Rightarrow>
                 (let paid = sp_paid spent @ sp_receipts spent in
                  step_bind (keep_lines paid) (\<lambda>_.
                  step_bind (step_of_result flow_of_decision result) (\<lambda>answers.
                  step_bind (check_ledger E) (\<lambda>_.
                    step_ok (if paid = [] then None
                             else Some \<lparr>ba_answers = im_collect answers, ba_cost = paid, ba_input_tokens = sp_input_tokens spent,
                                        ba_requests = sp_requests spent\<rparr>)))) w1)))"

section \<open>The relevance pass\<close>

definition relevance_state :: "observation \<Rightarrow> step_context \<Rightarrow> json" where
  "relevance_state obs ctx =
     JObject [(lit ''rules'', JString (untrusted RELEVANCE_RULES)), (lit ''task'', JString (ctx_task ctx)),
              (lit ''subgoal'', json_text (ctx_subgoal ctx)), (lit ''answered_in_notes'', JBool (ctx_answered_in_notes ctx)),
              (lit ''recent_actions'', JArray (map history_dump (ctx_history ctx))),
              (lit ''page'', JObject [(lit ''url'', JString (obs_url obs)), (lit ''title'', JString (obs_title obs))])]"

definition relevance_question :: "control \<Rightarrow> question" where
  "relevance_question c = Q_Noul (noul_new (lit ''Is this element relevant? '' @ dumps (JObject (relevance_element c))) None None)"

definition relevance_key :: "nat \<Rightarrow> str" where
  "relevance_key i = lit ''r'' @ dec i"

definition cache_prepare :: "str \<Rightarrow> json \<Rightarrow> relevance_cache \<Rightarrow> relevance_cache" where
  "cache_prepare document st cache =
     (let key = (document, json_write st (DUMPS\<lparr>sort_keys := True\<rparr>))
      in if cache_context cache \<noteq> Some key then \<lparr>cache_context = Some key, cache_answers = Map.empty\<rparr> else cache)"

definition change_cache :: "(relevance_cache \<Rightarrow> relevance_cache) \<Rightarrow> agent_world \<Rightarrow> agent_world" where
  "change_cache f w = w\<lparr>w_run := (w_run w)\<lparr>relevance := f (relevance (w_run w))\<rparr>\<rparr>"

definition cache_remember :: "(str, question \<times> str) index_map \<Rightarrow> str \<Rightarrow> answer \<Rightarrow> agent_world \<Rightarrow> agent_world" where
  "cache_remember asked key a w =
     (case (a, im_get asked key) of
        (A_Noul p, Some (_, written)) \<Rightarrow> change_cache (\<lambda>c. c\<lparr>cache_answers := (cache_answers c)(written \<mapsto> p)\<rparr>) w
      | _ \<Rightarrow> w)"

definition usize_of :: "str \<Rightarrow> nat option" where
  "usize_of s = (if prefix (lit ''-'') s then None else
     (case parse_int s of Some i \<Rightarrow> if i < 2 ^ 64 then Some (nat i) else None | None \<Rightarrow> None))"

text \<open>The index a score is for.  A key that does not begin with one plain character cannot be cut.\<close>

definition score_index :: "str \<Rightarrow> flow + nat" where
  "score_index key =
     (case key of
        [] \<Rightarrow> Inl Flow_Panic
      | c # rest \<Rightarrow>
          if c \<ge> 128 then Inl Flow_Panic
          else ok_or (Flow_Agent (Agent_Invalid (lit ''invalid literal for int() with base 10: '' @ repr rest))) (usize_of rest))"

fun read_scores :: "(str \<times> answer) list \<Rightarrow> (nat, real) index_map \<Rightarrow> flow + (nat, real) index_map" where
  "read_scores [] scores = Inr scores"
| "read_scores ((key, A_Noul p) # rest) scores = and_then (score_index key) (\<lambda>i. read_scores rest (im_insert i p scores))"
| "read_scores (_ # rest) scores = read_scores rest scores"

text \<open>The best score first; of equal scores the unscored ones, then document order.\<close>

definition rank_candidates :: "(nat, real) index_map \<Rightarrow> nat list \<Rightarrow> nat list" where
  "rank_candidates scores candidates =
     sort_key (\<lambda>i. - (case im_get scores i of Some p \<Rightarrow> p | None \<Rightarrow> 1)) (sort_key (\<lambda>i. im_get scores i \<noteq> None) candidates)"

definition max_offered :: "agent_env \<Rightarrow> nat \<Rightarrow> nat" where
  "max_offered E limit = group_limit (env_config E) limit * limit"

definition relevance_asked :: "control list \<Rightarrow> (str, question \<times> str) index_map" where
  "relevance_asked controls =
     map (\<lambda>i. let q = relevance_question (controls ! i) in (relevance_key i, q, dump_json (question_dump q)))
       (filter (\<lambda>i. \<not> protected (controls ! i)) [0..<length controls])"

definition shortlist_kept :: "control list \<Rightarrow> nat list \<Rightarrow> nat \<Rightarrow> control list" where
  "shortlist_kept controls ranked p = nths controls (protected_indices controls \<union> set (take p ranked))"

definition shortlist ::
  "agent_env \<Rightarrow> (agent_world \<Rightarrow> request \<Rightarrow> cost_line list) \<Rightarrow> nat \<Rightarrow> observation \<Rightarrow> control list \<Rightarrow> step_context
     \<Rightarrow> (control list \<times> cost_line list \<times> int) option step" where
  "shortlist E receipts limit obs controls ctx =
     (let st = relevance_state obs ctx; asked = relevance_asked controls;
          candidates = filter (\<lambda>i. \<not> protected (controls ! i)) [0..<length controls] in
      step_bind (\<lambda>w. (Inr (), change_cache (cache_prepare (obs_document_key obs) st) w)) (\<lambda>_.
      step_bind (\<lambda>w. (Inr (cache_answers (relevance (w_run w))), w)) (\<lambda>cached.
        let held = List.map_filter (\<lambda>(key, _, written). map_option (\<lambda>p. (key, A_Noul p)) (cached written)) asked;
            open_asked = filter (\<lambda>(key, _, written). cached written = None) asked;
            same_as = (\<lambda>written. fst (the (find (\<lambda>(_, _, w). w = written) open_asked)));
            pending = map (\<lambda>(key, q, _). (key, q)) (filter (\<lambda>(key, _, written). same_as written = key) open_asked)
        in
      step_bind (evaluate_batches E receipts Jev_Relevance st pending (cache_remember asked) True) (\<lambda>answered.
        let answers1 = im_extend held (case answered of Some a \<Rightarrow> ba_answers a | None \<Rightarrow> []);
            answers = foldl (\<lambda>m (key, _, written). case im_get m (same_as written) of Some a \<Rightarrow> im_insert key a m | None \<Rightarrow> m) answers1 open_asked
        in if answers = [] then step_ok None
           else
             step_bind (step_of_result id (read_scores answers [])) (\<lambda>scores.
               let ranked = rank_candidates scores candidates;
                   kept = shortlist_kept controls ranked;
                   most = min (length ranked) (max_offered E limit - card (protected_indices controls));
                   low = search_greatest (\<lambda>p. request_fits (build_request E obs (kept p) ctx limit) (env_config E)) 0 most
               in step_bind (trace_event (lit ''shortlist'')
                    (JObject [(lit ''pool'', JInt (int (length controls))), (lit ''offered'', JInt (int (card (protected_indices controls) + low))),
                              (lit ''scored'', JInt (int (length scores))),
                              (lit ''requests'', JInt (case answered of Some a \<Rightarrow> ba_requests a | None \<Rightarrow> 0)),
                              (lit ''reused'', JInt (int (length asked - length open_asked))),
                              (lit ''duplicates'', JInt (int (length open_asked - length pending)))])) (\<lambda>_.
                    step_ok (Some (kept low, (case answered of Some a \<Rightarrow> (ba_cost a, ba_input_tokens a) | None \<Rightarrow> ([], 0))))))))))"

section \<open>The ladder\<close>

record ladder =
  ld_obs :: observation
  ld_ctx :: step_context
  ld_controls :: "control list"
  ld_reduction :: reduction
  ld_cost :: "cost_line list"
  ld_tokens :: int
  ld_trimmed :: bool
  ld_tried :: bool

text \<open>One turn of the loop ends the step or leaves a smaller request to try.\<close>

datatype turn = Decided "flow + decision" | Try_Again ladder

definition keep_shortlist :: "control list \<times> cost_line list \<times> int \<Rightarrow> ladder \<Rightarrow> ladder" where
  "keep_shortlist found l = (case found of (kept, paid, used) \<Rightarrow>
     l\<lparr>ld_controls := kept, ld_cost := paid, ld_tokens := used, ld_reduction := Reduction_Relevance\<rparr>)"

definition too_large :: "observation \<Rightarrow> flow" where
  \<open>too_large obs = Flow_Agent (Agent_ObservationTooLarge
     (lit ''the state on '' @ obs_url obs @ lit '' exceeds Jev's input limits with no controls''))\<close>

definition lower_rungs :: "agent_env \<Rightarrow> nat \<Rightarrow> ladder \<Rightarrow> turn" where
  "lower_rungs E limit l =
     (case onscreen_rung (ld_controls l) (ld_reduction l) of
        Some onscreen \<Rightarrow> Try_Again (l\<lparr>ld_controls := onscreen, ld_reduction := Reduction_OnscreenOnly\<rparr>)
      | None \<Rightarrow>
          (case cap E limit (ld_obs l) (ld_controls l) (ld_ctx l) of
             Some fewer \<Rightarrow> Try_Again (l\<lparr>ld_controls := fewer, ld_reduction := Reduction_Capped\<rparr>)
           | None \<Rightarrow>
               (case if fits_step E limit (ld_obs l) [] (ld_ctx l) then None else trim E limit (ld_obs l) [] (ld_ctx l) of
                  Some (obs, ctx) \<Rightarrow> Try_Again (l\<lparr>ld_obs := obs, ld_ctx := ctx\<rparr>)
                | None \<Rightarrow> Decided (Inl (too_large (ld_obs l))))))"

definition reduce_turn :: "agent_env \<Rightarrow> (agent_world \<Rightarrow> request \<Rightarrow> cost_line list) \<Rightarrow> nat \<Rightarrow> ladder \<Rightarrow> agent_world \<Rightarrow> turn \<times> agent_world" where
  "reduce_turn E receipts limit l w =
     (case if ld_trimmed l then None else trim E limit (ld_obs l) (ld_controls l) (ld_ctx l) of
        Some (obs, ctx) \<Rightarrow>
          (Try_Again (l\<lparr>ld_trimmed := True, ld_obs := obs, ld_ctx := ctx, ld_reduction := Reduction_Trimmed\<rparr>), w)
      | None \<Rightarrow>
          (let l1 = l\<lparr>ld_trimmed := True\<rparr> in
           if ld_tried l1 then (lower_rungs E limit l1, w)
           else
             (let l2 = l1\<lparr>ld_tried := True\<rparr> in
              case shortlist E receipts limit (ld_obs l2) (ld_controls l2) (ld_ctx l2) w of
                (Inl e, w1) \<Rightarrow> (Decided (Inl e), w1)
              | (Inr (Some found), w1) \<Rightarrow> (Try_Again (keep_shortlist found l2), w1)
              | (Inr None, w1) \<Rightarrow> (lower_rungs E limit l2, w1))))"

definition finish_decision :: "agent_env \<Rightarrow> ladder \<Rightarrow> decision \<Rightarrow> decision" where
  "finish_decision E l d =
     d\<lparr>dec_cost := ld_cost l @ dec_cost d, dec_input_tokens := dec_input_tokens d + ld_tokens l,
       dec_offered := (if step_choices_kept (env_config E) then ld_controls l else dec_offered d)\<rparr>"

text \<open>The failures of a request the ladder answers.\<close>

datatype failure_kind = Request_Too_Large | Request_Exhausted retries_exhausted | Request_Failed

fun step_failure :: "flow \<Rightarrow> failure_kind" where
  "step_failure (Flow_Agent (Agent_Jev (Decision_InputTooLarge _))) = Request_Too_Large"
| "step_failure (Flow_Agent (Agent_Jev (Decision_RetriesExhausted e))) = Request_Exhausted e"
| "step_failure _ = Request_Failed"

definition decide_turn :: "agent_env \<Rightarrow> (agent_world \<Rightarrow> request \<Rightarrow> cost_line list) \<Rightarrow> nat \<Rightarrow> ladder \<Rightarrow> agent_world \<Rightarrow> turn \<times> agent_world" where
  "decide_turn E receipts limit l w =
     (let r = build_request E (ld_obs l) (ld_controls l) (ld_ctx l) limit in
      if \<not> request_fits r (env_config E) then reduce_turn E receipts limit l w
      else
        (case evaluate_step E r (ld_controls l) (ld_reduction l) w of
           (Inr d, w1) \<Rightarrow> (Decided (Inr (finish_decision E l d)), w1)
         | (Inl failed, w1) \<Rightarrow>
             (case step_failure failed of
                Request_Too_Large \<Rightarrow> reduce_turn E receipts limit l w1
              | Request_Exhausted e \<Rightarrow>
                  (case shed r (ld_controls l) (env_config E) (ld_reduction l) of
                     None \<Rightarrow> (Decided (Inl failed), w1)
                   | Some (smaller, reduced) \<Rightarrow>
                       (Try_Again (l\<lparr>ld_controls := smaller, ld_reduction := reduced\<rparr>),
                        snd (trace_event (lit ''decide_shed'')
                          (JObject [(lit ''offered'', JInt (int (length (ld_controls l)))), (lit ''retry_with'', JInt (int (length smaller))),
                                    (lit ''reason'', JString (re_message e))]) w1)))
              | Request_Failed \<Rightarrow> (Decided (Inl failed), w1))))"
section \<open>The ladder ends\<close>

text \<open>How far down a ladder is: texts cut once, controls scored once, fewer controls, and texts cut until they fit alone.\<close>

definition rungs_left :: "agent_env \<Rightarrow> nat \<Rightarrow> ladder \<Rightarrow> nat list" where
  "rungs_left E limit l =
     [if ld_trimmed l then 0 else 1, if ld_tried l then 0 else 1, length (ld_controls l),
      if fits_step E limit (ld_obs l) [] (ld_ctx l) then 0 else 1]"

definition rungs_below :: "agent_env \<Rightarrow> nat \<Rightarrow> (ladder \<times> ladder) set" where
  "rungs_below E limit =
     inv_image (less_than <*lex*> less_than <*lex*> less_than <*lex*> less_than)
       (\<lambda>l. (rungs_left E limit l ! 0, rungs_left E limit l ! 1, rungs_left E limit l ! 2, rungs_left E limit l ! 3))"

lemma rungs_below_wf: "wf (rungs_below E limit)"
  by (simp add: rungs_below_def wf_lex_prod)

lemma search_greatest_spec: "low \<le> high \<Longrightarrow> low \<le> search_greatest P low high \<and> search_greatest P low high \<le> high
    \<and> (search_greatest P low high = low \<or> P (search_greatest P low high))"
proof (induction P low high rule: search_greatest.induct)
  case (1 P low high)
  show ?case
  proof (cases "low < high")
    case True
    let ?m = "(low + high + 1) div 2"
    have m: "low < ?m" "?m \<le> high" using True by auto
    show ?thesis
    proof (cases "P ?m")
      case P: True
      have "search_greatest P low high = search_greatest P ?m high" using True P by (simp add: search_greatest.simps [of P low high] Let_def)
      then show ?thesis using 1(1) [OF True refl P m(2)] m P by auto
    next
      case P: False
      have "search_greatest P low high = search_greatest P low (?m - 1)" using True P by (simp add: search_greatest.simps [of P low high] Let_def)
      moreover have "low \<le> ?m - 1" "?m - 1 \<le> high" using m by linarith+
      ultimately show ?thesis using 1(2) [OF True refl P] by fastforce
    qed
  qed (use 1(3) in \<open>simp add: search_greatest.simps\<close>)
qed

lemma length_nths_le: "length (nths xs I) \<le> card (I \<inter> {..<length xs})"
  by (simp add: length_nths Collect_conj_eq Int_commute lessThan_def)

lemma cap_fewer: "cap E limit obs controls ctx = Some cs \<Longrightarrow> length cs < length controls"
proof -
  assume cap: "cap E limit obs controls ctx = Some cs"
  then obtain p where p: "cs = cap_kept controls p" "p \<le> length controls - 1" "controls \<noteq> []"
    using search_greatest_spec [of 0 "length controls - 1"] by (auto simp: cap_def Let_def split: if_splits)
  have "length cs \<le> card (set (take p (cap_order controls)))"
    unfolding p(1) cap_kept_def by (rule order_trans [OF length_nths_le]) (simp add: card_mono)
  also have "\<dots> \<le> p" by (rule order_trans [OF card_length]) simp
  finally show ?thesis using p(2,3) by (cases controls) auto
qed

lemma onscreen_fewer: "onscreen_rung controls reduced = Some cs \<Longrightarrow> length cs < length controls"
  by (auto simp: onscreen_rung_def list_ex_iff intro: length_filter_less split: if_splits)

lemma shed_fewer: "shed r controls cfg reduced = Some (cs, red) \<Longrightarrow> length cs < length controls"
  by (auto simp: shed_def Let_def onscreen_fewer split: if_splits)

lemma trim_fits: "trim E limit obs controls ctx = Some (obs', ctx') \<Longrightarrow> fits_step E limit obs' controls ctx'"
  by (auto simp: trim_def Let_def split: prod.splits if_splits)

lemma lower_rungs_below: "lower_rungs E limit l = Try_Again l' \<Longrightarrow> (l', l) \<in> rungs_below E limit"
  by (auto simp: lower_rungs_def rungs_below_def rungs_left_def onscreen_fewer cap_fewer dest: trim_fits
      split: option.splits prod.splits if_splits)

lemma rungs_below_iff:
  "(l', l) \<in> rungs_below E limit \<longleftrightarrow>
     (ld_trimmed l' \<and> \<not> ld_trimmed l)
     \<or> ld_trimmed l' = ld_trimmed l
       \<and> (ld_tried l' \<and> \<not> ld_tried l
           \<or> ld_tried l' = ld_tried l
             \<and> (length (ld_controls l') < length (ld_controls l)
                 \<or> length (ld_controls l') = length (ld_controls l)
                   \<and> fits_step E limit (ld_obs l') [] (ld_ctx l') \<and> \<not> fits_step E limit (ld_obs l) [] (ld_ctx l)))"
  by (auto simp: rungs_below_def rungs_left_def)

lemma lower_rungs_same: "lower_rungs E limit l = Try_Again l' \<Longrightarrow> ld_trimmed l' = ld_trimmed l \<and> ld_tried l' = ld_tried l"
  by (auto simp: lower_rungs_def split: option.splits)

lemma reduce_turn_below:
  assumes "reduce_turn E receipts limit l w = (Try_Again l', w')"
  shows "(l', l) \<in> rungs_below E limit"
proof (cases "if ld_trimmed l then None else trim E limit (ld_obs l) (ld_controls l) (ld_ctx l)")
  case (Some found)
  then show ?thesis using assms by (cases found) (auto simp: reduce_turn_def rungs_below_iff split: if_splits)
next
  case None
  let ?l1 = "l\<lparr>ld_trimmed := True\<rparr>" and ?l2 = "l\<lparr>ld_trimmed := True, ld_tried := True\<rparr>"
  show ?thesis
  proof (cases "ld_tried l")
    case True
    then have "lower_rungs E limit ?l1 = Try_Again l'" using assms None by (simp add: reduce_turn_def Let_def)
    then show ?thesis using lower_rungs_below [of E limit ?l1 l'] by (auto simp: rungs_below_iff)
  next
    case False
    note run = assms [unfolded reduce_turn_def None option.case Let_def]
    obtain r w1 where r: "shortlist E receipts limit (ld_obs l) (ld_controls l) (ld_ctx l) w = (r, w1)" by fastforce
    have "l' = keep_shortlist (the (projr r)) ?l2 \<or> lower_rungs E limit ?l2 = Try_Again l'"
      using run False r by (auto split: sum.splits option.splits)
    then have "ld_trimmed l' \<and> ld_tried l'"
      using lower_rungs_same [of E limit ?l2 l'] by (auto simp: keep_shortlist_def split: prod.splits)
    then show ?thesis using False by (auto simp: rungs_below_iff)
  qed
qed

lemma decide_turn_below:
  assumes "decide_turn E receipts limit l w = (Try_Again l', w')"
  shows "(l', l) \<in> rungs_below E limit"
proof -
  obtain r w1 where r: "evaluate_step E (build_request E (ld_obs l) (ld_controls l) (ld_ctx l) limit) (ld_controls l) (ld_reduction l) w = (r, w1)"
    by fastforce
  have "(\<exists>w1. reduce_turn E receipts limit l w1 = (Try_Again l', w'))
      \<or> (\<exists>cs red. l' = l\<lparr>ld_controls := cs, ld_reduction := red\<rparr> \<and> length cs < length (ld_controls l))"
    using assms r
    by (auto simp: decide_turn_def Let_def split: if_splits sum.splits failure_kind.splits option.splits dest: shed_fewer)
  then show ?thesis by (elim disjE exE conjE) (rule reduce_turn_below, assumption, simp add: rungs_below_iff)
qed

function decide_loop ::
  "agent_env \<Rightarrow> (agent_world \<Rightarrow> request \<Rightarrow> cost_line list) \<Rightarrow> nat \<Rightarrow> ladder \<Rightarrow> agent_world \<Rightarrow> (flow + decision) \<times> agent_world" where
  "decide_loop E receipts limit l w =
     (case decide_turn E receipts limit l w of
        (Decided r, w') \<Rightarrow> (r, w')
      | (Try_Again l', w') \<Rightarrow> decide_loop E receipts limit l' w')"
  by pat_completeness auto

termination decide_loop
proof (relation "measures (map (\<lambda>k (E, _, limit, l, _). rungs_left E limit l ! k) [0, 1, 2, 3])")
  fix E :: agent_env and receipts limit l w t w' l'
  assume "(t, w') = decide_turn E receipts limit l w" "t = Try_Again l'"
  then have "(l', l) \<in> rungs_below E limit" using decide_turn_below [of E receipts limit l w l' w'] by simp
  then show "((E, receipts, limit, l', w'), (E, receipts, limit, l, w))
      \<in> measures (map (\<lambda>k (E, _, limit, l, _). rungs_left E limit l ! k) [0, 1, 2, 3])"
    by (auto simp: rungs_below_def)
qed simp

declare decide_loop.simps [simp del]

definition decide :: "agent_env \<Rightarrow> (agent_world \<Rightarrow> request \<Rightarrow> cost_line list) \<Rightarrow> observation \<Rightarrow> step_context \<Rightarrow> decision step" where
  "decide E receipts obs ctx w =
     (let limit = max_choice_options (env_profile E);
          l = \<lparr>ld_obs = obs, ld_ctx = ctx, ld_controls = obs_controls obs, ld_reduction = Reduction_None, ld_cost = [], ld_tokens = 0,
               ld_trimmed = False, ld_tried = (length (obs_controls obs) > max_offered E limit)\<rparr>
      in if \<not> ld_tried l then decide_loop E receipts limit l w
         else
           (case shortlist E receipts limit obs (obs_controls obs) ctx w of
              (Inl e, w1) \<Rightarrow> (Inl e, w1)
            | (Inr (Some found), w1) \<Rightarrow> decide_loop E receipts limit (keep_shortlist found l) w1
            | (Inr None, w1) \<Rightarrow>
                decide_loop E receipts limit
                  (l\<lparr>ld_controls := nths (obs_controls obs) (protected_first (obs_controls obs) (max_offered E limit))\<rparr>) w1))"

section \<open>What the ladder keeps\<close>

definition same_page :: "observation \<Rightarrow> observation \<Rightarrow> bool" where
  "same_page obs obs' \<longleftrightarrow> obs_url obs' = obs_url obs \<and> obs_controls obs' = obs_controls obs \<and> obs_tabs obs' = obs_tabs obs
     \<and> obs_dialog obs' = obs_dialog obs \<and> obs_can_go_back obs' = obs_can_go_back obs"

definition same_terms :: "step_context \<Rightarrow> step_context \<Rightarrow> bool" where
  "same_terms ctx ctx' \<longleftrightarrow> ctx_task ctx' = ctx_task ctx \<and> ctx_start_url ctx' = ctx_start_url ctx
     \<and> ctx_start_landing_url ctx' = ctx_start_landing_url ctx \<and> ctx_problem ctx' = ctx_problem ctx \<and> ctx_reload ctx' = ctx_reload ctx
     \<and> ctx_withheld ctx' = ctx_withheld ctx \<and> ctx_withheld_targets ctx' = ctx_withheld_targets ctx
     \<and> ctx_has_attachments ctx' = ctx_has_attachments ctx"

definition ladder_of :: "observation \<Rightarrow> step_context \<Rightarrow> ladder \<Rightarrow> bool" where
  "ladder_of obs ctx l \<longleftrightarrow> same_page obs (ld_obs l) \<and> same_terms ctx (ld_ctx l) \<and> set (ld_controls l) \<subseteq> set (obs_controls obs)"

lemma cut_facts_terms: "same_terms ctx (cut_facts E limit obs controls h n ctx)"
proof -
  have "same_terms c ctx \<Longrightarrow> same_terms c (cut_facts E limit obs controls h n ctx)" for c
    by (induction n arbitrary: ctx) (simp_all add: Let_def same_terms_def)
  then show ?thesis by (simp add: same_terms_def)
qed

lemma without_actions_terms: "same_terms c ctx \<Longrightarrow> same_terms c (without_actions h ctx n)"
  by (simp add: same_terms_def without_actions_def)

lemma cut_texts_same:
  "cut_texts E limit obs controls h ctx = (obs', ctx') \<Longrightarrow> same_page obs obs' \<and> same_terms ctx ctx'"
  using cut_facts_terms [of ctx E limit obs controls h "length (ctx_page_facts ctx)"]
  by (auto simp: cut_texts_def Let_def same_page_def same_terms_def split: if_splits)

lemma trim_same:
  assumes "trim E limit obs controls ctx = Some (obs', ctx')"
  shows "same_page obs obs' \<and> same_terms ctx ctx'"
proof -
  let ?h = "ctx_history ctx"
  obtain obs1 ctx1 where one: "(if fits_step E limit obs controls (without_actions ?h ctx (length ?h)) then (obs, ctx)
      else cut_texts E limit obs controls ?h ctx) = (obs1, ctx1)" by fastforce
  have "same_page obs obs1 \<and> same_terms ctx ctx1"
    using one cut_texts_same [of E limit obs controls ?h ctx] by (auto simp: same_page_def same_terms_def split: if_splits)
  moreover have "obs' = obs1" "\<exists>n. ctx' = without_actions ?h ctx1 n"
    using assms one by (auto simp: trim_def Let_def split: if_splits)
  ultimately show ?thesis using without_actions_terms by auto
qed

lemma shortlist_subset:
  assumes "shortlist E receipts limit obs controls ctx w = (Inr (Some (kept, paid, used)), w')"
  shows "set kept \<subseteq> set controls"
proof -
  have "\<exists>ranked p. kept = shortlist_kept controls ranked p"
    using assms unfolding shortlist_def Let_def
    by (auto simp: policy_results trace_event_def split: if_splits)
  then show ?thesis by (auto simp: shortlist_kept_def dest: in_set_nthsD)
qed

lemma same_trans:
  "same_page a b \<Longrightarrow> same_page b c \<Longrightarrow> same_page a c" "same_terms x y \<Longrightarrow> same_terms y z \<Longrightarrow> same_terms x z"
  by (simp_all add: same_page_def same_terms_def)

lemma lower_rungs_of: "ladder_of obs ctx l \<Longrightarrow> lower_rungs E limit l = Try_Again l' \<Longrightarrow> ladder_of obs ctx l'"
  using trim_same [of E limit "ld_obs l" "[]" "ld_ctx l"]
  by (fastforce simp: lower_rungs_def ladder_of_def onscreen_rung_def cap_def cap_kept_def Let_def intro: same_trans
      split: option.splits if_splits prod.splits dest: in_set_nthsD)

lemma reduce_turn_of:
  assumes "ladder_of obs ctx l" and "reduce_turn E receipts limit l w = (Try_Again l', w')"
  shows "ladder_of obs ctx l'"
proof (cases "if ld_trimmed l then None else trim E limit (ld_obs l) (ld_controls l) (ld_ctx l)")
  case (Some found)
  obtain obs1 ctx1 where found: "found = (obs1, ctx1)" by fastforce
  then have "same_page (ld_obs l) obs1 \<and> same_terms (ld_ctx l) ctx1" using Some trim_same by (auto split: if_splits)
  then show ?thesis using assms Some found by (auto simp: reduce_turn_def ladder_of_def intro: same_trans)
next
  case None
  let ?l1 = "l\<lparr>ld_trimmed := True\<rparr>" and ?l2 = "l\<lparr>ld_trimmed := True, ld_tried := True\<rparr>"
  note run = assms(2) [unfolded reduce_turn_def None option.case Let_def]
  have ladders: "ladder_of obs ctx ?l1" "ladder_of obs ctx ?l2" using assms(1) by (simp_all add: ladder_of_def)
  obtain r w1 where r: "shortlist E receipts limit (ld_obs l) (ld_controls l) (ld_ctx l) w = (r, w1)" by fastforce
  have "(\<exists>kept paid used. r = Inr (Some (kept, paid, used)) \<and> l' = keep_shortlist (kept, paid, used) ?l2)
      \<or> lower_rungs E limit ?l2 = Try_Again l' \<or> lower_rungs E limit ?l1 = Try_Again l'"
    using run r by (auto split: sum.splits option.splits if_splits)
  then show ?thesis
  proof (elim disjE exE conjE)
    fix kept paid used
    assume k: "r = Inr (Some (kept, paid, used))" "l' = keep_shortlist (kept, paid, used) ?l2"
    have "set kept \<subseteq> set (ld_controls l)" using shortlist_subset r k(1) by blast
    then show ?thesis using assms(1) k(2) by (auto simp: ladder_of_def keep_shortlist_def)
  qed (rule lower_rungs_of [OF ladders(2)] lower_rungs_of [OF ladders(1)], assumption)+
qed

section \<open>The decision of a step\<close>

definition decided_offered :: "agent_env \<Rightarrow> observation \<Rightarrow> step_context \<Rightarrow> decision \<Rightarrow> bool" where
  "decided_offered E obs ctx d \<longleftrightarrow>
     (let op = dec_operation d in
      (if obs_dialog obs \<noteq> None then op = Op_Dialog else op \<noteq> Op_Dialog \<and> op \<notin> set (ctx_withheld ctx))
      \<and> (op = Op_Upload \<longrightarrow> ctx_has_attachments ctx) \<and> (op = Op_Back \<longrightarrow> obs_can_go_back obs)
      \<and> (if is_targeted op then \<exists>c\<in>set (obs_controls obs). dec_target d = Some c \<and> acts_on ctx op c else dec_target d = None)
      \<and> (if op = Op_Navigate then \<exists>url\<in>set (step_urls E obs ctx). dec_url d = Some url else dec_url d = None)
      \<and> (if op = Op_SwitchTab then \<exists>t\<in>set (obs_tabs obs). dec_tab_id d = Some (tab_id t) else dec_tab_id d = None)
      \<and> (if op = Op_Drag then \<exists>c\<in>set (obs_controls obs). dec_destination d = Some c \<and> ctl_label c \<noteq> [] else dec_destination d = None))"

lemma step_urls_same: "same_page obs obs' \<Longrightarrow> same_terms ctx ctx' \<Longrightarrow> step_urls E obs' ctx' = step_urls E obs ctx"
  by (simp add: step_urls_def same_page_def same_terms_def)

lemma offers_allowed:
  assumes "op \<in> set (step_offers E obs controls ctx)"
  shows "if obs_dialog obs \<noteq> None then op = Op_Dialog else op \<noteq> Op_Dialog \<and> op \<notin> set (ctx_withheld ctx)"
    and "op = Op_Upload \<Longrightarrow> ctx_has_attachments ctx" and "op = Op_Back \<Longrightarrow> obs_can_go_back obs"
  using assms by (auto simp: step_offers_def offered_operations_def split: if_splits)

lemma offered_decided:
  assumes "offered_decision E obs' cs ctx' d" and "same_page obs obs'" and "same_terms ctx ctx'" and "set cs \<subseteq> set (obs_controls obs)"
  shows "decided_offered E obs ctx d"
proof -
  let ?op = "dec_operation d"
  have acts: "acts_on ctx' op c = acts_on ctx op c" for op c using assms(3) by (simp add: acts_on_def blurs_def same_terms_def)
  have page: "obs_dialog obs' = obs_dialog obs" "obs_can_go_back obs' = obs_can_go_back obs" "obs_tabs obs' = obs_tabs obs"
    using assms(2) by (simp_all add: same_page_def)
  have terms: "ctx_withheld ctx' = ctx_withheld ctx" "ctx_has_attachments ctx' = ctx_has_attachments ctx"
    using assms(3) by (simp_all add: same_terms_def)
  have op: "?op \<in> set (step_offers E obs' cs ctx')" using assms(1) by (simp add: offered_decision_def)
  note allowed = offers_allowed [OF op, unfolded page terms]
  have "if is_targeted ?op then \<exists>c\<in>set (obs_controls obs). dec_target d = Some c \<and> acts_on ctx ?op c else dec_target d = None"
    "if ?op = Op_Drag then \<exists>c\<in>set (obs_controls obs). dec_destination d = Some c \<and> ctl_label c \<noteq> [] else dec_destination d = None"
    using assms(1,4) unfolding offered_decision_def acts by (auto split: if_splits)
  moreover have "if ?op = Op_Navigate then \<exists>url\<in>set (step_urls E obs ctx). dec_url d = Some url else dec_url d = None"
    "if ?op = Op_SwitchTab then \<exists>t\<in>set (obs_tabs obs). dec_tab_id d = Some (tab_id t) else dec_tab_id d = None"
    using assms(1) unfolding offered_decision_def page step_urls_same [OF assms(2,3)] by simp_all
  ultimately show ?thesis unfolding decided_offered_def Let_def using allowed by (intro conjI impI)
qed

text \<open>The request a decision was read from.\<close>

definition read_from :: "agent_env \<Rightarrow> observation \<Rightarrow> step_context \<Rightarrow> decision \<Rightarrow> agent_world \<Rightarrow> bool" where
  "read_from E obs ctx d w' \<longleftrightarrow>
     (\<exists>l d0 w. ladder_of obs ctx l \<and> d = finish_decision E l d0
        \<and> request_fits (build_request E (ld_obs l) (ld_controls l) (ld_ctx l) (max_choice_options (env_profile E))) (env_config E)
        \<and> evaluate_step E (build_request E (ld_obs l) (ld_controls l) (ld_ctx l) (max_choice_options (env_profile E)))
            (ld_controls l) (ld_reduction l) w = (Inr d0, w'))"

lemma reduce_turn_undecided: "reduce_turn E receipts limit l w \<noteq> (Decided (Inr d), w')"
  by (auto simp: reduce_turn_def lower_rungs_def Let_def split: option.splits if_splits prod.splits sum.splits)

lemma decide_turn_cases:
  assumes "ladder_of obs ctx l" and "decide_turn E receipts (max_choice_options (env_profile E)) l w = (t, w')"
  shows "t = Try_Again l' \<Longrightarrow> ladder_of obs ctx l'" and "t = Decided (Inr d) \<Longrightarrow> read_from E obs ctx d w'"
proof -
  let ?limit = "max_choice_options (env_profile E)"
  let ?r = "build_request E (ld_obs l) (ld_controls l) (ld_ctx l) ?limit"
  obtain r w1 where r: "evaluate_step E ?r (ld_controls l) (ld_reduction l) w = (r, w1)" by fastforce
  have shed_of: "ladder_of obs ctx (l\<lparr>ld_controls := cs, ld_reduction := red\<rparr>)"
    if "shed ?r (ld_controls l) (env_config E) (ld_reduction l) = Some (cs, red)" for cs red
    using assms(1) that by (auto simp: shed_def onscreen_rung_def ladder_of_def Let_def split: if_splits)
  show "t = Try_Again l' \<Longrightarrow> ladder_of obs ctx l'"
    using assms r shed_of reduce_turn_of [OF assms(1), of E receipts ?limit]
    by (auto simp: decide_turn_def Let_def split: if_splits sum.splits failure_kind.splits option.splits)
  show "t = Decided (Inr d) \<Longrightarrow> read_from E obs ctx d w'"
    using assms r reduce_turn_undecided [of E receipts ?limit]
    by (auto simp: decide_turn_def Let_def read_from_def split: if_splits sum.splits failure_kind.splits option.splits)
qed

lemma decide_loop_reads:
  "ladder_of obs ctx l \<Longrightarrow> decide_loop E receipts (max_choice_options (env_profile E)) l w = (Inr d, w') \<Longrightarrow> read_from E obs ctx d w'"
proof (induction E receipts "max_choice_options (env_profile E)" l w rule: decide_loop.induct)
  case (1 E receipts l w)
  let ?limit = "max_choice_options (env_profile E)"
  obtain t w1 where t: "decide_turn E receipts ?limit l w = (t, w1)" by fastforce
  note run = 1(3) [unfolded decide_loop.simps [of E receipts ?limit l w] t prod.case]
  show ?case
  proof (cases t)
    case (Decided r)
    then show ?thesis using run decide_turn_cases(2) [OF 1(2) t] by simp
  next
    case (Try_Again l')
    then show ?thesis using run 1(1) [OF t [symmetric] Try_Again] decide_turn_cases(1) [OF 1(2) t Try_Again] by simp
  qed
qed

lemma decide_reads:
  assumes "decide E receipts obs ctx w = (Inr d, w')"
  shows "read_from E obs ctx d w'"
proof -
  have page: "same_page obs obs" "same_terms ctx ctx" by (simp_all add: same_page_def same_terms_def)
  show ?thesis
    using assms unfolding decide_def Let_def
    by (auto split: if_splits prod.splits sum.splits option.splits intro!: decide_loop_reads
        simp: ladder_of_def page keep_shortlist_def dest: shortlist_subset in_set_nthsD)
qed

lemma finish_decided [simp]: "decided_offered E obs ctx (finish_decision E l d) = decided_offered E obs ctx d"
  unfolding decided_offered_def finish_decision_def Let_def by simp

text \<open>
  C4: What the policy decides is something the page offered.  Whatever the page, the history and the notes, and however the
  request had to be cut to fit Jev, a step that is decided names an operation the run has not withheld (and, under a dialog,
  the dialog alone), acts on a control of the observed page that takes that operation (a blur, one not withheld for it), goes to an address
  the page or the task gave, to a tab that is open, drops on a labelled control, and was read from a request within the token budget.
\<close>

theorem decide_offered:
  assumes "answers_offered E" and "decide E receipts obs ctx w = (Inr d, w')"
  shows "decided_offered E obs ctx d \<and> read_from E obs ctx d w'"
proof -
  have read: "read_from E obs ctx d w'" using decide_reads [OF assms(2)] .
  then obtain l d0 w0 where l: "ladder_of obs ctx l" "d = finish_decision E l d0"
    "evaluate_step E (build_request E (ld_obs l) (ld_controls l) (ld_ctx l) (max_choice_options (env_profile E)))
       (ld_controls l) (ld_reduction l) w0 = (Inr d0, w')"
    unfolding read_from_def by blast
  have "decided_offered E obs ctx d0"
    using offered_decided [OF evaluate_step_offered [OF assms(1) l(3)]] l(1) by (simp add: ladder_of_def)
  then show ?thesis using read l(2) by simp
qed

text \<open>A Jev that answers every question with the first answer it allows.\<close>

definition first_answer :: "question \<Rightarrow> answer" where
  "first_answer q =
     (case q of
        Q_Choice c \<Rightarrow>
          (let keys = im_keys (cq_criteria c) in
           A_Choice \<lparr>ca_choice = hd keys, ca_probabilities = map (\<lambda>k. (k, if k = hd keys then 1 else 0)) keys, ca_confidence = 1\<rparr>)
      | _ \<Rightarrow> A_Noul 0)"

definition answerable :: "question \<Rightarrow> bool" where
  "answerable q =
     (case q of Q_Choice c \<Rightarrow> im_keys (cq_criteria c) \<noteq> [] \<and> distinct (im_keys (cq_criteria c)) | Q_Noul _ \<Rightarrow> True | _ \<Rightarrow> False)"

definition example_first :: agent_env where
  "example_first = example_env\<lparr>env_evaluate := (\<lambda>_ (_, _, qs).
     if list_all (answerable \<circ> snd) qs
     then Inr \<lparr>eval_model = [], eval_answers = map (\<lambda>(k, q). (k, first_answer q)) qs, eval_input_tokens = 0,
               eval_cost = cost_line_new Cost_Jev Basis_Estimated (Some 0), eval_requests = 1\<rparr>
     else Inl (Decision_Failed []))\<rparr>"

definition example_form :: observation where
  "example_form = example_observation [example_button] (lit ''Unsaved'')"

definition example_ctx :: step_context where
  "example_ctx = step_context_new (lit ''Save'')"

definition example_request :: step_request where
  "example_request = build_request example_first example_form [example_button] example_ctx 255"

text \<open>A token budget that holds the request.\<close>

definition with_chars :: "int \<Rightarrow> agent_env \<Rightarrow> agent_env" where
  "with_chars n E = E\<lparr>env_config := (env_config E)\<lparr>tokens := (tokens (env_config E))\<lparr>decision_chars := Some (n, n)\<rparr>\<rparr>\<rparr>"

definition request_chars :: "step_request \<Rightarrow> int" where
  "request_chars r = int (text_len (dumps (sr_state r)) + sum_list (map text_len (questions_written (sr_questions r))))"

lemma build_request_chars: "build_request (with_chars n E) = build_request E"
proof -
  have fields: "env_sha (with_chars n E) = env_sha E" "env_num (with_chars n E) = env_num E" "env_unicode (with_chars n E) = env_unicode E"
    "env_urls (with_chars n E) = env_urls E" "cfg_observation (env_config (with_chars n E)) = cfg_observation (env_config E)"
    by (simp_all add: with_chars_def)
  show ?thesis
    by (intro ext) (simp only: build_request_def step_urls_def step_state_def group_limit_def extra_questions_def fields)
qed

lemma foldl_max_sum: "\<lbrakk>0 \<le> (m :: real); \<forall>x\<in>set xs. 0 \<le> x\<rbrakk> \<Longrightarrow> foldl max m xs \<le> m + sum_list xs"
proof (induction xs arbitrary: m)
  case (Cons x xs)
  then have "foldl max (max m x) xs \<le> max m x + sum_list xs" by simp
  then show ?case using Cons.prems by auto
qed simp

lemma request_fits_chars: "request_fits r (env_config (with_chars (request_chars r) E))"
proof -
  let ?sizes = "map (real \<circ> text_len) (questions_written (sr_questions r))" and ?st = "text_len (dumps (sr_state r))"
  have "sum_list (map (real \<circ> text_len) qs) = real (sum_list (map text_len qs))" for qs by (induction qs) auto
  then have total: "sum_list ?sizes = real (sum_list (map text_len (questions_written (sr_questions r))))" .
  have "foldl max 0 ?sizes \<le> sum_list ?sizes" using foldl_max_sum [of 0 ?sizes] by simp
  then have "real ?st \<le> min (real_of_int (request_chars r) - foldl max 0 ?sizes) (real_of_int (request_chars r) - sum_list ?sizes)"
    unfolding total by (simp add: request_chars_def)
  then have "int ?st \<le> trunc (min (real_of_int (request_chars r) - foldl max 0 ?sizes) (real_of_int (request_chars r) - sum_list ?sizes))"
    unfolding trunc_def by (simp add: le_floor_iff)
  then show ?thesis
    by (simp add: request_fits_def input_chars_def with_chars_def py_sum_sum_list Let_def comp_def)
qed

definition example_decider :: agent_env where
  "example_decider = with_chars (request_chars example_request) example_first"

lemma example_candidates: "candidates_of (index_controls [example_button] example_ctx) Op_Click = [example_button]"
  by code_simp

lemma example_offered:
  "step_urls example_first example_form example_ctx = []"
  "offered_operations example_form (index_controls [example_button] example_ctx) example_ctx []
   = [Op_Click, Op_Escape, Op_Scroll, Op_ScrollUp, Op_Wait, Op_Read, Op_Done]"
  by code_simp+

lemma example_request_questions:
  "sr_questions example_request =
     [(lit ''operation'', choice_of (untrusted NEXT_ACTION_RULES)
         (map (\<lambda>op. (operation_str op, JString (operation_label op))) [Op_Click, Op_Escape, Op_Scroll, Op_ScrollUp, Op_Wait, Op_Read, Op_Done])),
      (key_target Op_Click, target_question Op_Click [example_button] (untrusted TARGET_RULES)), (lit ''site_failure'', failure_question)]"
  "sr_targets example_request = [(Op_Click, [example_button])]"
proof -
  have ctx: "ctx_screenshot example_ctx = None" "ctx_ahead example_ctx = []" "\<not> ctx_check_login example_ctx" "\<not> ctx_check_answer example_ctx"
    "\<not> ctx_check_bot example_ctx"
    by (simp_all add: example_ctx_def step_context_new_def)
  have keys: "key_target Op_Click = lit ''click_target''" by code_simp
  show "sr_questions example_request =
     [(lit ''operation'', choice_of (untrusted NEXT_ACTION_RULES)
         (map (\<lambda>op. (operation_str op, JString (operation_label op))) [Op_Click, Op_Escape, Op_Scroll, Op_ScrollUp, Op_Wait, Op_Read, Op_Done])),
      (key_target Op_Click, target_question Op_Click [example_button] (untrusted TARGET_RULES)), (lit ''site_failure'', failure_question)]"
    "sr_targets example_request = [(Op_Click, [example_button])]"
    unfolding example_request_def build_request_def Let_def example_offered
    by (simp_all add: ctx is_targeted_def TARGETED_def add_target_def example_candidates keys extra_questions_def ahead_offered_def im_extend_def Let_def)
qed

lemma first_answers_offered: "answers_offered example_decider"
proof -
  have "answer_fits q (first_answer q)" if "answerable q" for q
  proof (cases q)
    case (Q_Choice c)
    let ?keys = "im_keys (cq_criteria c)"
    have keys: "?keys \<noteq> []" "distinct ?keys" using that Q_Choice by (simp_all add: answerable_def)
    have "sum_list (map (\<lambda>k. if k = hd ?keys then 1 else 0 :: real) ?keys) = 1"
    proof (cases ?keys)
      case (Cons k ks)
      then have "k \<notin> set ks" using keys by simp
      then have "map (\<lambda>x. if x = k then 1 else 0 :: real) ks = map (\<lambda>_. 0) ks" by auto
      then show ?thesis using Cons by (simp add: map_replicate_const sum_list_replicate)
    qed (use keys in simp)
    moreover have "hd ?keys \<in> fst ` set (cq_criteria c)" using hd_in_set [OF keys(1)] by simp
    ultimately show ?thesis using keys Q_Choice
      by (auto simp: first_answer_def distribution_def comp_def list_all_iff unit_interval_def tolerance_def Let_def)
  qed (use that in \<open>simp_all add: answerable_def first_answer_def unit_interval_def\<close>)
  then have "fits_some qs (map (\<lambda>(k, q). (k, first_answer q)) qs)" if "list_all (answerable \<circ> snd) qs" for qs
    using that unfolding fits_some_def list_all_iff by fastforce
  moreover have "im_keys (map (\<lambda>(k, q). (k, first_answer q)) qs) = im_keys qs" for qs :: questions by (induction qs) auto
  ultimately show ?thesis
    unfolding answers_offered_def answered_all_def example_decider_def with_chars_def example_first_def
    by (auto simp del: map_map set_map split: if_splits)
qed

lemma example_jev_answers:
  assumes "list_all (answerable \<circ> snd) qs"
  shows "\<exists>ev w'. ask_jev example_decider (Jev_Action, st, qs) example_world = (Inr ev, w')
     \<and> eval_answers ev = map (\<lambda>(k, q). (k, first_answer q)) qs"
proof -
  let ?L = "run_ledger (w_run example_world)" and ?cost = "(cost_line_new Cost_Jev Basis_Estimated (Some 0))\<lparr>line_decision_purpose := Some Jev_Action\<rparr>"
  have ledger: "fst (reserve (\<lambda>_. NotANumber) 0 ?L Cost_Jev 0 1) = Inr ()"
    "fst (ledger_record (\<lambda>_. NotANumber) 0 (snd (reserve (\<lambda>_. NotANumber) 0 ?L Cost_Jev 0 1)) [?cost]) = Inr ()"
    by code_simp+
  have env: "env_num example_decider = (\<lambda>_. NotANumber)" "env_clock example_decider = (\<lambda>_. 0)"
    "env_evaluate example_decider = env_evaluate example_first"
    by (simp_all add: example_decider_def with_chars_def example_first_def example_env_def)
  obtain L1 where L1: "reserve (\<lambda>_. NotANumber) 0 ?L Cost_Jev 0 1 = (Inr (), L1)" using ledger(1) by (metis prod.collapse)
  obtain L2 where L2: "ledger_record (\<lambda>_. NotANumber) 0 L1 [?cost] = (Inr (), L2)" using ledger(2) L1 by (metis prod.collapse snd_conv)
  show ?thesis
    using assms by (simp add: ask_jev_def step_bind_def step_ok_def reserve_calls_def record_costs_def env L1 L2 evaluate_def example_first_def
        with_purpose_def step_of_result_def)
qed

lemma example_form_decided:
  "case decide example_decider (\<lambda>_ _. []) example_form example_ctx example_world of
     (Inr d, _) \<Rightarrow> dec_operation d = Op_Click \<and> dec_target d = Some example_button | _ \<Rightarrow> False"
proof -
  let ?l = "\<lparr>ld_obs = example_form, ld_ctx = example_ctx, ld_controls = [example_button], ld_reduction = Reduction_None, ld_cost = [],
      ld_tokens = 0, ld_trimmed = False, ld_tried = False\<rparr>"
  have page: "obs_controls example_form = [example_button]" by (simp add: example_form_def example_observation_def)
  have limit: "max_choice_options (env_profile example_decider) = 255"
    by (simp add: example_decider_def with_chars_def example_first_def example_env_def profile_jev_def)
  have room: "max_offered example_decider 255 = 7650"
    by (simp add: max_offered_def group_limit_def example_decider_def with_chars_def example_first_def example_env_def config_default_def)
  have request: "build_request example_decider example_form [example_button] example_ctx 255 = example_request"
    by (simp add: example_decider_def build_request_chars example_request_def)
  have fits: "request_fits example_request (env_config example_decider)" by (simp add: example_decider_def request_fits_chars)
  have step: "case evaluate_step example_decider example_request [example_button] Reduction_None example_world of
     (Inr d, _) \<Rightarrow> dec_operation d = Op_Click \<and> dec_target d = Some example_button | _ \<Rightarrow> False"
  proof -
    have able: "list_all (answerable \<circ> snd) (sr_questions example_request)"
      by (simp add: example_request_questions answerable_def choice_of_def target_question_def failure_question_def step_noul_def im_collect_def)
    obtain ev w' where ev: "ask_jev example_decider (Jev_Action, sr_state example_request, sr_questions example_request) example_world = (Inr ev, w')"
      "eval_answers ev = map (\<lambda>(k, q). (k, first_answer q)) (sr_questions example_request)"
      using example_jev_answers [OF able] by blast
    have key: "key_target Op_Click = lit ''click_target''" by code_simp
    have target: "\<exists>a. answered_choice ev (lit ''click_target'') = Inr a \<and> ca_choice a = ctl_id example_button \<and> ca_probabilities a = [(ctl_id example_button, 1)]"
      by (simp add: answered_choice_def ev example_request_questions first_answer_def choice_of_def target_question_def im_collect_def Let_def key)
    have op: "\<exists>a. answered_choice ev (lit ''operation'') = Inr a \<and> asked_operation a = Inr Op_Click"
      by (simp add: answered_choice_def ev example_request_questions first_answer_def choice_of_def im_collect_def Let_def asked_operation_def enum_parse_def operation_ALL_def ok_or_def)
    show ?thesis using target op ev(1)
      by (auto simp: evaluate_step_def step_bind_def policy_ask_def of_agent_def step_of_result_def step_ok_def pick_target_def example_request_questions key
         find_control_def destination_pick_def pick_votes_def ok_or_def read_decision_def Let_def split: option.splits if_splits)
  qed
  show ?thesis using step
    by (auto simp: decide_def Let_def limit page room decide_loop.simps [of _ _ _ ?l] decide_turn_def request fits finish_decision_def
        split: prod.splits sum.splits)
qed

theorem decide_offered_witness:
  "\<exists>d w'. decide example_decider (\<lambda>_ _. []) example_form example_ctx example_world = (Inr d, w')
     \<and> dec_operation d = Op_Click \<and> dec_target d = Some example_button
     \<and> decided_offered example_decider example_form example_ctx d \<and> read_from example_decider example_form example_ctx d w'"
proof -
  obtain d w' where d: "decide example_decider (\<lambda>_ _. []) example_form example_ctx example_world = (Inr d, w')"
    "dec_operation d = Op_Click" "dec_target d = Some example_button"
    using example_form_decided by (auto split: prod.splits sum.splits)
  then show ?thesis using decide_offered [OF first_answers_offered d(1)] by blast
qed

section \<open>What a batch holds\<close>

definition askable :: "token_budget \<Rightarrow> int \<Rightarrow> str \<times> question \<Rightarrow> bool" where
  "askable t state_chars kq \<longleftrightarrow> state_chars \<le> input_chars t (questions_written [kq])"

text \<open>A request within the model's limits: the state beside its questions, their number, and a size that keeps it small unless it asks one alone.\<close>

definition batch_fits :: "token_budget \<Rightarrow> nat option \<Rightarrow> int \<Rightarrow> questions \<Rightarrow> bool" where
  "batch_fits t most state_chars b \<longleftrightarrow>
     b \<noteq> [] \<and> state_chars \<le> input_chars t (questions_written b)
     \<and> (case most of Some m \<Rightarrow> length b \<le> max 1 m | None \<Rightarrow> True)
     \<and> (length b = 1 \<or> (\<Sum>j\<leftarrow>questions_written b. real (text_len j) / chars_per_token t)
                         \<le> real_of_int (min (batch_tokens t) (state_plus_all_questions t)))"

lemma batch_fits_add:
  assumes "b \<noteq> []" and "\<not> batch_full t most sc b (dump_json (question_dump (snd kq)))"
  shows "batch_fits t most sc (b @ [kq])"
  using assms by (auto simp: batch_fits_def batch_full_def questions_written_def Let_def not_less split: option.splits)

lemma batch_fits_one: "batch_fits t most sc [kq] \<longleftrightarrow> askable t sc kq"
  by (simp add: batch_fits_def askable_def split: option.split)

lemma pack_batches_packs:
  assumes "distinct (im_keys (batch @ qs))" and "batch = [] \<or> batch_fits t most sc batch"
  shows "concat (pack_batches t most sc batch qs) = batch @ filter (askable t sc) qs
     \<and> list_all (batch_fits t most sc) (pack_batches t most sc batch qs)"
  using assms
proof (induction t most sc batch qs rule: pack_batches.induct)
  case (2 t most sc batch kq rest)
  let ?json = "dump_json (question_dump (snd kq))"
  have able: "askable t sc kq \<longleftrightarrow> \<not> sc > input_chars t [?json]" by (simp add: askable_def questions_written_def not_less)
  have new: "im_insert (fst kq) (snd kq) batch = batch @ [kq]" using 2(4) by (subst im_insert_new) auto
  consider (over) "\<not> askable t sc kq" | (full) "askable t sc kq" "batch \<noteq> []" "batch_full t most sc batch ?json"
    | (room) "askable t sc kq" "batch = [] \<or> \<not> batch_full t most sc batch ?json"
    by blast
  then show ?case
  proof cases
    case over
    then show ?thesis using 2(1) [OF refl] 2(4,5) by (simp add: able Let_def)
  next
    case full
    then show ?thesis using 2(2) [OF refl] 2(4,5) by (simp add: able Let_def batch_fits_one)
  next
    case room
    then have "batch_fits t most sc (batch @ [kq])" using batch_fits_add [of batch] batch_fits_one [of t most sc kq] by (cases "batch = []") auto
    then show ?thesis using room 2(3) [OF refl] 2(4) by (auto simp: able new Let_def)
  qed
qed (auto simp: batch_fits_def)

text \<open>
  C5: Questions are packed into requests without losing one.  The batches ask, in order and once each, exactly the questions that
  fit beside the state on their own; every batch leaves the state room, asks no more questions than the model takes, and holds more than
  one question only while they stay within the size of a batch.
\<close>

theorem batches_hold_questions:
  assumes "distinct (im_keys qs)"
  shows "concat (pack_batches t most state_chars [] qs) = filter (askable t state_chars) qs
     \<and> list_all (batch_fits t most state_chars) (pack_batches t most state_chars [] qs)"
  using pack_batches_packs [of "[]" qs] assms by simp

definition example_many :: questions where
  "example_many = map (\<lambda>k. (lit k, Q_Noul (noul_new (lit ''yes?'') None None))) [''a'', ''b'', ''c'']"

theorem batches_hold_questions_witness:
  "let t = token_budget_default; b = pack_batches t (Some 2) 9 [] example_many
   in map im_keys b = [[lit ''a'', lit ''b''], [lit ''c'']] \<and> concat b = filter (askable t 9) example_many \<and> list_all (batch_fits t (Some 2) 9) b"
proof -
  have "distinct (im_keys example_many)" by code_simp
  moreover have "map im_keys (pack_batches token_budget_default (Some 2) 9 [] example_many) = [[lit ''a'', lit ''b''], [lit ''c'']]" by code_simp
  ultimately show ?thesis using batches_hold_questions [of example_many token_budget_default "Some 2" 9] by (simp add: Let_def)
qed

end
