(* ===== verification/Spec2Isabelle.thy ===== *)
theory Spec2Isabelle
  imports Clients Deciding
begin

text \<open>
  Verification library of fastbrowse, a browser-automation agent written in Rust.

  \<^bold>\<open>The program.\<close>  A run of fastbrowse takes a task in words, observes a page, asks a decision model (Jev) typed questions about
  it, and carries out the action chosen, step after step, until it can answer.  \<^verbatim>\<open>crates/fastbrowse-core\<close> holds the data
  and the rules every part shares: text and JSON as Python spells them, models, the ledger, origins, safety, redaction, recipes.
  \<^verbatim>\<open>crates/fastbrowse-agent\<close> holds the loop: the state of a run, its notes, what the model is shown, and the gates in
  front of an action.  \<^verbatim>\<open>crates/fastbrowse-clients\<close> sends the requests to the providers and validates what comes back.
  The agent calls a client through the \<^verbatim>\<open>DecisionClient\<close> trait and charges every call to the ledger; the client prices
  each request against the ledger before sending it.

  \<^bold>\<open>Ground.\<close>  \<open>Prelude\<close> has strings as lists of code points, results with the \<^verbatim>\<open>?\<close> operator as sums, and the
  insertion-ordered map with its contract \<open>finite_map\<close>.  \<open>PyText\<close>, \<open>PyJson\<close>, \<open>DateTimes\<close>, \<open>Base64\<close> and \<open>Lax\<close>
  are \<^verbatim>\<open>core/src/py\<close>: round trips of literals, dates and base64, exact lengths, and what lax readers accept.

  \<^bold>\<open>Core.\<close>  \<open>Models\<close> (\<^verbatim>\<open>models.rs\<close>) has the enums, one contract \<open>str_enum\<close> for all; \<open>Ledger\<close> (\<^verbatim>\<open>telemetry.rs\<close>)
  is a step relation over which limits are invariants under any interleaving; \<open>Page\<close> (\<^verbatim>\<open>page.rs\<close>), \<open>Origins\<close>,
  \<open>Navigation\<close>, \<open>Decision\<close> (\<^verbatim>\<open>config.rs\<close>, \<^verbatim>\<open>decision.rs\<close>), \<open>Failures\<close>, \<open>Citations\<close>, \<open>Effects\<close> are the files
  of those names.  \<open>Safety\<close> and \<open>Redaction\<close> are \<^verbatim>\<open>safety.rs\<close>: where a secret may be typed and that none is
  written out; \<open>Recipes\<close> is \<^verbatim>\<open>recipe.rs\<close> with the replay machine of the agent.

  \<^bold>\<open>Agent.\<close>  \<open>Memory\<close> (\<^verbatim>\<open>memory.rs\<close>): notes, their invariant, what superseding retires, what rendering keeps.
  \<open>RunState\<close> and \<open>StateOps\<close> (\<^verbatim>\<open>agent/state.rs\<close>): the record of a run, every operation, its invariant over any sequence of
  them.  \<open>PageState\<close>: what a request shows of a page, and that it fits.  \<open>Stalls\<close> (\<^verbatim>\<open>helpers.rs\<close>, \<^verbatim>\<open>recovery.rs\<close>): what is not
  offered again.  \<open>Agents\<close> (\<^verbatim>\<open>agent/mod.rs\<close>, \<^verbatim>\<open>driving.rs\<close>, the gates of \<^verbatim>\<open>acting.rs\<close>): a handler is a function of the
  world and the environment \<open>agent_env\<close>; the gate opens only when judged.  \<open>Words\<close>, \<open>Choosing\<close>, \<open>Filling\<close> and \<open>Acting\<close> are
  the rest of \<^verbatim>\<open>acting.rs\<close>, \<^verbatim>\<open>writing.rs\<close> and the words of \<^verbatim>\<open>retrieval/text.rs\<close>: where every text typed and address
  opened comes from, that a choice was offered, that no answer makes the agent panic.  \<open>Offering\<close> and \<open>Deciding\<close> are
  \<^verbatim>\<open>policy.rs\<close> and \<^verbatim>\<open>batches.rs\<close>: the request of a step, the ladder that cuts a page to one request, the batches that score its
  controls, and that a decided step is one the page offered.

  \<^bold>\<open>Clients.\<close>  \<open>Replies\<close> is the validation of a reply and the text of errors.  \<open>Sending\<close> is one request with its retries, receipts and
  spend scopes; a call is a function of \<open>net_world\<close>, the log of requests, waits, clock readings and shared receipts.
  \<open>Asking\<close> prices a request, splits a failing batch, and answers choices of one option; the locale \<open>provider\<close> is the
  interface of one provider's request.  \<open>Clients\<close> has the three providers, interpreted in it, and the failover clients;
  the locale \<open>decision_client\<close> is what an agent relies on, and every client is interpreted in it.  The theorem below joins
  the two halves: an agent over any of these clients meets the assumptions \<open>answers_asked\<close> and \<open>answers_offered\<close> under which its
  gates and its decisions are verified.

  \<^bold>\<open>Parameters.\<close>  Code outside the repository is an argument: the Unicode tables, the \<^verbatim>\<open>url\<close> and \<^verbatim>\<open>sha2\<close> crates,
  \<^verbatim>\<open>serde_json\<close>, the decimal form of a float, the HTTP transport and the clock; in \<open>agent_env\<close> also Jev, the LLM, the browser
  page and the store of secrets.  What a theorem needs of them is a named hypothesis with a witness.

  \<^bold>\<open>Conventions.\<close>  Every definition is total and executable.  Loops are structural recursions or have a measure: retries count down to
  the length of the delay table, narrowing to the size of the source, expansion to the facts not yet seen, the ladder of a step to its rungs left; there is no fuel.  An error is the left
  of a sum and keeps the state changes before it; a step that would panic in the source is the outcome \<open>Flow_Panic\<close>, shown not to
  happen where it matters.  An \<^verbatim>\<open>f64\<close> is a real, so rounding is not seen, with NaN and the infinities where text can spell
  them; \<^verbatim>\<open>i64\<close> counters are integers, casts that lose bits are written out, and base64 works on words.

  \<^bold>\<open>Not modelled.\<close>  The browser (\<^verbatim>\<open>crates/fastbrowse-browser\<close>: the DevTools protocol and scripts that run in a page), the command line,
  servers and language bindings (I/O and glue), fetched pages (\<^verbatim>\<open>crates/fastbrowse-run\<close>), the LLM clients and the choice of
  providers from environment variables, answer fields and reading of screenshots (\<^verbatim>\<open>retrieval\<close>, \<^verbatim>\<open>reading.rs\<close>,
  \<^verbatim>\<open>seeing.rs\<close>, \<^verbatim>\<open>finishing.rs\<close>: long sequences of model requests whose state is in \<open>RunState\<close>), JSON
  schemas, serde glue, trace spans, requests of a pass in flight together, and the cancellation of a call.
\<close>

section \<open>The agent over its decision client\<close>

text \<open>An agent that asks Jev through a client.  \<open>view\<close> is the network as it stands when the agent sends a request.\<close>

definition client_env :: "agent_env \<Rightarrow> net_env \<Rightarrow> run_client \<Rightarrow> call_scope \<Rightarrow> (agent_world \<Rightarrow> net_world) \<Rightarrow> agent_env" where
  "client_env A E c sc view =
     A\<lparr>env_evaluate := (\<lambda>w (purpose, state, qs). fst (run_evaluate E c (sc\<lparr>sc_purpose := Some purpose\<rparr>) state qs (view w)))\<rparr>"

text \<open>
  C19: The decision clients implement the oracle the agent is verified against.  An agent that asks through any of them, over
  any network, is one whose evaluations hold answers only to the questions of the request; and every request that is
  evaluated has each of its questions answered, by an answer the question allows.
\<close>

theorem clients_refine_oracle:
  "answers_asked (client_env A E c sc view)
   \<and> answers_offered (client_env A E c sc view)"
proof -
  have all: "answered_all qs (eval_answers ev)"
    if run: "env_evaluate (client_env A E c sc view) w (purpose, state, qs) = Inr ev" for w purpose state qs ev
  proof -
    obtain w' where "client_evaluate E c (sc\<lparr>sc_purpose := Some purpose\<rparr>) state qs [] (view w) = (Inr ev, w')"
      using run by (simp add: client_env_def run_evaluate_images) (metis prod.collapse)
    then show ?thesis by (rule run_client.answers_exactly)
  qed
  then show ?thesis by (fastforce simp: answers_asked_def answers_offered_def answered_all_def)
qed

definition example_client_env :: agent_env where
  "example_client_env = client_env example_env (example_net\<lparr>net_serde := (\<lambda>_. Inr example_reply_json)\<rparr>) (Direct example_provider)
     \<lparr>sc_spend = None, sc_purpose = None\<rparr> (\<lambda>_. example_net_world)"

lemma example_client_answers:
  "case env_evaluate example_client_env example_world (Jev_Authorization, JNull, example_asked) of
     Inr ev \<Rightarrow> eval_answers ev = [(lit ''go'', A_Noul 1)] | Inl _ \<Rightarrow> False"
  by code_simp

theorem clients_refine_oracle_witness:
  "\<exists>ev. env_evaluate example_client_env example_world (Jev_Authorization, JNull, example_asked) = Inr ev
     \<and> answered_all example_asked (eval_answers ev)"
proof -
  obtain ev where ev: "env_evaluate example_client_env example_world (Jev_Authorization, JNull, example_asked) = Inr ev"
    using example_client_answers by (auto split: sum.splits)
  then show ?thesis
    using clients_refine_oracle [of example_env "example_net\<lparr>net_serde := (\<lambda>_. Inr example_reply_json)\<rparr>" "Direct example_provider"]
    unfolding example_client_env_def answers_offered_def by fastforce
qed

end
